(* ===== verification/GoStd.thy ===== *)
theory GoStd
  imports Prelude
begin

text \<open>
  The functions of Go's standard library that the code calls on strings and byte slices:
  \<^verbatim>\<open>strconv.Itoa\<close>, \<^verbatim>\<open>Atoi\<close>, \<^verbatim>\<open>ParseBool\<close>, \<^verbatim>\<open>time.ParseDuration\<close>,
  \<^verbatim>\<open>strings.HasPrefix\<close>, \<^verbatim>\<open>Index\<close>, \<^verbatim>\<open>ToLower\<close>, \<^verbatim>\<open>bytes.Split\<close>,
  \<^verbatim>\<open>ReplaceAll\<close> and \<^verbatim>\<open>TrimSpace\<close>, on strings of bytes.  \<open>ToLower\<close> and
  \<open>TrimSpace\<close> are their ASCII parts.
\<close>

subsection \<open>Characters\<close>

definition byte_of :: "char \<Rightarrow> nat" where
  "byte_of c = of_char c"

definition is_digit :: "char \<Rightarrow> bool" where
  "is_digit c \<longleftrightarrow> 48 \<le> byte_of c \<and> byte_of c \<le> 57"

definition digit_val :: "char \<Rightarrow> int" where
  "digit_val c = int (byte_of c) - 48"

definition digit_char :: "nat \<Rightarrow> char" where
  "digit_char d = char_of (48 + d)"

lemma digit_char_facts:
  assumes "d < 10"
  shows "is_digit (digit_char d)" "digit_val (digit_char d) = int d"
proof -
  have "byte_of (digit_char d) = 48 + d"
    using assms by (simp add: byte_of_def digit_char_def of_char_of)
  with assms show "is_digit (digit_char d)" "digit_val (digit_char d) = int d"
    by (simp_all add: is_digit_def digit_val_def)
qed

definition lower_char :: "char \<Rightarrow> char" where
  "lower_char c = (if 65 \<le> byte_of c \<and> byte_of c \<le> 90 then char_of (byte_of c + 32) else c)"

definition to_lower :: "string \<Rightarrow> string" where
  "to_lower = map lower_char"

subsection \<open>Decimal numbers\<close>

fun show_nat :: "nat \<Rightarrow> string" where
  "show_nat n = (if n < 10 then [digit_char n] else show_nat (n div 10) @ [digit_char (n mod 10)])"

declare show_nat.simps [simp del]

definition itoa :: "int \<Rightarrow> string" where
  "itoa i = (if i < 0 then CHR ''-'' # show_nat (nat (- i)) else show_nat (nat i))"

definition digits_val :: "string \<Rightarrow> int" where
  "digits_val ds = foldl (\<lambda>v c. v * 10 + digit_val c) 0 ds"

lemma digits_val_snoc [simp]: "digits_val (ds @ [c]) = digits_val ds * 10 + digit_val c"
  by (simp add: digits_val_def)

lemma show_nat_digits: "list_all is_digit (show_nat n) \<and> show_nat n \<noteq> []"
proof (induction n rule: show_nat.induct)
  case (1 n)
  then show ?case by (cases "n < 10") (simp_all add: show_nat.simps [of n] digit_char_facts)
qed

lemma show_nat_val: "digits_val (show_nat n) = int n"
proof (induction n rule: show_nat.induct)
  case (1 n)
  show ?case
  proof (cases "n < 10")
    case True
    then show ?thesis by (simp add: show_nat.simps [of n] digits_val_def digit_char_facts)
  next
    case False
    then have "digits_val (show_nat n) = int (n div 10) * 10 + int (n mod 10)"
      using 1 by (simp add: show_nat.simps [of n] digit_char_facts)
    then show ?thesis by (metis div_mult_mod_eq of_nat_add of_nat_mult of_nat_numeral)
  qed
qed

text \<open>\<^verbatim>\<open>strconv.Atoi\<close> on a 64-bit machine: an optional sign, digits, in range.\<close>

definition atoi :: "string \<Rightarrow> int option" where
  "atoi s =
     (let neg = (s \<noteq> [] \<and> hd s = CHR ''-'');
          ds = (if s \<noteq> [] \<and> (hd s = CHR ''-'' \<or> hd s = CHR ''+'') then tl s else s);
          v = (if neg then - digits_val ds else digits_val ds)
      in if ds = [] \<or> \<not> list_all is_digit ds then None
         else if v < - (2 ^ 63) \<or> 2 ^ 63 - 1 < v then None
         else Some v)"

lemma is_digit_sign: "is_digit c \<Longrightarrow> c \<noteq> CHR ''-'' \<and> c \<noteq> CHR ''+'' \<and> c \<noteq> CHR '':''"
  by (auto simp: is_digit_def byte_of_def)

lemma atoi_itoa:
  assumes "- (2 ^ 63) \<le> i" "i < 2 ^ 63"
  shows "atoi (itoa i) = Some i"
proof (cases "i < 0")
  case True
  then show ?thesis
    using assms show_nat_digits [of "nat (- i)"] show_nat_val [of "nat (- i)"]
    by (simp add: atoi_def itoa_def Let_def)
next
  case False
  have "hd (show_nat (nat i)) \<noteq> CHR ''-'' \<and> hd (show_nat (nat i)) \<noteq> CHR ''+''"
    using show_nat_digits [of "nat i"] is_digit_sign by (cases "show_nat (nat i)") auto
  with False show ?thesis
    using assms show_nat_digits [of "nat i"] show_nat_val [of "nat i"]
    by (simp add: atoi_def itoa_def Let_def)
qed

definition parse_bool :: "string \<Rightarrow> bool option" where
  "parse_bool s =
     (if s \<in> {''1'', ''t'', ''T'', ''true'', ''TRUE'', ''True''} then Some True
      else if s \<in> {''0'', ''f'', ''F'', ''false'', ''FALSE'', ''False''} then Some False
      else None)"

subsection \<open>Durations\<close>

text \<open>
  \<^verbatim>\<open>time.ParseDuration\<close>: a sign and a sequence of decimal numbers with units.  The
  fraction is scaled with exact arithmetic where Go uses float64.
\<close>

fun leading_fraction :: "string \<Rightarrow> int \<Rightarrow> int \<Rightarrow> bool \<Rightarrow> int \<times> int \<times> string" where
  "leading_fraction [] x scale ov = (x, scale, [])"
| "leading_fraction (c # s) x scale ov =
     (if \<not> is_digit c then (x, scale, c # s)
      else if ov then leading_fraction s x scale True
      else if x > (2 ^ 63 - 1) div 10 then leading_fraction s x scale True
      else if x * 10 + digit_val c > 2 ^ 63 then leading_fraction s x scale True
      else leading_fraction s (x * 10 + digit_val c) (scale * 10) False)"

definition unit_ns :: "string \<Rightarrow> int option" where
  "unit_ns u =
     map_of [(''ns'', 1), (''us'', 10 ^ 3), ([CHR 0xC2, CHR 0xB5, CHR ''s''], 10 ^ 3),
       ([CHR 0xCE, CHR 0xBC, CHR ''s''], 10 ^ 3), (''ms'', 10 ^ 6), (''s'', 10 ^ 9),
       (''m'', 60 * 10 ^ 9), (''h'', 3600 * 10 ^ 9)] u"

definition duration_part :: "string \<Rightarrow> int \<Rightarrow> (int \<times> string) option" where
  "duration_part str d =
     (let ds = takeWhile is_digit str;
          v = digits_val ds;
          s1 = dropWhile is_digit str;
          dot = (s1 \<noteq> [] \<and> hd s1 = CHR ''.'');
          (f, scale, s2) = (if dot then leading_fraction (tl s1) 0 1 False else (0, 1, s1));
          post = (dot \<and> length s2 < length (tl s1));
          u = takeWhile (\<lambda>c. c \<noteq> CHR ''.'' \<and> \<not> is_digit c) s2
      in if v > 2 ^ 63 \<or> (ds = [] \<and> \<not> post) \<or> u = [] then None
         else
           (case unit_ns u of
              None \<Rightarrow> None
            | Some unit \<Rightarrow>
                (let w = v * unit + (if f > 0 then f * unit div scale else 0) in
                 if v > 2 ^ 63 div unit \<or> w > 2 ^ 63 \<or> d + w > 2 ^ 63 then None
                 else Some (d + w, drop (length u) s2))))"

text \<open>Each part consumes at least one character, so the length of the text is enough fuel.\<close>

fun duration_parts :: "nat \<Rightarrow> string \<Rightarrow> int \<Rightarrow> int option" where
  "duration_parts fuel [] d = Some d"
| "duration_parts 0 (c # s) d = None"
| "duration_parts (Suc fuel) (c # s) d =
     (case duration_part (c # s) d of
        None \<Rightarrow> None
      | Some (d', s') \<Rightarrow> duration_parts fuel s' d')"

definition parse_duration :: "string \<Rightarrow> int option" where
  "parse_duration str =
     (let neg = (str \<noteq> [] \<and> hd str = CHR ''-'');
          s = (if str \<noteq> [] \<and> (hd str = CHR ''-'' \<or> hd str = CHR ''+'') then tl str else str)
      in if s = ''0'' then Some 0
         else if s = [] then None
         else (case duration_parts (length s) s 0 of
                 None \<Rightarrow> None
               | Some d \<Rightarrow> if neg then Some (- d) else if d > 2 ^ 63 - 1 then None else Some d))"

subsection \<open>Searching and splitting\<close>

definition has_prefix :: "string \<Rightarrow> string \<Rightarrow> bool" where
  "has_prefix s p \<longleftrightarrow> take (length p) s = p"

text \<open>The position of the first occurrence; Go's -1 is \<open>None\<close>.\<close>

fun str_index :: "string \<Rightarrow> string \<Rightarrow> nat option" where
  "str_index [] p = (if p = [] then Some 0 else None)"
| "str_index (c # s) p =
     (if has_prefix (c # s) p then Some 0 else map_option Suc (str_index s p))"

lemma has_prefix_append [simp]: "has_prefix (p @ s) p"
  by (simp add: has_prefix_def)

lemma has_prefix_split: "has_prefix s p \<longleftrightarrow> (\<exists>r. s = p @ r)"
  by (auto simp: has_prefix_def) (metis append_take_drop_id)

lemma str_index_Some:
  "str_index s p = Some k \<Longrightarrow> k + length p \<le> length s \<and> take (length p) (drop k s) = p"
proof (induction s arbitrary: k)
  case (Cons c s)
  show ?case
  proof (cases "has_prefix (c # s) p")
    case True
    with Cons.prems have "k = 0" by simp
    with True show ?thesis
      by (simp add: has_prefix_def) (metis length_take min.cobounded1 length_Cons)
  next
    case False
    with Cons show ?thesis by auto
  qed
qed (auto split: if_splits)

lemma str_index_split: "str_index s p = Some k \<Longrightarrow> s = take k s @ p @ drop (k + length p) s"
  using str_index_Some [of s p k] by (metis append_take_drop_id drop_drop add.commute)

lemma str_index_None: "str_index s p = None \<Longrightarrow> s \<noteq> a @ p @ b"
proof (induction s arbitrary: a)
  case Nil
  then show ?case by (auto split: if_splits)
next
  case (Cons c s)
  then show ?case
    by (cases a) (auto split: if_splits simp: has_prefix_split)
qed

text \<open>
  \<^verbatim>\<open>bytes.Split\<close> with the separator \<open>\n\n\<close> and \<^verbatim>\<open>bytes.ReplaceAll\<close> with a
  non-empty old text: both scan from the left and skip what they have matched.
\<close>

fun split_nn :: "string \<Rightarrow> string list" where
  "split_nn [] = [[]]"
| "split_nn [c] = [[c]]"
| "split_nn (c # d # s) =
     (if c = CHR 0x0A \<and> d = CHR 0x0A then [] # split_nn s
      else (case split_nn (d # s) of [] \<Rightarrow> [[c]] | m # ms \<Rightarrow> (c # m) # ms))"

function replace_all :: "string \<Rightarrow> string \<Rightarrow> string \<Rightarrow> string" where
  "replace_all old new s =
     (if s = [] \<or> old = [] then s
      else if has_prefix s old then new @ replace_all old new (drop (length old) s)
      else hd s # replace_all old new (tl s))"
  by pat_completeness auto
termination
  by (relation "measure (\<lambda>(old, new, s). length s)") auto

declare replace_all.simps [simp del]

lemma replace_all_steps:
  "replace_all (x # p) new [] = []"
  "replace_all (x # p) new (c # s) =
     (if has_prefix (c # s) (x # p) then new @ replace_all (x # p) new (drop (length p) s)
      else c # replace_all (x # p) new s)"
  by (simp_all add: replace_all.simps [of "x # p"])

definition is_space :: "char \<Rightarrow> bool" where
  "is_space c \<longleftrightarrow> byte_of c = 32 \<or> (9 \<le> byte_of c \<and> byte_of c \<le> 13)"

definition trim_space :: "string \<Rightarrow> string" where
  "trim_space s = rev (dropWhile is_space (rev (dropWhile is_space s)))"

subsection \<open>JSON\<close>

text \<open>
  \<^verbatim>\<open>encoding/json\<close>.  A JSON text is represented by the value it encodes, the members of an
  object in the order they are written; numbers are the integers, the only numbers the
  modelled messages carry.  Decoding into a struct takes, for each field, the last member whose
  name matches without regard to case; a missing member or \<open>null\<close> leaves the zero value, and
  a value of another type is an error (\<open>None\<close>).
\<close>

datatype json =
    JNull
  | JBool bool
  | JInt int
  | JStr string
  | JArr "json list"
  | JObj "(string \<times> json) list"

definition member :: "(string \<times> json) list \<Rightarrow> string \<Rightarrow> json" where
  "member ms name =
     (case map_of (rev (map (\<lambda>(k, v). (to_lower k, v)) ms)) name of None \<Rightarrow> JNull | Some v \<Rightarrow> v)"

definition decode_string :: "json \<Rightarrow> string option" where
  "decode_string j = (case j of JStr s \<Rightarrow> Some s | JNull \<Rightarrow> Some [] | _ \<Rightarrow> None)"

definition decode_int :: "nat \<Rightarrow> json \<Rightarrow> int option" where
  "decode_int bits j =
     (case j of
        JInt i \<Rightarrow> (if - (2 ^ (bits - 1)) \<le> i \<and> i < 2 ^ (bits - 1) then Some i else None)
      | JNull \<Rightarrow> Some 0
      | _ \<Rightarrow> None)"

fun decode_all :: "('a \<Rightarrow> 'b option) \<Rightarrow> 'a list \<Rightarrow> 'b list option" where
  "decode_all f [] = Some []"
| "decode_all f (x # xs) =
     (case f x of None \<Rightarrow> None
      | Some y \<Rightarrow> (case decode_all f xs of None \<Rightarrow> None | Some ys \<Rightarrow> Some (y # ys)))"

definition decode_array :: "(json \<Rightarrow> 'b option) \<Rightarrow> json \<Rightarrow> 'b list option" where
  "decode_array f j = (case j of JArr xs \<Rightarrow> decode_all f xs | JNull \<Rightarrow> Some [] | _ \<Rightarrow> None)"

lemma decode_all_Some:
  "decode_all f xs = Some ys \<longleftrightarrow> length ys = length xs \<and> (\<forall>i < length xs. f (xs ! i) = Some (ys ! i))"
proof (induction xs arbitrary: ys)
  case (Cons x xs)
  show ?case
  proof (cases ys)
    case (Cons y ys')
    have "(\<forall>i < Suc (length xs). f ((x # xs) ! i) = Some ((y # ys') ! i)) \<longleftrightarrow>
        f x = Some y \<and> (\<forall>i < length xs. f (xs ! i) = Some (ys' ! i))"
      by (auto simp: less_Suc_eq_0_disj)
    then show ?thesis
      using Cons.IH [of ys'] Cons by (auto split: option.splits)
  qed (auto split: option.splits)
qed auto

end
