(* ===== verification/ErrCode.thy ===== *)
theory ErrCode
  imports GoStd
begin

text \<open>
  \<^verbatim>\<open>pkg/errcode/errcode.go\<close> and \<^verbatim>\<open>pkg/aigateway/utils.go\<close>: the error codes of the
  gateway, the wrapped errors the proxy recognises, and the local replies it answers with.\<close>

record err_code =
  Code :: int
  Type :: string
  Msg :: string

definition ErrTypeBadRequestError :: string where
  "ErrTypeBadRequestError = ''BadRequestError''"
definition ErrTypRateLimitError :: string where
  "ErrTypRateLimitError = ''RateLimitError''"
definition ErrTypeAuthenticationError :: string where
  "ErrTypeAuthenticationError = ''AuthenticationError''"
definition ErrTypeNotFoundError :: string where
  "ErrTypeNotFoundError = ''NotFoundError''"
definition ErrTypeInternalServerError :: string where
  "ErrTypeInternalServerError = ''InternalServerError''"
definition ErrTypeInferenceServerError :: string where
  "ErrTypeInferenceServerError = ''InferenceServerError''"
definition ErrTypeUnknown :: string where
  "ErrTypeUnknown = ''UnknownError''"

definition BadRequestError :: err_code where
  "BadRequestError = \<lparr>Code = 400, Type = ErrTypeBadRequestError, Msg = ''Invalid request''\<rparr>"
definition RateLimitError :: err_code where
  "RateLimitError = \<lparr>Code = 429, Type = ErrTypRateLimitError, Msg = ''Rate limit reached for requests''\<rparr>"
definition AuthenticationError :: err_code where
  "AuthenticationError = \<lparr>Code = 401, Type = ErrTypeAuthenticationError, Msg = ''Invalid Authentication''\<rparr>"
definition NotFoundError :: err_code where
  "NotFoundError = \<lparr>Code = 404, Type = ErrTypeNotFoundError, Msg = ''Model not found''\<rparr>"
definition InternalServerError :: err_code where
  "InternalServerError = \<lparr>Code = 500, Type = ErrTypeInternalServerError,
     Msg = ''The server had an error while processing your request''\<rparr>"
definition InferenceServerError :: err_code where
  "InferenceServerError = \<lparr>Code = 503, Type = ErrTypeInferenceServerError, Msg = ''Inference server error''\<rparr>"

definition ConvertStatusToErrorCode :: "int \<Rightarrow> err_code" where
  "ConvertStatusToErrorCode status =
     (if status = 400 then BadRequestError
      else if status = 429 then RateLimitError
      else if status = 401 then AuthenticationError
      else if status = 404 then NotFoundError
      else if status = 500 then InternalServerError
      else if status = 503 then InferenceServerError
      else \<lparr>Code = status, Type = ErrTypeUnknown, Msg = ''unknown error''\<rparr>)"

lemmas err_codes = BadRequestError_def RateLimitError_def AuthenticationError_def NotFoundError_def
  InternalServerError_def InferenceServerError_def

subsection \<open>Errors\<close>

datatype go_error =
    ErrorString string
  | InferenceServerInternal go_error
  | ModelNotExist go_error

fun Error :: "go_error \<Rightarrow> string" where
  "Error (ErrorString s) = s"
| "Error (InferenceServerInternal e) = Error e"
| "Error (ModelNotExist e) = Error e"

text \<open>\<^verbatim>\<open>errors.Is\<close> against the two sentinel values: the error or one it wraps is of that type.\<close>

fun is_internal_error :: "go_error \<Rightarrow> bool" where
  "is_internal_error (ErrorString s) = False"
| "is_internal_error (InferenceServerInternal e) = True"
| "is_internal_error (ModelNotExist e) = is_internal_error e"

fun is_model_not_exist :: "go_error \<Rightarrow> bool" where
  "is_model_not_exist (ErrorString s) = False"
| "is_model_not_exist (InferenceServerInternal e) = is_model_not_exist e"
| "is_model_not_exist (ModelNotExist e) = True"

definition WrapInferenceServerInternalError :: "go_error option \<Rightarrow> go_error run" where
  "WrapInferenceServerInternalError err =
     (case err of None \<Rightarrow> Panic | Some e \<Rightarrow> Ret (InferenceServerInternal e))"

definition WrapModelNotExistError :: "go_error option \<Rightarrow> go_error run" where
  "WrapModelNotExistError err = (case err of None \<Rightarrow> Panic | Some e \<Rightarrow> Ret (ModelNotExist e))"

subsection \<open>Local replies\<close>

type_synonym header_map = "string \<Rightarrow> string option"

record llm_error_response =
  le_object :: string
  le_message :: string
  le_type :: string
  le_param :: "string option"
  le_code :: int

definition marshal_error_response :: "llm_error_response \<Rightarrow> (string \<times> json) list" where
  "marshal_error_response r =
     [(''object'', JStr (le_object r)), (''message'', JStr (le_message r)), (''type'', JStr (le_type r))] @
     (case le_param r of None \<Rightarrow> [] | Some p \<Rightarrow> [(''param'', JStr p)]) @
     [(''code'', JInt (le_code r))]"

definition FormatGatewayResponseMsg :: "err_code \<Rightarrow> string \<Rightarrow> string \<Rightarrow> json" where
  "FormatGatewayResponseMsg errCode traceId msg =
     JObj (marshal_error_response
             \<lparr>le_object = ''error'', le_message = msg, le_type = Type errCode, le_param = None,
              le_code = Code errCode\<rparr> @
           [(''traceId'', JStr traceId)])"

record local_response =
  lr_code :: int
  lr_header :: header_map
  lr_msg :: json

definition NewGatewayErrorResponseWithMsg ::
    "string \<Rightarrow> header_map \<Rightarrow> int \<Rightarrow> err_code \<Rightarrow> string \<Rightarrow> local_response" where
  "NewGatewayErrorResponseWithMsg traceID hdr httpStatus errCode msg =
     \<lparr>lr_code = httpStatus, lr_header = hdr(''Content-Type'' \<mapsto> ''application/json''),
      lr_msg = FormatGatewayResponseMsg errCode traceID msg\<rparr>"

definition NewGatewayErrorResponse :: "string \<Rightarrow> header_map \<Rightarrow> int \<Rightarrow> err_code \<Rightarrow> local_response" where
  "NewGatewayErrorResponse traceID hdr httpStatus errCode =
     NewGatewayErrorResponseWithMsg traceID hdr httpStatus errCode (Msg errCode)"

text \<open>
  The error code of a local reply repeats the HTTP status it stands for, and so does the
  body built from it: whatever the status, \<open>ConvertStatusToErrorCode\<close> keeps it, and it
  classifies the status as unknown exactly outside the six documented codes.
\<close>

theorem status_code_kept:
  "Code (ConvertStatusToErrorCode status) = status \<and>
   (Type (ConvertStatusToErrorCode status) = ErrTypeUnknown \<longleftrightarrow>
      status \<notin> {400, 401, 404, 429, 500, 503}) \<and>
   lr_msg (NewGatewayErrorResponse traceID hdr status (ConvertStatusToErrorCode status)) =
     JObj [(''object'', JStr ''error''),
           (''message'', JStr (Msg (ConvertStatusToErrorCode status))),
           (''type'', JStr (Type (ConvertStatusToErrorCode status))),
           (''code'', JInt status), (''traceId'', JStr traceID)]"
proof -
  have code: "Code (ConvertStatusToErrorCode status) = status"
    by (simp add: ConvertStatusToErrorCode_def err_codes)
  moreover have "Type (ConvertStatusToErrorCode status) = ErrTypeUnknown \<longleftrightarrow>
      status \<notin> {400, 401, 404, 429, 500, 503}"
    by (simp add: ConvertStatusToErrorCode_def err_codes ErrTypeBadRequestError_def
        ErrTypRateLimitError_def ErrTypeAuthenticationError_def ErrTypeNotFoundError_def
        ErrTypeInternalServerError_def ErrTypeInferenceServerError_def ErrTypeUnknown_def)
  ultimately show ?thesis
    by (simp add: NewGatewayErrorResponse_def NewGatewayErrorResponseWithMsg_def
        FormatGatewayResponseMsg_def marshal_error_response_def)
qed

end
