(* ===== verification/CircuitBreaker.thy ===== *)
theory CircuitBreaker
  imports Prelude
begin

text \<open>
  \<^verbatim>\<open>pkg/circuitbreaker/circuit_breaker.go\<close>: the counting circuit breaker of one metadata
  center endpoint.  Every method holds the breaker's mutex from its first to its last line,
  so each is one atomic step on the record \<open>breaker\<close>; the clock (\<open>time.Now\<close>) is an
  argument.  The counters are unbounded integers: they are reset at every change to
  \<open>open\<close> or \<open>closed\<close> and only ever grow by one per call.
\<close>

record breaker_config =
  maxFailures :: int
  cooldownPeriod :: duration
  halfOpenRequests :: int

record breaker =
  cb_config :: breaker_config
  failureCount :: int
  successCount :: int
  lastFailureTime :: go_time
  cb_state :: string

definition NewCircuitBreaker :: "breaker_config \<Rightarrow> breaker" where
  "NewCircuitBreaker cfg =
     \<lparr>cb_config = cfg, failureCount = 0, successCount = 0, lastFailureTime = 0,
      cb_state = ''closed''\<rparr>"

definition resetCounters :: "breaker \<Rightarrow> breaker" where
  "resetCounters cb = cb\<lparr>failureCount := 0, successCount := 0\<rparr>"

definition Allow :: "go_time \<Rightarrow> breaker \<Rightarrow> bool \<times> breaker" where
  "Allow now cb =
     (if cb_state cb = ''open'' then
        (if time_sub now (lastFailureTime cb) > cooldownPeriod (cb_config cb)
         then (True, cb\<lparr>cb_state := ''half-open''\<rparr>)
         else (False, cb))
      else if cb_state cb = ''half-open'' then
        (successCount cb < halfOpenRequests (cb_config cb), cb)
      else (True, cb))"

definition RecordSuccess :: "breaker \<Rightarrow> breaker" where
  "RecordSuccess cb =
     (if cb_state cb = ''closed'' then cb\<lparr>failureCount := 0\<rparr>
      else if cb_state cb = ''half-open'' then
        (let cb1 = cb\<lparr>successCount := successCount cb + 1\<rparr> in
         if successCount cb1 \<ge> halfOpenRequests (cb_config cb1)
         then resetCounters (cb1\<lparr>cb_state := ''closed''\<rparr>)
         else cb1)
      else cb)"

definition RecordFailure :: "go_time \<Rightarrow> breaker \<Rightarrow> breaker" where
  "RecordFailure now cb =
     (let cb1 = cb\<lparr>failureCount := failureCount cb + 1, lastFailureTime := now\<rparr> in
      if cb_state cb1 = ''closed'' \<and> failureCount cb1 \<ge> maxFailures (cb_config cb1)
      then resetCounters (cb1\<lparr>cb_state := ''open''\<rparr>)
      else if cb_state cb1 = ''half-open''
      then resetCounters (cb1\<lparr>cb_state := ''open''\<rparr>)
      else cb1)"

definition State :: "breaker \<Rightarrow> string" where
  "State cb = cb_state cb"


subsection \<open>Runs of the breaker\<close>

text \<open>A history of one breaker: the calls made on it, with the clock of those that read it.\<close>

datatype cb_event = EvAllow go_time | EvSuccess | EvFailure go_time

fun cb_step :: "breaker \<Rightarrow> cb_event \<Rightarrow> breaker" where
  "cb_step cb (EvAllow now) = snd (Allow now cb)"
| "cb_step cb EvSuccess = RecordSuccess cb"
| "cb_step cb (EvFailure now) = RecordFailure now cb"

definition cb_run :: "breaker \<Rightarrow> cb_event list \<Rightarrow> breaker" where
  "cb_run = foldl cb_step"

lemma cb_run_simps [simp]:
  "cb_run cb [] = cb"
  "cb_run cb (e # es) = cb_run (cb_step cb e) es"
  "cb_run cb (es @ fs) = cb_run (cb_run cb es) fs"
  by (simp_all add: cb_run_def)

subsection \<open>Well-formed breakers\<close>

definition cb_wf :: "breaker \<Rightarrow> bool" where
  "cb_wf cb \<longleftrightarrow>
     cb_state cb \<in> {''closed'', ''open'', ''half-open''} \<and>
     0 \<le> failureCount cb \<and> 0 \<le> successCount cb \<and>
     (cb_state cb \<noteq> ''half-open'' \<longrightarrow> successCount cb = 0) \<and>
     (cb_state cb = ''closed'' \<longrightarrow>
        failureCount cb < max 1 (maxFailures (cb_config cb))) \<and>
     (cb_state cb = ''half-open'' \<longrightarrow>
        successCount cb < max 1 (halfOpenRequests (cb_config cb)))"

lemmas cb_ops = Allow_def RecordSuccess_def RecordFailure_def resetCounters_def Let_def

lemma cb_step_config [simp]: "cb_config (cb_step cb e) = cb_config cb"
  by (cases e) (simp_all add: cb_ops)

lemma cb_run_config [simp]: "cb_config (cb_run cb es) = cb_config cb"
  by (induction es arbitrary: cb) simp_all

lemma cb_wf_new [simp]: "cb_wf (NewCircuitBreaker cfg)"
  by (simp add: cb_wf_def NewCircuitBreaker_def)

lemma cb_wf_step: "cb_wf cb \<Longrightarrow> cb_wf (cb_step cb e)"
  by (cases e) (auto simp: cb_wf_def cb_ops)

lemma cb_wf_run: "cb_wf cb \<Longrightarrow> cb_wf (cb_run cb es)"
  by (induction es arbitrary: cb) (simp_all add: cb_wf_step)

lemma cb_wf_cases:
  assumes "cb_wf cb"
  obtains (closed) "cb_state cb = ''closed''" | (opened) "cb_state cb = ''open''"
    | (half) "cb_state cb = ''half-open''"
  using assms by (auto simp: cb_wf_def)

subsection \<open>The abstract breaker\<close>

text \<open>
  What a caller may rely on, without the counters that a state does not use: closed with the
  length of the current run of failures, open since the last failure, half open with the
  number of successes seen.
\<close>

datatype phase = PClosed int | POpen go_time | PHalfOpen int

fun spec_step :: "breaker_config \<Rightarrow> phase \<Rightarrow> cb_event \<Rightarrow> phase" where
  "spec_step cfg (PClosed n) (EvAllow now) = PClosed n"
| "spec_step cfg (PClosed n) EvSuccess = PClosed 0"
| "spec_step cfg (PClosed n) (EvFailure now) =
     (if n + 1 \<ge> maxFailures cfg then POpen now else PClosed (n + 1))"
| "spec_step cfg (POpen t) (EvAllow now) =
     (if time_sub now t > cooldownPeriod cfg then PHalfOpen 0 else POpen t)"
| "spec_step cfg (POpen t) EvSuccess = POpen t"
| "spec_step cfg (POpen t) (EvFailure now) = POpen now"
| "spec_step cfg (PHalfOpen k) (EvAllow now) = PHalfOpen k"
| "spec_step cfg (PHalfOpen k) EvSuccess =
     (if k + 1 \<ge> halfOpenRequests cfg then PClosed 0 else PHalfOpen (k + 1))"
| "spec_step cfg (PHalfOpen k) (EvFailure now) = POpen now"

fun spec_allows :: "breaker_config \<Rightarrow> go_time \<Rightarrow> phase \<Rightarrow> bool" where
  "spec_allows cfg now (PClosed n) = True"
| "spec_allows cfg now (POpen t) = (time_sub now t > cooldownPeriod cfg)"
| "spec_allows cfg now (PHalfOpen k) = (k < halfOpenRequests cfg)"

definition cb_abs :: "breaker \<Rightarrow> phase" where
  "cb_abs cb =
     (if cb_state cb = ''open'' then POpen (lastFailureTime cb)
      else if cb_state cb = ''half-open'' then PHalfOpen (successCount cb)
      else PClosed (failureCount cb))"

lemma cb_abs_step:
  "cb_wf cb \<Longrightarrow> cb_abs (cb_step cb e) = spec_step (cb_config cb) (cb_abs cb) e"
  by (cases e) (auto simp: cb_abs_def cb_ops cb_wf_def)

lemma cb_abs_allow:
  "cb_wf cb \<Longrightarrow> fst (Allow now cb) = spec_allows (cb_config cb) now (cb_abs cb)"
  by (erule cb_wf_cases) (simp_all add: cb_abs_def Allow_def)

lemma cb_abs_run:
  "cb_wf cb \<Longrightarrow> cb_abs (cb_run cb es) = foldl (spec_step (cb_config cb)) (cb_abs cb) es"
  by (induction es arbitrary: cb) (simp_all add: cb_abs_step cb_wf_step)


text \<open>
  C18. The circuit breaker implements the abstract breaker: started closed and driven by any
  history of \<open>Allow\<close>, \<open>RecordSuccess\<close> and \<open>RecordFailure\<close> calls, its state is the
  abstract machine's after the same history, and the answer of the next \<open>Allow\<close> is the
  abstract machine's answer.
\<close>

theorem breaker_refines_spec:
  "cb_abs (cb_run (NewCircuitBreaker cfg) es) = foldl (spec_step cfg) (PClosed 0) es \<and>
   fst (Allow now (cb_run (NewCircuitBreaker cfg) es)) =
     spec_allows cfg now (foldl (spec_step cfg) (PClosed 0) es)"
proof -
  have cfg: "cb_config (NewCircuitBreaker cfg) = cfg"
    and start: "cb_abs (NewCircuitBreaker cfg) = PClosed 0"
    by (simp_all add: NewCircuitBreaker_def cb_abs_def)
  show ?thesis
    by (simp add: cb_abs_run cb_abs_allow cb_wf_run cfg start)
qed

subsection \<open>When the breaker trips\<close>

text \<open>
  The length of the run of failures a history ends with (successes end a run, \<open>Allow\<close>
  calls do not), and whether some run has reached \<open>m\<close>.
\<close>

fun streak :: "int \<Rightarrow> cb_event list \<Rightarrow> int" where
  "streak n [] = n"
| "streak n (EvAllow now # es) = streak n es"
| "streak n (EvSuccess # es) = streak 0 es"
| "streak n (EvFailure now # es) = streak (n + 1) es"

fun trips :: "int \<Rightarrow> int \<Rightarrow> cb_event list \<Rightarrow> bool" where
  "trips m n [] = False"
| "trips m n (EvAllow now # es) = trips m n es"
| "trips m n (EvSuccess # es) = trips m 0 es"
| "trips m n (EvFailure now # es) = (n + 1 \<ge> m \<or> trips m (n + 1) es)"

lemma trips_append: "trips m n (es @ fs) \<longleftrightarrow> trips m n es \<or> trips m (streak n es) fs"
  by (induction m n es rule: trips.induct) auto

lemma spec_run_closed:
  "\<not> trips (maxFailures cfg) n es \<Longrightarrow>
   foldl (spec_step cfg) (PClosed n) es = PClosed (streak n es)"
  by (induction "maxFailures cfg" n es rule: trips.induct) auto

lemma spec_run_trip:
  assumes "\<not> trips (maxFailures cfg) n es" "trips (maxFailures cfg) n (es @ [EvFailure now])"
  shows "foldl (spec_step cfg) (PClosed n) (es @ [EvFailure now]) = POpen now"
  using assms by (auto simp: spec_run_closed trips_append)

lemma cb_abs_phase:
  "cb_abs cb = PClosed n \<Longrightarrow> cb_wf cb \<Longrightarrow> cb_state cb = ''closed'' \<and> failureCount cb = n"
  "cb_abs cb = POpen t \<Longrightarrow> cb_state cb = ''open'' \<and> lastFailureTime cb = t"
  "cb_abs cb = PHalfOpen k \<Longrightarrow> cb_state cb = ''half-open'' \<and> successCount cb = k"
  by (auto simp: cb_abs_def cb_wf_def split: if_splits)

lemma cb_run_new_abs:
  "cb_abs (cb_run (NewCircuitBreaker cfg) es) = foldl (spec_step cfg) (PClosed 0) es"
proof -
  have "cb_config (NewCircuitBreaker cfg) = cfg" "cb_abs (NewCircuitBreaker cfg) = PClosed 0"
    by (simp_all add: NewCircuitBreaker_def cb_abs_def)
  then show ?thesis by (simp add: cb_abs_run)
qed

text \<open>
  A new breaker opens at the first failure that completes a run of \<open>MaxFailures\<close>
  failures not interrupted by a success, and not before: until some run of failures reaches
  the threshold it is closed and counts the current run, and the failure that completes the
  first such run opens it and starts the cooldown at that failure.
\<close>

theorem breaker_trips_exactly:
  assumes "\<not> trips (maxFailures cfg) 0 es"
  shows "cb_state (cb_run (NewCircuitBreaker cfg) es) = ''closed'' \<and>
    failureCount (cb_run (NewCircuitBreaker cfg) es) = streak 0 es \<and>
    (trips (maxFailures cfg) 0 (es @ [EvFailure now]) \<longleftrightarrow>
      State (cb_run (NewCircuitBreaker cfg) (es @ [EvFailure now])) = ''open'')"
proof -
  let ?cb = "cb_run (NewCircuitBreaker cfg) es"
  let ?cb' = "cb_run (NewCircuitBreaker cfg) (es @ [EvFailure now])"
  have abs: "cb_abs ?cb = PClosed (streak 0 es)"
    using assms by (simp add: cb_run_new_abs spec_run_closed)
  have wf: "cb_wf ?cb" "cb_wf ?cb'"
    by (simp_all add: cb_wf_run cb_wf_step del: cb_run_simps(3))
  have "cb_state ?cb = ''closed''" "failureCount ?cb = streak 0 es"
    using cb_abs_phase(1) [OF abs wf(1)] by simp_all
  moreover have "trips (maxFailures cfg) 0 (es @ [EvFailure now]) \<longleftrightarrow> State ?cb' = ''open''"
  proof (cases "trips (maxFailures cfg) 0 (es @ [EvFailure now])")
    case True
    then have "cb_abs ?cb' = POpen now"
      unfolding cb_run_new_abs by (rule spec_run_trip [OF assms])
    with True show ?thesis using cb_abs_phase(2) by (auto simp: State_def)
  next
    case False
    then have "cb_abs ?cb' = PClosed (streak 0 (es @ [EvFailure now]))"
      unfolding cb_run_new_abs by (rule spec_run_closed)
    then have "cb_state ?cb' = ''closed''" using cb_abs_phase(1) wf(2) by blast
    with False show ?thesis by (simp add: State_def)
  qed
  ultimately show ?thesis by blast
qed

theorem breaker_trips_exactly_witness:
  "State (cb_run (NewCircuitBreaker \<lparr>maxFailures = 2, cooldownPeriod = 5, halfOpenRequests = 1\<rparr>)
     ([EvFailure 1, EvSuccess, EvFailure 2] @ [EvFailure 3])) = ''open''"
proof -
  let ?cfg = "\<lparr>maxFailures = 2, cooldownPeriod = 5, halfOpenRequests = 1\<rparr>"
  have "\<not> trips (maxFailures ?cfg) 0 [EvFailure 1, EvSuccess, EvFailure 2]" by simp
  from breaker_trips_exactly [OF this, of 3]
  show ?thesis by simp
qed

subsection \<open>Cooldown and recovery\<close>

fun event_time_ok :: "go_time \<Rightarrow> duration \<Rightarrow> cb_event \<Rightarrow> bool" where
  "event_time_ok t cool (EvAllow now) = (time_sub now t \<le> cool)"
| "event_time_ok t cool (EvFailure now) = (t \<le> now)"
| "event_time_ok t cool EvSuccess = True"

lemma open_step:
  assumes "cb_state cb = ''open''" "t \<le> lastFailureTime cb"
    and "event_time_ok t (cooldownPeriod (cb_config cb)) e"
  shows "cb_state (cb_step cb e) = ''open'' \<and> t \<le> lastFailureTime (cb_step cb e)"
  using assms by (cases e) (auto simp: cb_ops time_sub_def)

lemma open_run:
  assumes "cb_state cb = ''open''" "t \<le> lastFailureTime cb"
    and "list_all (event_time_ok t (cooldownPeriod (cb_config cb))) es"
  shows "cb_state (cb_run cb es) = ''open'' \<and> t \<le> lastFailureTime (cb_run cb es)"
  using assms
proof (induction es arbitrary: cb)
  case (Cons e es)
  with open_step [of cb t e] show ?case by simp
qed simp

text \<open>
  An open breaker lets no request through during its cooldown: whatever calls are made on
  it, as long as none of the \<open>Allow\<close> calls comes more than the cooldown period after the
  failure that opened it, it stays open and every such \<open>Allow\<close> answers no.  (A failure
  reported meanwhile restarts the cooldown; a success reported meanwhile is ignored.)
\<close>

theorem breaker_cooldown_denies:
  assumes "cb_state cb = ''open''"
    and "list_all (event_time_ok (lastFailureTime cb) (cooldownPeriod (cb_config cb))) es"
    and "time_sub now (lastFailureTime cb) \<le> cooldownPeriod (cb_config cb)"
  shows "State (cb_run cb es) = ''open'' \<and> Allow now (cb_run cb es) = (False, cb_run cb es)"
proof -
  let ?cb = "cb_run cb es"
  have run: "cb_state ?cb = ''open''" "lastFailureTime cb \<le> lastFailureTime ?cb"
    using open_run [OF assms(1) order_refl assms(2)] by simp_all
  then have "time_sub now (lastFailureTime ?cb) \<le> cooldownPeriod (cb_config ?cb)"
    using assms(3) by (auto simp: time_sub_def)
  with run show ?thesis by (simp add: Allow_def State_def)
qed

definition sample_config :: breaker_config where
  "sample_config = \<lparr>maxFailures = 2, cooldownPeriod = 5, halfOpenRequests = 2\<rparr>"

definition sample_open :: breaker where
  "sample_open = cb_run (NewCircuitBreaker sample_config) [EvFailure 10, EvFailure 20]"

lemma sample_open_eq:
  "sample_open = \<lparr>cb_config = sample_config, failureCount = 0, successCount = 0,
     lastFailureTime = 20, cb_state = ''open''\<rparr>"
  by (simp add: sample_open_def sample_config_def NewCircuitBreaker_def cb_ops)

theorem breaker_cooldown_denies_witness:
  "Allow 25 (cb_run sample_open [EvSuccess, EvFailure 23]) =
     (False, cb_run sample_open [EvSuccess, EvFailure 23])"
  by (rule breaker_cooldown_denies [THEN conjunct2])
    (simp_all add: sample_open_eq sample_config_def time_sub_def)

lemma half_open_successes:
  assumes "cb_state cb = ''half-open''"
    and "successCount cb + int n < halfOpenRequests (cb_config cb)"
  shows "cb_run cb (replicate n EvSuccess) = cb\<lparr>successCount := successCount cb + int n\<rparr>"
  using assms by (induction n arbitrary: cb) (simp_all add: RecordSuccess_def Let_def)

text \<open>
  Recovery: once the cooldown has passed, the next \<open>Allow\<close> lets a request through and
  half-opens the breaker; it stays half open for fewer than \<open>HalfOpenRequests\<close>
  successes, and that many successes close it with both counters at zero.
\<close>

theorem breaker_recovers:
  assumes "cb_wf cb" "cb_state cb = ''open''"
    and "time_sub now (lastFailureTime cb) > cooldownPeriod (cb_config cb)"
    and "halfOpenRequests (cb_config cb) = int (Suc n)"
  shows "fst (Allow now cb) \<and>
    (\<forall>k \<le> n. State (cb_run cb (EvAllow now # replicate k EvSuccess)) = ''half-open'') \<and>
    cb_run cb (EvAllow now # replicate (Suc n) EvSuccess) =
      cb\<lparr>failureCount := 0, successCount := 0, cb_state := ''closed''\<rparr>"
proof -
  let ?h = "cb\<lparr>cb_state := ''half-open''\<rparr>"
  have allow: "Allow now cb = (True, ?h)" using assms(2,3) by (simp add: Allow_def)
  have zero: "successCount cb = 0" using assms(1,2) by (simp add: cb_wf_def)
  have half: "cb_run ?h (replicate k EvSuccess) = ?h\<lparr>successCount := int k\<rparr>" if "k \<le> n" for k
    using half_open_successes [of ?h k] that assms(4) zero by simp
  have snoc: "replicate (Suc n) EvSuccess = replicate n EvSuccess @ [EvSuccess]"
    by (simp add: replicate_append_same)
  have "cb_run cb (EvAllow now # replicate (Suc n) EvSuccess) =
      RecordSuccess (?h\<lparr>successCount := int n\<rparr>)"
    using half [of n] by (simp add: allow snoc del: replicate.simps)
  also have "\<dots> = cb\<lparr>failureCount := 0, successCount := 0, cb_state := ''closed''\<rparr>"
    using assms(4) by (simp add: RecordSuccess_def resetCounters_def Let_def)
  finally show ?thesis using half by (simp add: allow State_def del: replicate.simps)
qed

theorem breaker_recovers_witness:
  "State (cb_run sample_open [EvAllow 26, EvSuccess]) = ''half-open'' \<and>
   State (cb_run sample_open [EvAllow 26, EvSuccess, EvSuccess]) = ''closed''"
proof -
  have pre: "cb_wf sample_open" "cb_state sample_open = ''open''"
    "time_sub 26 (lastFailureTime sample_open) > cooldownPeriod (cb_config sample_open)"
    "halfOpenRequests (cb_config sample_open) = int (Suc 1)"
    by (simp_all add: sample_open_eq sample_config_def cb_wf_def time_sub_def)
  note run = breaker_recovers [OF pre]
  have all: "\<forall>k \<le> 1. State (cb_run sample_open (EvAllow 26 # replicate k EvSuccess)) = ''half-open''"
    and closed: "cb_run sample_open (EvAllow 26 # replicate (Suc 1) EvSuccess) =
      sample_open\<lparr>failureCount := 0, successCount := 0, cb_state := ''closed''\<rparr>"
    using run by blast+
  have "State (cb_run sample_open (EvAllow 26 # replicate 1 EvSuccess)) = ''half-open''"
    using all by blast
  moreover have "State (cb_run sample_open (EvAllow 26 # replicate (Suc 1) EvSuccess)) = ''closed''"
    by (simp only: closed) (simp add: State_def)
  ultimately show ?thesis by (simp del: cb_run_simps)
qed

text \<open>
  With a non-positive \<open>HalfOpenRequests\<close> the breaker can be stuck half open: after the
  cooldown one \<open>Allow\<close> answers yes, and from then on every \<open>Allow\<close> answers no until a
  result of a request is reported, however much time passes.
\<close>

theorem breaker_half_open_stuck:
  assumes "cb_wf cb" "cb_state cb = ''open''"
    and "time_sub now (lastFailureTime cb) > cooldownPeriod (cb_config cb)"
    and "halfOpenRequests (cb_config cb) \<le> 0"
  shows "fst (Allow now cb) \<and>
    \<not> fst (Allow later (cb_run cb (EvAllow now # map EvAllow ts)))"
proof -
  let ?h = "cb\<lparr>cb_state := ''half-open''\<rparr>"
  have allow: "Allow now cb = (True, ?h)" using assms(2,3) by (simp add: Allow_def)
  have "successCount cb = 0" using assms(1,2) by (simp add: cb_wf_def)
  moreover have "cb_run ?h (map EvAllow ts) = ?h"
    by (induction ts) (simp_all add: Allow_def)
  ultimately show ?thesis using assms(4) by (simp add: allow) (simp add: Allow_def)
qed

definition sample_stuck :: breaker where
  "sample_stuck = cb_run
     (NewCircuitBreaker \<lparr>maxFailures = 1, cooldownPeriod = 5, halfOpenRequests = 0\<rparr>) [EvFailure 10]"

lemma sample_stuck_eq:
  "sample_stuck = \<lparr>cb_config = \<lparr>maxFailures = 1, cooldownPeriod = 5, halfOpenRequests = 0\<rparr>,
     failureCount = 0, successCount = 0, lastFailureTime = 10, cb_state = ''open''\<rparr>"
  by (simp add: sample_stuck_def NewCircuitBreaker_def cb_ops)

theorem breaker_half_open_stuck_witness:
  "\<not> fst (Allow 1000000 (cb_run sample_stuck (EvAllow 16 # map EvAllow [17, 18])))"
proof -
  have "cb_wf sample_stuck" by (simp add: sample_stuck_eq cb_wf_def)
  from breaker_half_open_stuck [OF this, of 16 1000000 "[17, 18]"]
  show ?thesis by (simp add: sample_stuck_eq time_sub_def)
qed

subsection \<open>The interface\<close>

text \<open>
  The interface \<^verbatim>\<open>CircuitBreaker\<close> the service discovery is written against: a
  breaker in one of three states, whose \<open>Allow\<close> denies only when not closed, changes
  nothing when it denies, and at most half-opens an open breaker when it allows.
\<close>

locale circuit_breaker =
  fixes allow :: "go_time \<Rightarrow> 'b \<Rightarrow> bool \<times> 'b"
    and success :: "'b \<Rightarrow> 'b"
    and failure :: "go_time \<Rightarrow> 'b \<Rightarrow> 'b"
    and state_of :: "'b \<Rightarrow> string"
  assumes allow_closed: "state_of b = ''closed'' \<Longrightarrow> allow now b = (True, b)"
    and allow_denied: "allow now b = (False, b') \<Longrightarrow> b' = b"
    and allow_state: "allow now b = (ok, b') \<Longrightarrow>
      state_of b' = state_of b \<or> ok \<and> state_of b = ''open'' \<and> state_of b' = ''half-open''"
    and success_not_open: "state_of b \<noteq> ''open'' \<Longrightarrow> state_of (success b) \<noteq> ''open''"
    and failure_reopens: "state_of b = ''half-open'' \<Longrightarrow> state_of (failure now b) = ''open''"

interpretation counting: circuit_breaker Allow RecordSuccess RecordFailure State
  by unfold_locales (auto simp: cb_ops State_def split: if_splits)

end
