(* ===== verification/MetadataTypes.thy ===== *)
theory MetadataTypes
  imports Prelude
begin

text \<open>
  The interfaces of \<^verbatim>\<open>pkg/metadata_center/types\<close>: the data exchanged with the metadata
  center (\<open>EndpointStats\<close>, \<open>KVCacheLocation\<close>) and the interface \<open>Service\<close> of the
  discovery its client is written against, as a locale over the operations the client calls.
\<close>

record endpoint_stats =
  PrefillReqs :: int
  TotalReqs :: int
  PromptLength :: int

record kvcache_location =
  loc_ip :: string
  loc_length :: int

text \<open>
  The contract of \<open>Service\<close>: \<open>GetHosts key n\<close> answers at most \<open>n\<close> different hosts
  the service knows, and neither it nor the reports change which hosts are known.
\<close>

locale host_service =
  fixes get_hosts :: "string \<Rightarrow> int \<Rightarrow> 's \<Rightarrow> string list \<times> 's"
    and report_success :: "string \<Rightarrow> 's \<Rightarrow> 's"
    and report_failure :: "go_time \<Rightarrow> string \<Rightarrow> 's \<Rightarrow> 's"
    and known :: "'s \<Rightarrow> string set"
    and valid :: "'s \<Rightarrow> bool"
  assumes get_hosts_distinct: "valid s \<Longrightarrow> distinct (fst (get_hosts key n s))"
    and get_hosts_known: "valid s \<Longrightarrow> set (fst (get_hosts key n s)) \<subseteq> known s"
    and get_hosts_length: "valid s \<Longrightarrow> int (length (fst (get_hosts key n s))) \<le> max 0 n"
    and valid_ops: "valid s \<Longrightarrow> valid (snd (get_hosts key n s))"
      "valid s \<Longrightarrow> valid (report_success h s)"
      "valid s \<Longrightarrow> valid (report_failure now h s)"
    and known_ops: "valid s \<Longrightarrow> known (snd (get_hosts key n s)) = known s"
      "valid s \<Longrightarrow> known (report_success h s) = known s"
      "valid s \<Longrightarrow> known (report_failure now h s) = known s"

end
