(* ===== verification/ServiceDiscovery.thy ===== *)
theory ServiceDiscovery
  imports CircuitBreaker MetadataTypes
begin

text \<open>
  \<^verbatim>\<open>pkg/metadata_center/servicediscovery/service_discovery.go\<close> and the breaker gauge of
  \<^verbatim>\<open>pkg/prom/metrics.go\<close>: which metadata center hosts exist, which of them may be asked,
  and in which order a request tries them.

  The node map is a partial map; where the code ranges over it, the order of the iteration is
  an argument (\<open>order\<close>), because Go leaves it open.  The breaker's operations are arguments
  too, as the code holds the interface \<^verbatim>\<open>circuitbreaker.CircuitBreaker\<close>.  The clock is
  read once by \<open>GetAvailableHosts\<close> (\<open>now\<close>) and once by each breaker (\<open>clk h\<close>).
\<close>

record sd_config =
  Host :: string
  Port :: int
  LookupInterval :: duration
  ColdStartDelay :: duration
  EndpointFailureThreshold :: int
  EndpointCooldownPeriod :: duration
  EndpointHalfOpenRequests :: int

record 'b node_status =
  discoveredAt :: go_time
  nodeBreaker :: 'b

text \<open>
  \<open>gauge\<close> is the metric \<^verbatim>\<open>aigw_servicediscovery_circuitbreaker_state\<close>, one value per
  label; \<open>dnsLoop\<close> says that the lookup goroutine was started and \<open>stopped\<close> that
  \<open>stopCh\<close> is closed.
\<close>

record 'b discovery =
  config :: sd_config
  nodeMap :: "string \<Rightarrow> 'b node_status option"
  gauge :: "string \<Rightarrow> int option"
  dnsLoop :: bool
  stopped :: bool

definition UpdateBreakerState :: "string \<Rightarrow> string \<Rightarrow> (string \<Rightarrow> int option) \<Rightarrow> string \<Rightarrow> int option" where
  "UpdateBreakerState host currentState g =
     (let numericState =
        (if currentState = ''closed'' then 0
         else if currentState = ''half-open'' then 1
         else if currentState = ''open'' then 2
         else -1)
      in g(host \<mapsto> numericState))"

definition breaker_config_of :: "sd_config \<Rightarrow> breaker_config" where
  "breaker_config_of c =
     \<lparr>maxFailures = EndpointFailureThreshold c, cooldownPeriod = EndpointCooldownPeriod c,
      halfOpenRequests = EndpointHalfOpenRequests c\<rparr>"

subsection \<open>Creation\<close>

definition initStaticHost :: "(breaker_config \<Rightarrow> 'b) \<Rightarrow> ('b \<Rightarrow> string) \<Rightarrow> go_time \<Rightarrow> 'b discovery \<Rightarrow> 'b discovery" where
  "initStaticHost new st now sd =
     (let host = Host (config sd);
          sd1 = sd\<lparr>config := (config sd)\<lparr>ColdStartDelay := 0\<rparr>\<rparr>;
          node = \<lparr>discoveredAt = now, nodeBreaker = new (breaker_config_of (config sd1))\<rparr>
      in sd1\<lparr>nodeMap := (nodeMap sd1)(host \<mapsto> node),
             gauge := UpdateBreakerState host (st (nodeBreaker node)) (gauge sd1)\<rparr>)"

text \<open>\<open>time.NewTicker\<close> panics for a non-positive interval.\<close>

definition StartDNSLoop :: "'b discovery \<Rightarrow> 'b discovery run" where
  "StartDNSLoop sd =
     (if LookupInterval (config sd) \<le> 0 then Panic else Ret (sd\<lparr>dnsLoop := True\<rparr>))"

definition NewSimpleService ::
    "(string \<Rightarrow> bool) \<Rightarrow> (breaker_config \<Rightarrow> 'b) \<Rightarrow> ('b \<Rightarrow> string) \<Rightarrow> go_time \<Rightarrow> (string \<Rightarrow> int option)
     \<Rightarrow> sd_config \<Rightarrow> 'b discovery run" where
  "NewSimpleService is_ip new st now g cfg =
     (let svc = \<lparr>config = cfg, nodeMap = Map.empty, gauge = g, dnsLoop = False, stopped = False\<rparr>
      in if Host cfg = [] then Ret svc
         else if is_ip (Host cfg) then Ret (initStaticHost new st now svc)
         else StartDNSLoop svc)"

text \<open>Closing a closed channel panics.\<close>

definition Shutdown :: "'b discovery \<Rightarrow> 'b discovery run" where
  "Shutdown sd = (if stopped sd then Panic else Ret (sd\<lparr>stopped := True\<rparr>))"

subsection \<open>Lookup\<close>

text \<open>One resolved host: remember it if it is new, then publish its breaker's state.\<close>

definition lookup_host ::
    "(breaker_config \<Rightarrow> 'b) \<Rightarrow> ('b \<Rightarrow> string) \<Rightarrow> go_time \<Rightarrow> 'b discovery \<Rightarrow> string \<Rightarrow> 'b discovery" where
  "lookup_host new st now sd h =
     (let sd1 = (case nodeMap sd h of
            None \<Rightarrow> sd\<lparr>nodeMap := (nodeMap sd)(h \<mapsto>
                 \<lparr>discoveredAt = now, nodeBreaker = new (breaker_config_of (config sd))\<rparr>)\<rparr>
          | Some _ \<Rightarrow> sd)
      in (case nodeMap sd1 h of
            None \<Rightarrow> sd1
          | Some node \<Rightarrow> sd1\<lparr>gauge := UpdateBreakerState h (st (nodeBreaker node)) (gauge sd1)\<rparr>))"

text \<open>The removal loop: it deletes exactly the nodes that were not resolved, in any order.\<close>

definition remove_nodes :: "string list \<Rightarrow> 'b discovery \<Rightarrow> 'b discovery" where
  "remove_nodes hosts sd =
     sd\<lparr>nodeMap := (\<lambda>h. if h \<in> set hosts then nodeMap sd h else None),
        gauge := (\<lambda>h. if nodeMap sd h \<noteq> None \<and> h \<notin> set hosts then None else gauge sd h)\<rparr>"

definition dnsLookUp ::
    "(breaker_config \<Rightarrow> 'b) \<Rightarrow> ('b \<Rightarrow> string) \<Rightarrow> go_time \<Rightarrow> string + string list \<Rightarrow> 'b discovery \<Rightarrow> 'b discovery" where
  "dnsLookUp new st now answer sd =
     (case answer of
        Inl err \<Rightarrow> sd
      | Inr hosts \<Rightarrow> remove_nodes hosts (foldl (lookup_host new st now) sd hosts))"

text \<open>
  The goroutine of \<open>StartDNSLoop\<close>: a tick looks the host up; once \<open>stopCh\<close> is closed a
  pending tick may still be served (both cases of the \<open>select\<close> are ready), and then the loop
  returns.
\<close>

inductive dns_step ::
    "(breaker_config \<Rightarrow> 'b) \<Rightarrow> ('b \<Rightarrow> string) \<Rightarrow> 'b discovery \<Rightarrow> 'b discovery \<Rightarrow> bool" for new st where
  tick: "dnsLoop sd \<Longrightarrow> dns_step new st sd (dnsLookUp new st now answer sd)"
| stop: "dnsLoop sd \<Longrightarrow> stopped sd \<Longrightarrow> dns_step new st sd (sd\<lparr>dnsLoop := False\<rparr>)"

inductive_cases dns_stepE: "dns_step new st sd sd'"

subsection \<open>Selection\<close>

definition is_cold :: "go_time \<Rightarrow> duration \<Rightarrow> 'b node_status \<Rightarrow> bool" where
  "is_cold now delay node \<longleftrightarrow> delay > 0 \<and> time_sub now (discoveredAt node) < delay"

fun avail_loop ::
    "(go_time \<Rightarrow> 'b \<Rightarrow> bool \<times> 'b) \<Rightarrow> (string \<Rightarrow> go_time) \<Rightarrow> go_time \<Rightarrow> duration \<Rightarrow> string list
     \<Rightarrow> (string \<Rightarrow> 'b node_status option) \<Rightarrow> string list \<Rightarrow> string list
     \<Rightarrow> (string \<Rightarrow> 'b node_status option) \<times> string list \<times> string list" where
  "avail_loop allow clk now delay [] m warm cold = (m, warm, cold)"
| "avail_loop allow clk now delay (h # hs) m warm cold =
     (case m h of
        None \<Rightarrow> avail_loop allow clk now delay hs m warm cold
      | Some node \<Rightarrow>
          (let (ok, b) = allow (clk h) (nodeBreaker node);
               m' = m(h \<mapsto> node\<lparr>nodeBreaker := b\<rparr>)
           in if \<not> ok then avail_loop allow clk now delay hs m' warm cold
              else if is_cold now delay node
              then avail_loop allow clk now delay hs m' warm (cold @ [h])
              else avail_loop allow clk now delay hs m' (warm @ [h]) cold))"

definition GetAvailableHosts ::
    "(go_time \<Rightarrow> 'b \<Rightarrow> bool \<times> 'b) \<Rightarrow> (string \<Rightarrow> go_time) \<Rightarrow> go_time \<Rightarrow> string list
     \<Rightarrow> 'b discovery \<Rightarrow> string list \<times> 'b discovery" where
  "GetAvailableHosts allow clk now order sd =
     (let (m, warm, cold) = avail_loop allow clk now (ColdStartDelay (config sd)) order (nodeMap sd) [] [];
          sd' = sd\<lparr>nodeMap := m\<rparr>
      in if length warm > 0 then (warm, sd') else (cold, sd'))"

unbundle bit_operations_syntax

text \<open>\<^verbatim>\<open>hash/fnv\<close>'s 32-bit FNV-1a over the bytes of the key.\<close>

definition fnv32a :: "bytes \<Rightarrow> 32 word" where
  "fnv32a bs = foldl (\<lambda>h b. (h XOR of_nat (of_char b)) * 16777619) 2166136261 bs"

definition hashKey :: "string \<Rightarrow> 32 word" where
  "hashKey s = fnv32a s"

definition GetHosts ::
    "(go_time \<Rightarrow> 'b \<Rightarrow> bool \<times> 'b) \<Rightarrow> (string \<Rightarrow> go_time) \<Rightarrow> go_time \<Rightarrow> string list
     \<Rightarrow> string \<Rightarrow> int \<Rightarrow> 'b discovery \<Rightarrow> string list \<times> 'b discovery" where
  "GetHosts allow clk now order key num sd =
     (let (hosts, sd') = GetAvailableHosts allow clk now order sd
      in if length hosts = 0 \<or> num \<le> 0 then ([], sd')
         else
           (let hostLen = length hosts;
                n = min hostLen (nat num);
                hosts = sort hosts;
                idx = unat (hashKey key mod of_nat hostLen)
            in (map (\<lambda>i. hosts ! ((idx + i) mod hostLen)) [0..<n], sd')))"

definition GetPort :: "'b discovery \<Rightarrow> int" where
  "GetPort sd = Port (config sd)"

definition getNode :: "string \<Rightarrow> 'b discovery \<Rightarrow> 'b node_status option" where
  "getNode host sd = nodeMap sd host"

definition update_breaker :: "('b \<Rightarrow> 'b) \<Rightarrow> string \<Rightarrow> 'b discovery \<Rightarrow> 'b discovery" where
  "update_breaker f host sd =
     (case getNode host sd of
        None \<Rightarrow> sd
      | Some node \<Rightarrow> sd\<lparr>nodeMap := (nodeMap sd)(host \<mapsto> node\<lparr>nodeBreaker := f (nodeBreaker node)\<rparr>)\<rparr>)"

definition ReportSuccess :: "('b \<Rightarrow> 'b) \<Rightarrow> string \<Rightarrow> 'b discovery \<Rightarrow> 'b discovery" where
  "ReportSuccess success host sd = update_breaker success host sd"

definition ReportFailure :: "(go_time \<Rightarrow> 'b \<Rightarrow> 'b) \<Rightarrow> go_time \<Rightarrow> string \<Rightarrow> 'b discovery \<Rightarrow> 'b discovery" where
  "ReportFailure failure now host sd = update_breaker (failure now) host sd"

definition HostState :: "('b \<Rightarrow> string) \<Rightarrow> string \<Rightarrow> 'b discovery \<Rightarrow> string" where
  "HostState st host sd =
     (case getNode host sd of None \<Rightarrow> [] | Some node \<Rightarrow> st (nodeBreaker node))"


subsection \<open>What the selection loop computes\<close>

definition allowed ::
    "(go_time \<Rightarrow> 'b \<Rightarrow> bool \<times> 'b) \<Rightarrow> (string \<Rightarrow> go_time) \<Rightarrow> (string \<Rightarrow> 'b node_status option) \<Rightarrow> string \<Rightarrow> bool" where
  "allowed allow clk m h =
     (case m h of None \<Rightarrow> False | Some node \<Rightarrow> fst (allow (clk h) (nodeBreaker node)))"

definition cold_host ::
    "go_time \<Rightarrow> duration \<Rightarrow> (string \<Rightarrow> 'b node_status option) \<Rightarrow> string \<Rightarrow> bool" where
  "cold_host now delay m h = (case m h of None \<Rightarrow> False | Some node \<Rightarrow> is_cold now delay node)"

definition asked ::
    "(go_time \<Rightarrow> 'b \<Rightarrow> bool \<times> 'b) \<Rightarrow> (string \<Rightarrow> go_time) \<Rightarrow> string set
     \<Rightarrow> (string \<Rightarrow> 'b node_status option) \<Rightarrow> string \<Rightarrow> 'b node_status option" where
  "asked allow clk H m h =
     (if h \<in> H then map_option (\<lambda>node. node\<lparr>nodeBreaker := snd (allow (clk h) (nodeBreaker node))\<rparr>) (m h)
      else m h)"

lemma asked_dom [simp]: "dom (asked allow clk H m) = dom m"
  by (auto simp: asked_def dom_def split: if_splits)

lemma allowed_asked [simp]:
  "h \<notin> H \<Longrightarrow> allowed allow clk (asked allow clk H m) h = allowed allow clk m h"
  by (simp add: allowed_def asked_def)

lemma cold_asked [simp]:
  "cold_host now delay (asked allow clk H m) h = cold_host now delay m h"
  by (auto simp: cold_host_def asked_def is_cold_def split: option.splits)

lemma asked_upd:
  "m h = Some node \<Longrightarrow> h \<notin> H \<Longrightarrow>
   (asked allow clk H m)(h \<mapsto> node\<lparr>nodeBreaker := snd (allow (clk h) (nodeBreaker node))\<rparr>) =
     asked allow clk (insert h H) m"
  by (rule ext) (simp add: asked_def)

lemma asked_missing: "m h = None \<Longrightarrow> asked allow clk (insert h H) m = asked allow clk H m"
  by (rule ext) (simp add: asked_def)

lemma avail_loop_asked:
  assumes "distinct hs" "set hs \<inter> H = {}"
  shows "avail_loop allow clk now delay hs (asked allow clk H m) warm cold =
    (asked allow clk (H \<union> set hs) m,
     warm @ filter (\<lambda>h. allowed allow clk m h \<and> \<not> cold_host now delay m h) hs,
     cold @ filter (\<lambda>h. allowed allow clk m h \<and> cold_host now delay m h) hs)"
  using assms
proof (induction hs arbitrary: H warm cold)
  case (Cons h hs)
  then have h: "h \<notin> H" "h \<notin> set hs" and IH: "distinct hs" "set hs \<inter> insert h H = {}" by auto
  note IH = Cons.IH [OF IH]
  show ?case
  proof (cases "m h")
    case None
    with h IH show ?thesis
      by (simp add: asked_def [of _ _ H _ h] allowed_def asked_missing)
  next
    case (Some node)
    have "asked allow clk H m h = Some node" using h Some by (simp add: asked_def)
    with h IH Some show ?thesis
      by (auto simp: allowed_def cold_host_def asked_upd split_beta)
  qed
qed simp

lemma asked_empty [simp]: "asked allow clk {} m = m"
  by (rule ext) (simp add: asked_def)

definition candidates ::
    "(go_time \<Rightarrow> 'b \<Rightarrow> bool \<times> 'b) \<Rightarrow> (string \<Rightarrow> go_time) \<Rightarrow> go_time \<Rightarrow> 'b discovery \<Rightarrow> string \<Rightarrow> bool" where
  "candidates allow clk now sd h \<longleftrightarrow>
     allowed allow clk (nodeMap sd) h \<and>
     ((\<exists>h'. allowed allow clk (nodeMap sd) h' \<and> \<not> cold_host now (ColdStartDelay (config sd)) (nodeMap sd) h')
       \<longrightarrow> \<not> cold_host now (ColdStartDelay (config sd)) (nodeMap sd) h)"

text \<open>An order in which a \<open>range\<close> over the node map may run: each key once.\<close>

definition enumerates :: "string list \<Rightarrow> 'b discovery \<Rightarrow> bool" where
  "enumerates order sd \<longleftrightarrow> distinct order \<and> set order = dom (nodeMap sd)"

lemma allowed_dom: "allowed allow clk m h \<Longrightarrow> h \<in> dom m"
  by (auto simp: allowed_def split: option.splits)

lemma GetAvailableHosts_eq:
  assumes "enumerates order sd"
  shows "GetAvailableHosts allow clk now order sd =
    (filter (candidates allow clk now sd) order,
     sd\<lparr>nodeMap := asked allow clk (dom (nodeMap sd)) (nodeMap sd)\<rparr>)"
proof -
  let ?d = "ColdStartDelay (config sd)" and ?m = "nodeMap sd"
  let ?warm = "filter (\<lambda>h. allowed allow clk ?m h \<and> \<not> cold_host now ?d ?m h) order"
  let ?cold = "filter (\<lambda>h. allowed allow clk ?m h \<and> cold_host now ?d ?m h) order"
  have order: "distinct order" "set order = dom ?m" using assms by (auto simp: enumerates_def)
  have loop: "avail_loop allow clk now ?d order ?m [] [] = (asked allow clk (dom ?m) ?m, ?warm, ?cold)"
    using avail_loop_asked [OF order(1), of "{}" allow clk now ?d ?m "[]" "[]"] order(2) by simp
  have "(if length ?warm > 0 then ?warm else ?cold) = filter (candidates allow clk now sd) order"
  proof (cases "?warm = []")
    case True
    then have "\<forall>h'. allowed allow clk ?m h' \<longrightarrow> cold_host now ?d ?m h'"
      using order(2) by (metis (no_types, lifting) allowed_dom filter_empty_conv)
    with True show ?thesis by (auto simp: candidates_def intro: filter_cong)
  next
    case False
    then have "\<exists>h'. allowed allow clk ?m h' \<and> \<not> cold_host now ?d ?m h'"
      by (auto simp: filter_empty_conv)
    with False show ?thesis by (auto simp: candidates_def intro: filter_cong)
  qed
  then show ?thesis by (auto simp: GetAvailableHosts_def loop Let_def)
qed

subsection \<open>What a request is offered\<close>

lemma rotate_nth_map:
  "map (\<lambda>i. xs ! ((k + i) mod length xs)) [0..<n] = take n (rotate k xs)" if "n \<le> length xs"
  using that by (intro nth_equalityI) (auto simp: nth_rotate)

lemma GetHosts_eq:
  assumes "enumerates order sd"
  shows "GetHosts allow clk now order key num sd =
    (let avail = sort (filter (candidates allow clk now sd) order)
     in take (nat num) (rotate (unat (hashKey key mod of_nat (length avail))) avail),
     sd\<lparr>nodeMap := asked allow clk (dom (nodeMap sd)) (nodeMap sd)\<rparr>)"
proof -
  let ?avail = "filter (candidates allow clk now sd) order"
  have "take (min (length ?avail) (nat num)) xs = take (nat num) xs" if "length xs = length ?avail"
    for xs :: "string list"
    using that by (simp add: min_def)
  then show ?thesis
    using rotate_nth_map [where xs = "sort ?avail"]
    by (auto simp: GetHosts_def GetAvailableHosts_eq [OF assms] Let_def)
qed

lemma sort_enumerates:
  assumes "enumerates order sd" "enumerates order' sd"
  shows "sort (filter P order) = sort (filter P order')"
proof -
  have "mset order = mset order'"
    using assms by (auto simp: enumerates_def set_eq_iff_mset_eq_distinct [symmetric])
  then have "mset (filter P order) = mset (filter P order')" by simp
  then show ?thesis by (intro properties_for_sort) simp_all
qed


lemma GetHosts_facts:
  assumes "enumerates order sd"
  shows "distinct (fst (GetHosts allow clk now order key num sd))"
    and "set (fst (GetHosts allow clk now order key num sd)) \<subseteq> {h. candidates allow clk now sd h}"
    and "length (fst (GetHosts allow clk now order key num sd)) =
      min (card {h. candidates allow clk now sd h}) (nat num)"
proof -
  let ?avail = "sort (filter (candidates allow clk now sd) order)"
  let ?k = "unat (hashKey key mod of_nat (length ?avail))"
  have fst: "fst (GetHosts allow clk now order key num sd) = take (nat num) (rotate ?k ?avail)"
    by (simp add: GetHosts_eq [OF assms] Let_def)
  have order: "distinct order" "set order = dom (nodeMap sd)"
    using assms by (auto simp: enumerates_def)
  show "distinct (fst (GetHosts allow clk now order key num sd))"
    using order(1) unfolding fst by simp
  have sub: "set (take (nat num) (rotate ?k ?avail)) \<subseteq> set ?avail"
    using set_take_subset [of "nat num" "rotate ?k ?avail"] by simp
  then show "set (fst (GetHosts allow clk now order key num sd)) \<subseteq> {h. candidates allow clk now sd h}"
    unfolding fst by auto
  have "{h. candidates allow clk now sd h} = set (filter (candidates allow clk now sd) order)"
    using order(2) allowed_dom by (fastforce simp: candidates_def)
  moreover have "card (set (filter (candidates allow clk now sd) order)) = length ?avail"
    using order(1) distinct_card [of "filter (candidates allow clk now sd) order"] by simp
  ultimately show "length (fst (GetHosts allow clk now order key num sd)) =
      min (card {h. candidates allow clk now sd h}) (nat num)"
    unfolding fst by (simp add: min.commute)
qed

text \<open>
  C26. \<open>GetHosts\<close> answers as many hosts as it was asked for, or all that may be asked if
  there are fewer; they are pairwise different, each one's breaker let a request through, and
  a host in its cold start is offered only if no warm host's breaker did.
\<close>

theorem GetHosts_selects:
  assumes "enumerates order sd"
  shows "distinct (fst (GetHosts allow clk now order key num sd)) \<and>
    length (fst (GetHosts allow clk now order key num sd)) =
      min (card {h. candidates allow clk now sd h}) (nat num) \<and>
    (\<forall>h \<in> set (fst (GetHosts allow clk now order key num sd)).
       allowed allow clk (nodeMap sd) h \<and>
       (cold_host now (ColdStartDelay (config sd)) (nodeMap sd) h \<longrightarrow>
         (\<forall>h'. allowed allow clk (nodeMap sd) h' \<longrightarrow>
            cold_host now (ColdStartDelay (config sd)) (nodeMap sd) h')))"
  using GetHosts_facts [OF assms, of allow clk now key num] by (auto simp: candidates_def)

lemma GetHosts_any_order:
  assumes "enumerates order sd" "enumerates order' sd"
  shows "GetHosts allow clk now order key num sd = GetHosts allow clk now order' key num sd"
  unfolding GetHosts_eq [OF assms(1)] GetHosts_eq [OF assms(2)]
    sort_enumerates [OF assms, of "candidates allow clk now sd"] ..

text \<open>
  The hosts a request tries, and their order, do not depend on the order in which Go
  iterates over the node map, and neither does the state the call leaves: \<open>GetHosts\<close> is a
  function of the node map, the key, the count and the clock.
\<close>

theorem GetHosts_order_independent:
  assumes "enumerates order sd" "enumerates order' sd"
  shows "GetHosts allow clk now order key num sd = GetHosts allow clk now order' key num sd"
  by (rule GetHosts_any_order [OF assms])

lemma GetHosts_all:
  assumes "enumerates order sd"
    and "int (card {h. candidates allow clk now sd h}) \<le> num"
  shows "set (fst (GetHosts allow clk now order key num sd)) = {h. candidates allow clk now sd h}"
proof -
  note facts = GetHosts_facts [OF assms(1), of allow clk now key num]
  have fin: "finite {h. candidates allow clk now sd h}"
  proof (rule finite_subset)
    show "{h. candidates allow clk now sd h} \<subseteq> set order"
      using assms(1) allowed_dom by (fastforce simp: candidates_def enumerates_def)
  qed simp
  have "card (set (fst (GetHosts allow clk now order key num sd))) =
      card {h. candidates allow clk now sd h}"
    using facts(1,3) assms(2) distinct_card by fastforce
  with fin facts(2) show ?thesis by (simp add: card_subset_eq)
qed

text \<open>
  A request that asks for enough hosts fails over to every host that may be asked:
  starting from the host its key hashes to, \<open>GetHosts\<close> lists the candidates in cyclic
  order, each once.
\<close>

theorem GetHosts_covers:
  assumes "enumerates order sd"
    and "int (card {h. candidates allow clk now sd h}) \<le> num"
  shows "set (fst (GetHosts allow clk now order key num sd)) = {h. candidates allow clk now sd h}"
  by (rule GetHosts_all [OF assms])

subsection \<open>The node map follows the lookup\<close>

lemma lookup_host_nodeMap:
  "nodeMap (lookup_host new st now sd h) h' =
     (if h' = h \<and> nodeMap sd h = None
      then Some \<lparr>discoveredAt = now, nodeBreaker = new (breaker_config_of (config sd))\<rparr>
      else nodeMap sd h')"
  by (simp add: lookup_host_def Let_def split: option.split)

lemma lookup_host_config [simp]: "config (lookup_host new st now sd h) = config sd"
  by (simp add: lookup_host_def Let_def split: option.split)

lemma lookup_hosts_nodeMap:
  "nodeMap (foldl (lookup_host new st now) sd hs) h =
     (if h \<in> set hs \<and> nodeMap sd h = None
      then Some \<lparr>discoveredAt = now, nodeBreaker = new (breaker_config_of (config sd))\<rparr>
      else nodeMap sd h)"
  by (induction hs arbitrary: sd) (auto simp: lookup_host_nodeMap)

lemma lookup_host_gauge:
  "gauge (lookup_host new st now sd h) h' =
     (if h' = h then UpdateBreakerState h (HostState st h (lookup_host new st now sd h)) (gauge sd) h
      else gauge sd h')"
  by (auto simp: lookup_host_def HostState_def getNode_def UpdateBreakerState_def Let_def
      split: option.split)

text \<open>
  A successful lookup makes the known hosts exactly the resolved ones: a host that was
  already known keeps its discovery time and its breaker, a new one starts now with a new
  breaker, and hosts that no longer resolve are forgotten.  A failed lookup changes nothing.
\<close>

theorem dnsLookUp_nodes:
  "nodeMap (dnsLookUp new st now (Inr hosts) sd) h =
     (if h \<in> set hosts
      then (case nodeMap sd h of
              Some node \<Rightarrow> Some node
            | None \<Rightarrow> Some \<lparr>discoveredAt = now, nodeBreaker = new (breaker_config_of (config sd))\<rparr>)
      else None) \<and>
   dnsLookUp new st now (Inl err) sd = sd"
  by (auto simp: dnsLookUp_def remove_nodes_def lookup_hosts_nodeMap split: option.split)


definition known_hosts :: "'b discovery \<Rightarrow> string set" where
  "known_hosts sd = dom (nodeMap sd)"

lemma known_hosts_finite_lookup:
  "finite (known_hosts sd) \<Longrightarrow> finite (known_hosts (dnsLookUp new st now answer sd))"
proof (cases answer)
  case (Inr hosts)
  have "known_hosts (dnsLookUp new st now answer sd) \<subseteq> set hosts"
    unfolding Inr by (auto simp: known_hosts_def dnsLookUp_def remove_nodes_def split: if_splits)
  then show ?thesis using finite_subset by blast
qed (simp add: dnsLookUp_def)

lemma dns_step_finite:
  "dns_step new st sd sd' \<Longrightarrow> finite (known_hosts sd) \<Longrightarrow> finite (known_hosts sd')"
  by (erule dns_stepE) (auto simp: known_hosts_finite_lookup, simp add: known_hosts_def)

lemma update_breaker_dom [simp]: "dom (nodeMap (update_breaker f h sd)) = dom (nodeMap sd)"
  by (auto simp: update_breaker_def getNode_def split: option.split)

lemma update_breaker_config [simp]: "config (update_breaker f h sd) = config sd"
  by (simp add: update_breaker_def split: option.split)

lemma update_breaker_node:
  "nodeMap (update_breaker f h sd) h' =
     (if h' = h then map_option (\<lambda>node. node\<lparr>nodeBreaker := f (nodeBreaker node)\<rparr>) (nodeMap sd h)
      else nodeMap sd h')"
  by (simp add: update_breaker_def getNode_def split: option.split)

subsection \<open>The discovery as the client's service\<close>

text \<open>
  One iteration order that always exists; by \<open>GetHosts_any_order\<close> any other gives
  the same answers.
\<close>

definition key_order :: "'b discovery \<Rightarrow> string list" where
  "key_order sd = sorted_list_of_set (dom (nodeMap sd))"

lemma key_order_enumerates: "finite (known_hosts sd) \<Longrightarrow> enumerates (key_order sd) sd"
  by (simp add: enumerates_def key_order_def known_hosts_def)

definition serve_hosts ::
    "(string \<Rightarrow> go_time) \<Rightarrow> go_time \<Rightarrow> string \<Rightarrow> int \<Rightarrow> breaker discovery \<Rightarrow> string list \<times> breaker discovery" where
  "serve_hosts clk now key num sd = GetHosts Allow clk now (key_order sd) key num sd"

lemma serve_hosts_order:
  assumes "enumerates order sd"
  shows "GetHosts Allow clk now order key num sd = serve_hosts clk now key num sd"
proof -
  have "finite (known_hosts sd)"
    using assms by (metis List.finite_set enumerates_def known_hosts_def)
  then show ?thesis
    unfolding serve_hosts_def
    by (rule GetHosts_any_order [OF assms key_order_enumerates])
qed

lemma serve_hosts_state:
  "finite (known_hosts sd) \<Longrightarrow>
   snd (serve_hosts clk now key num sd) =
     sd\<lparr>nodeMap := asked Allow clk (dom (nodeMap sd)) (nodeMap sd)\<rparr>"
  by (simp add: serve_hosts_def GetHosts_eq [OF key_order_enumerates] Let_def)

interpretation discovery_service: host_service "serve_hosts clk now" "ReportSuccess RecordSuccess"
    "ReportFailure RecordFailure" known_hosts "\<lambda>sd. finite (known_hosts sd)"
  for clk now
proof (unfold_locales, goal_cases)
  case (1 s key n)
  then show ?case
    unfolding serve_hosts_def by (rule GetHosts_facts(1) [OF key_order_enumerates])
next
  case (2 s key n)
  have "{h. candidates Allow clk now s h} \<subseteq> known_hosts s"
    using allowed_dom by (fastforce simp: candidates_def known_hosts_def)
  with 2 show ?case
    using GetHosts_facts(2) [OF key_order_enumerates [OF 2], of Allow clk now key n]
    by (auto simp: serve_hosts_def)
next
  case (3 s key n)
  then show ?case
    using GetHosts_facts(3) [OF key_order_enumerates, of s Allow clk now key n]
    by (simp add: serve_hosts_def)
qed (simp_all add: known_hosts_def serve_hosts_state ReportSuccess_def ReportFailure_def)

subsection \<open>Breakers and selection together\<close>

context circuit_breaker begin

lemma closed_warm_offered:
  assumes "nodeMap sd h = Some node" "state_of (nodeBreaker node) = ''closed''"
    and "\<not> is_cold now (ColdStartDelay (config sd)) node"
  shows "candidates allow clk now sd h"
  using assms allow_closed [OF assms(2)]
  by (auto simp: candidates_def allowed_def cold_host_def)

lemma asking_keeps_closed:
  assumes "nodeMap sd h = Some node" "state_of (nodeBreaker node) = ''closed''"
  shows "asked allow clk H (nodeMap sd) h = Some node"
  using assms allow_closed [OF assms(2)] by (simp add: asked_def)

lemma asking_denied_same:
  assumes "nodeMap sd h = Some node" "\<not> allowed allow clk (nodeMap sd) h"
  shows "asked allow clk H (nodeMap sd) h = Some node"
proof -
  obtain ok b where call: "allow (clk h) (nodeBreaker node) = (ok, b)" by force
  with assms have "\<not> ok" by (simp add: allowed_def)
  with call allow_denied [of "clk h" "nodeBreaker node" b] have "b = nodeBreaker node" by simp
  with assms(1) call show ?thesis by (simp add: asked_def)
qed

end

text \<open>
  A healthy host is never withheld: a known host whose breaker is closed and which is
  past its cold start is offered by every \<open>GetHosts\<close> that asks for at least as many hosts
  as there are candidates, and asking does not change its breaker.
\<close>

theorem healthy_host_offered:
  assumes "enumerates order sd"
    and "nodeMap sd h = Some node" "State (nodeBreaker node) = ''closed''"
    and "\<not> is_cold now (ColdStartDelay (config sd)) node"
    and "int (card {h. candidates Allow clk now sd h}) \<le> num"
  shows "h \<in> set (fst (GetHosts Allow clk now order key num sd)) \<and>
    nodeMap (snd (GetHosts Allow clk now order key num sd)) h = Some node"
proof -
  have "candidates Allow clk now sd h"
    by (rule counting.closed_warm_offered [OF assms(2-4)])
  moreover have "asked Allow clk (dom (nodeMap sd)) (nodeMap sd) h = Some node"
    by (rule counting.asking_keeps_closed [OF assms(2,3)])
  ultimately show ?thesis
    using GetHosts_all [OF assms(1,5)] by (simp add: GetHosts_eq [OF assms(1)] Let_def)
qed

text \<open>
  A failing host is taken out: if a host's breaker is new up to a history of reports that
  has not tripped it, and one more failure completes a run of \<open>EndpointFailureThreshold\<close>
  failures, then no request that asks its breaker within the cooldown period after that
  failure is offered the host, in whatever order the nodes are visited.
\<close>

theorem failing_host_quarantined:
  assumes "nodeMap sd h = Some node"
    and "nodeBreaker node = cb_run (NewCircuitBreaker cfg) es"
    and "\<not> trips (maxFailures cfg) 0 es" "trips (maxFailures cfg) 0 (es @ [EvFailure t])"
    and "enumerates order (ReportFailure RecordFailure t h sd)"
    and "time_sub (clk h) t \<le> cooldownPeriod cfg"
  shows "h \<notin> set (fst (GetHosts Allow clk now order key num (ReportFailure RecordFailure t h sd)))"
proof -
  let ?sd = "ReportFailure RecordFailure t h sd"
  let ?cb = "cb_run (NewCircuitBreaker cfg) (es @ [EvFailure t])"
  have node: "nodeMap ?sd h = Some (node\<lparr>nodeBreaker := ?cb\<rparr>)"
    using assms(1,2) by (simp add: ReportFailure_def update_breaker_node)
  have "cb_abs ?cb = POpen t"
    unfolding cb_run_new_abs by (rule spec_run_trip [OF assms(3,4)])
  moreover have cfg: "cb_config ?cb = cfg"
    by (simp add: NewCircuitBreaker_def del: cb_run_simps)
  moreover have "cb_wf ?cb" by (rule cb_wf_run) simp
  ultimately have "\<not> fst (Allow (clk h) ?cb)"
    using assms(6) by (simp only: cb_abs_allow spec_allows.simps not_less)
  then have "\<not> candidates Allow clk now ?sd h"
    using node by (simp add: candidates_def allowed_def del: cb_run_simps)
  then show ?thesis using GetHosts_facts(2) [OF assms(5)] by blast
qed


subsection \<open>A concrete discovery\<close>

definition sample_sd_config :: sd_config where
  "sample_sd_config =
     \<lparr>Host = ''mc'', Port = 80, LookupInterval = 5, ColdStartDelay = 10, EndpointFailureThreshold = 2,
      EndpointCooldownPeriod = 5, EndpointHalfOpenRequests = 2\<rparr>"

definition sample_node :: "go_time \<Rightarrow> breaker node_status" where
  "sample_node t = \<lparr>discoveredAt = t, nodeBreaker = NewCircuitBreaker (breaker_config_of sample_sd_config)\<rparr>"

definition sample_sd :: "breaker discovery" where
  "sample_sd = \<lparr>config = sample_sd_config,
     nodeMap = [''a'' \<mapsto> sample_node 0, ''b'' \<mapsto> sample_node 0, ''c'' \<mapsto> sample_node 95],
     gauge = Map.empty, dnsLoop = True, stopped = False\<rparr>"

lemma sample_enumerates:
  "enumerates [''c'', ''a'', ''b''] sample_sd" "enumerates [''b'', ''a'', ''c''] sample_sd"
  by (auto simp: enumerates_def sample_sd_def)

lemma sample_candidates:
  "{h. candidates Allow (\<lambda>_. 100) 100 sample_sd h} = {''a'', ''b''}"
  by (auto simp: candidates_def allowed_def cold_host_def is_cold_def sample_sd_def sample_node_def
      sample_sd_config_def NewCircuitBreaker_def Allow_def time_sub_def split: if_splits)

theorem GetHosts_selects_witness:
  "length (fst (GetHosts Allow (\<lambda>_. 100) 100 [''c'', ''a'', ''b''] ''k'' 2 sample_sd)) = 2"
  using GetHosts_selects [OF sample_enumerates(1), of Allow "\<lambda>_. 100" 100 "''k''" 2]
  by (simp add: sample_candidates)

theorem GetHosts_order_independent_witness:
  "GetHosts Allow (\<lambda>_. 100) 100 [''c'', ''a'', ''b''] ''k'' 2 sample_sd =
   GetHosts Allow (\<lambda>_. 100) 100 [''b'', ''a'', ''c''] ''k'' 2 sample_sd"
  by (rule GetHosts_order_independent [OF sample_enumerates])

theorem GetHosts_covers_witness:
  "set (fst (GetHosts Allow (\<lambda>_. 100) 100 [''c'', ''a'', ''b''] ''k'' 2 sample_sd)) = {''a'', ''b''}"
  using GetHosts_covers [OF sample_enumerates(1), of Allow "\<lambda>_. 100" 100 2 "''k''"]
  by (simp add: sample_candidates)

theorem healthy_host_offered_witness:
  "''a'' \<in> set (fst (GetHosts Allow (\<lambda>_. 100) 100 [''c'', ''a'', ''b''] ''k'' 2 sample_sd))"
proof -
  have pre: "nodeMap sample_sd ''a'' = Some (sample_node 0)"
    "State (nodeBreaker (sample_node 0)) = ''closed''"
    "\<not> is_cold 100 (ColdStartDelay (config sample_sd)) (sample_node 0)"
    "int (card {h. candidates Allow (\<lambda>_. 100) 100 sample_sd h}) \<le> 2"
    unfolding sample_candidates
    by (simp_all add: sample_sd_def sample_node_def State_def NewCircuitBreaker_def is_cold_def
        sample_sd_config_def time_sub_def)
  show ?thesis
    using healthy_host_offered [OF sample_enumerates(1) pre] by blast
qed

theorem failing_host_quarantined_witness:
  "''a'' \<notin> set (fst (GetHosts Allow (\<lambda>_. 104) 100 [''c'', ''a'', ''b''] ''k'' 3
     (ReportFailure RecordFailure 101 ''a''
       (sample_sd\<lparr>nodeMap := (nodeMap sample_sd)(''a'' \<mapsto> (sample_node 0)\<lparr>nodeBreaker :=
          cb_run (NewCircuitBreaker (breaker_config_of sample_sd_config)) [EvFailure 99]\<rparr>)\<rparr>))))"
proof -
  let ?cfg = "breaker_config_of sample_sd_config"
  let ?node = "(sample_node 0)\<lparr>nodeBreaker := cb_run (NewCircuitBreaker ?cfg) [EvFailure 99]\<rparr>"
  let ?sd = "sample_sd\<lparr>nodeMap := (nodeMap sample_sd)(''a'' \<mapsto> ?node)\<rparr>"
  have pre: "nodeMap ?sd ''a'' = Some ?node"
    "nodeBreaker ?node = cb_run (NewCircuitBreaker ?cfg) [EvFailure 99]"
    "\<not> trips (maxFailures ?cfg) 0 [EvFailure 99]"
    "trips (maxFailures ?cfg) 0 ([EvFailure 99] @ [EvFailure 101])"
    by (simp_all add: breaker_config_of_def sample_sd_config_def)
  have order: "enumerates [''c'', ''a'', ''b''] (ReportFailure RecordFailure 101 ''a'' ?sd)"
    by (auto simp: enumerates_def ReportFailure_def sample_sd_def)
  have "time_sub ((\<lambda>_. 104) ''a'') 101 \<le> cooldownPeriod ?cfg"
    by (simp add: time_sub_def breaker_config_of_def sample_sd_config_def)
  then show ?thesis by (rule failing_host_quarantined [OF pre order])
qed

end
