(* ===== verification/AsyncRequest.thy ===== *)
theory AsyncRequest
  imports ErrCode
begin

text \<open>
  \<^verbatim>\<open>pkg/async_request/async_request.go\<close>: the bounded queue of requests to the metadata
  center and its worker goroutines.

  \<open>Dispatch\<close> and \<open>Shutdown\<close> exclude each other by the lock \<open>mu\<close> (\<open>Shutdown\<close> keeps it
  while it waits for the workers: \<open>shutting\<close>), so \<open>Dispatch\<close> is one atomic step; the
  workers run beside both.  Where a \<open>select\<close> has several ready cases the choice is an
  argument of the function or a rule of the step relation.  \<open>accepted\<close> and \<open>handled\<close> are
  history variables: the tasks \<open>Dispatch\<close> took and those a worker has finished.
\<close>

record task =
  t_TraceId :: string
  t_Method :: string
  t_URL :: string
  t_Body :: json
  t_Timeout :: duration
  t_HashKey :: string

record queue_config =
  QueueSize :: int
  WorkerCount :: int
  MaxRetries :: int
  DefaultTimeout :: duration

datatype worker = WIdle | WBusy task | WDone

record outcome =
  o_task :: task
  o_attempts :: int
  o_error :: "string option"

record async_queue =
  aq_config :: queue_config
  tasks :: "task list"
  chanClosed :: bool
  cancelled :: bool
  isClosed :: bool
  shutting :: bool
  workers :: "worker list"
  accepted :: "task list"
  handled :: "outcome list"

datatype dispatch_error = QueueClosed | ContextCanceled | QueueFull int

subsection \<open>Creation and dispatch\<close>

text \<open>\<open>make\<close> panics for a negative capacity, \<open>WaitGroup.Add\<close> for a negative count.\<close>

definition NewAsyncQueue :: "queue_config \<Rightarrow> async_queue run" where
  "NewAsyncQueue cfg =
     (if QueueSize cfg < 0 \<or> WorkerCount cfg < 0 then Panic
      else Ret \<lparr>aq_config = cfg, tasks = [], chanClosed = False, cancelled = False, isClosed = False,
                shutting = False, workers = replicate (nat (WorkerCount cfg)) WIdle,
                accepted = [], handled = []\<rparr>)"

definition with_timeout :: "queue_config \<Rightarrow> task \<Rightarrow> task" where
  "with_timeout cfg t = (if t_Timeout t = 0 then t\<lparr>t_Timeout := DefaultTimeout cfg\<rparr> else t)"

text \<open>
  The three cases of the \<open>select\<close>.  A send can proceed when a worker waits in its receive
  (\<open>receiver\<close>, which then gets the task directly), when the buffer has room, or when the
  channel is closed, which panics; if the context is cancelled as well, \<open>pick_done\<close> says
  which ready case runs.
\<close>

definition waiting :: "nat option \<Rightarrow> async_queue \<Rightarrow> bool" where
  "waiting receiver aq \<longleftrightarrow>
     (case receiver of None \<Rightarrow> False
      | Some i \<Rightarrow> tasks aq = [] \<and> i < length (workers aq) \<and> workers aq ! i = WIdle)"

definition send_ready :: "nat option \<Rightarrow> async_queue \<Rightarrow> bool" where
  "send_ready receiver aq \<longleftrightarrow>
     chanClosed aq \<or> waiting receiver aq \<or> int (length (tasks aq)) < QueueSize (aq_config aq)"

definition send :: "nat option \<Rightarrow> task \<Rightarrow> async_queue \<Rightarrow> async_queue" where
  "send receiver t aq =
     (if waiting receiver aq
      then aq\<lparr>workers := (workers aq)[the receiver := WBusy t], accepted := accepted aq @ [t]\<rparr>
      else aq\<lparr>tasks := tasks aq @ [t], accepted := accepted aq @ [t]\<rparr>)"

definition Dispatch ::
    "nat option \<Rightarrow> bool \<Rightarrow> task \<Rightarrow> async_queue \<Rightarrow> (dispatch_error option \<times> async_queue) run" where
  "Dispatch receiver pick_done t aq =
     (if isClosed aq then Ret (Some QueueClosed, aq)
      else
        (let t = with_timeout (aq_config aq) t in
         if send_ready receiver aq \<and> \<not> (cancelled aq \<and> pick_done)
         then (if chanClosed aq then Panic else Ret (None, send receiver t aq))
         else if cancelled aq then Ret (Some ContextCanceled, aq)
         else Ret (Some (QueueFull (int (length (tasks aq)))), aq)))"

subsection \<open>The workers\<close>

text \<open>
  The retry loop of a worker.  \<open>handler a\<close> is what \<open>HandleRequest\<close> answers at attempt
  \<open>a\<close>; the result is the number of attempts made, the time slept and the last error.
\<close>

function attempt_loop ::
    "(int \<Rightarrow> string option) \<Rightarrow> int \<Rightarrow> int \<Rightarrow> duration \<Rightarrow> string option \<Rightarrow> int \<times> duration \<times> string option" where
  "attempt_loop handler maxRetries attempt slept err =
     (if attempt \<le> maxRetries then
        (case handler attempt of
           None \<Rightarrow> (attempt + 1, slept, None)
         | Some e \<Rightarrow> attempt_loop handler maxRetries (attempt + 1)
             (if attempt < maxRetries then slept + (attempt + 1) * 10 * 10 ^ 6 else slept) (Some e))
      else (attempt, slept, err))"
  by pat_completeness auto
termination
  by (relation "measure (\<lambda>(h, m, a, s, e). nat (m + 1 - a))") auto

declare attempt_loop.simps [simp del]

definition run_task :: "(int \<Rightarrow> string option) \<Rightarrow> queue_config \<Rightarrow> task \<Rightarrow> outcome" where
  "run_task handler cfg t =
     (let (n, slept, err) = attempt_loop handler (MaxRetries cfg) 0 0 None
      in \<lparr>o_task = t, o_attempts = n, o_error = err\<rparr>)"

definition logStatus :: "outcome \<Rightarrow> string" where
  "logStatus r = (if o_error r = None then ''SUCCESS'' else ''FAIL'')"

text \<open>
  The queue in motion.  A worker receives a task (also after the context is cancelled, as the
  \<open>select\<close> may pick either ready case), finishes it, or leaves its loop; a receive from the
  closed channel would give it a zero task (\<open>take_zero\<close>).  \<open>Shutdown\<close> marks the queue
  closed and cancels, waits for the workers, and then closes the channel.
\<close>

definition zero_task :: task where
  "zero_task = \<lparr>t_TraceId = [], t_Method = [], t_URL = [], t_Body = JNull, t_Timeout = 0, t_HashKey = []\<rparr>"

definition take_task :: "nat \<Rightarrow> async_queue \<Rightarrow> async_queue" where
  "take_task i aq =
     (case tasks aq of
        [] \<Rightarrow> aq
      | t # ts \<Rightarrow> aq\<lparr>tasks := ts, workers := (workers aq)[i := WBusy t]\<rparr>)"

definition finish_task :: "(int \<Rightarrow> string option) \<Rightarrow> nat \<Rightarrow> task \<Rightarrow> async_queue \<Rightarrow> async_queue" where
  "finish_task handler i t aq =
     aq\<lparr>workers := (workers aq)[i := WIdle], handled := handled aq @ [run_task handler (aq_config aq) t]\<rparr>"

definition Shutdown_begin :: "async_queue \<Rightarrow> async_queue" where
  "Shutdown_begin aq = (if isClosed aq then aq else aq\<lparr>isClosed := True, cancelled := True, shutting := True\<rparr>)"

definition Shutdown_end :: "async_queue \<Rightarrow> async_queue" where
  "Shutdown_end aq = aq\<lparr>chanClosed := True, shutting := False\<rparr>"

inductive aq_step :: "async_queue \<Rightarrow> async_queue \<Rightarrow> bool" where
  dispatch: "\<not> shutting aq \<Longrightarrow> Dispatch receiver pick_done t aq = Ret (e, aq') \<Longrightarrow> aq_step aq aq'"
| take_one: "i < length (workers aq) \<Longrightarrow> workers aq ! i = WIdle \<Longrightarrow> tasks aq \<noteq> [] \<Longrightarrow>
     aq_step aq (take_task i aq)"
| take_zero: "i < length (workers aq) \<Longrightarrow> workers aq ! i = WIdle \<Longrightarrow> tasks aq = [] \<Longrightarrow> chanClosed aq \<Longrightarrow>
     aq_step aq (aq\<lparr>workers := (workers aq)[i := WBusy zero_task]\<rparr>)"
| finish_one: "i < length (workers aq) \<Longrightarrow> workers aq ! i = WBusy t \<Longrightarrow> aq_step aq (finish_task handler i t aq)"
| leave: "i < length (workers aq) \<Longrightarrow> workers aq ! i = WIdle \<Longrightarrow> cancelled aq \<Longrightarrow>
     aq_step aq (aq\<lparr>workers := (workers aq)[i := WDone]\<rparr>)"
| shut_begin: "\<not> shutting aq \<Longrightarrow> aq_step aq (Shutdown_begin aq)"
| shut_end: "shutting aq \<Longrightarrow> list_all (\<lambda>w. w = WDone) (workers aq) \<Longrightarrow> aq_step aq (Shutdown_end aq)"

inductive aq_reachable :: "queue_config \<Rightarrow> async_queue \<Rightarrow> bool" for cfg where
  start: "NewAsyncQueue cfg = Ret aq \<Longrightarrow> aq_reachable cfg aq"
| step: "aq_reachable cfg aq \<Longrightarrow> aq_step aq aq' \<Longrightarrow> aq_reachable cfg aq'"

inductive_cases aq_stepE: "aq_step aq aq'"


subsection \<open>The retry loop\<close>

lemma attempt_loop_past: "m < a \<Longrightarrow> attempt_loop h m a s e = (a, s, e)"
  by (simp add: attempt_loop.simps)

lemma attempt_loop_ok: "a \<le> m \<Longrightarrow> h a = None \<Longrightarrow> attempt_loop h m a s e = (a + 1, s, None)"
  by (simp add: attempt_loop.simps)

lemma attempt_loop_fail: "a \<le> m \<Longrightarrow> h a = Some x \<Longrightarrow>
   attempt_loop h m a s e =
     attempt_loop h m (a + 1) (if a < m then s + (a + 1) * 10 * 10 ^ 6 else s) (Some x)"
  by (simp add: attempt_loop.simps [of h m a])

lemma attempt_loop_success:
  assumes "a \<le> k" "k \<le> m" "h k = None" "\<forall>j. a \<le> j \<and> j < k \<longrightarrow> h j \<noteq> None"
  shows "\<exists>s'. attempt_loop h m a s e = (k + 1, s', None)"
  using assms
proof (induction "nat (k - a)" arbitrary: a s e)
  case 0
  then show ?case by (auto simp: attempt_loop_ok)
next
  case (Suc n)
  then have "a < k" by simp
  with Suc.prems obtain x where "h a = Some x" by auto
  with \<open>a < k\<close> Suc.prems show ?case
    by (auto simp: attempt_loop_fail intro!: Suc.hyps(1)) (use Suc.hyps(2) in auto)
qed

lemma attempt_loop_exhausted:
  assumes "a \<le> m" "\<forall>j. a \<le> j \<and> j \<le> m \<longrightarrow> h j \<noteq> None"
  shows "\<exists>s'. attempt_loop h m a s e = (m + 1, s', h m)"
  using assms
proof (induction "nat (m - a)" arbitrary: a s e)
  case 0
  then have "a = m" by simp
  with 0 show ?case by (auto simp: attempt_loop_fail attempt_loop_past)
next
  case (Suc n)
  then have "a < m" by simp
  with Suc.prems obtain x where "h a = Some x" by (metis less_imp_le not_None_eq order_refl)
  with \<open>a < m\<close> Suc.prems show ?case
    by (auto simp: attempt_loop_fail intro!: Suc.hyps(1)) (use Suc.hyps(2) in auto)
qed

definition attempts_ok :: "queue_config \<Rightarrow> outcome \<Rightarrow> bool" where
  "attempts_ok cfg r \<longleftrightarrow> 0 \<le> o_attempts r \<and> o_attempts r \<le> max 0 (MaxRetries cfg + 1)"

lemma run_task_attempts: "attempts_ok cfg (run_task handler cfg t)"
proof -
  have "a \<le> fst (attempt_loop h m a s e) \<and> fst (attempt_loop h m a s e) \<le> max a (m + 1)"
    for h m a s e
  proof (induction h m a s e rule: attempt_loop.induct)
    case (1 h m a s e)
    show ?case
    proof (cases "a \<le> m")
      case True
      with 1 show ?thesis
        by (cases "h a") (fastforce simp: attempt_loop_ok attempt_loop_fail)+
    qed (simp add: attempt_loop_past)
  qed
  from this [of 0 handler "MaxRetries cfg" 0 None]
  show ?thesis by (simp add: run_task_def attempts_ok_def split_beta Let_def)
qed

lemma run_task_task [simp]: "o_task (run_task handler cfg t) = t"
  by (simp add: run_task_def split_beta Let_def)

text \<open>
  A worker tries a task until the handler succeeds: if attempt \<open>k\<close> is the first one that
  succeeds and is within \<open>MaxRetries\<close>, it makes exactly \<open>k + 1\<close> attempts and reports
  success; if all \<open>MaxRetries + 1\<close> attempts fail, it makes them all and reports the last
  error.
\<close>

theorem run_task_retries:
  assumes "0 \<le> k" "k \<le> MaxRetries cfg" "\<forall>j. 0 \<le> j \<and> j < k \<longrightarrow> handler j \<noteq> None"
    and "handler k = None \<or> k = MaxRetries cfg"
  shows "o_attempts (run_task handler cfg t) = k + 1 \<and>
    o_error (run_task handler cfg t) = handler k \<and>
    logStatus (run_task handler cfg t) = (if handler k = None then ''SUCCESS'' else ''FAIL'')"
proof -
  have "\<exists>s'. attempt_loop handler (MaxRetries cfg) 0 0 None = (k + 1, s', handler k)"
  proof (cases "handler k = None")
    case True
    with assms attempt_loop_success [of 0 k "MaxRetries cfg" handler 0 None] show ?thesis by simp
  next
    case False
    with assms(4) have "k = MaxRetries cfg" by simp
    moreover from False assms(3) have "\<forall>j. 0 \<le> j \<and> j \<le> k \<longrightarrow> handler j \<noteq> None"
      by (metis order_le_less)
    ultimately show ?thesis
      using assms(1) attempt_loop_exhausted [of 0 k handler 0 None] by simp
  qed
  then show ?thesis by (auto simp: run_task_def logStatus_def)
qed

subsection \<open>The invariant of the queue\<close>

definition busy1 :: "worker \<Rightarrow> task list" where
  "busy1 w = (case w of WBusy t \<Rightarrow> [t] | _ \<Rightarrow> [])"

definition busy :: "worker list \<Rightarrow> task list" where
  "busy ws = concat (map busy1 ws)"

lemma busy1_simps [simp]: "busy1 WIdle = []" "busy1 WDone = []" "busy1 (WBusy t) = [t]"
  by (simp_all add: busy1_def)

lemma busy_update:
  "i < length ws \<Longrightarrow>
   mset (busy (ws[i := w])) + mset (busy1 (ws ! i)) = mset (busy ws) + mset (busy1 w)"
  by (induction ws arbitrary: i) (auto simp: busy_def ac_simps split: nat.split)

lemma busy_idle: "i < length ws \<Longrightarrow> ws ! i = WIdle \<Longrightarrow>
    mset (busy (ws[i := WBusy t])) = add_mset t (mset (busy ws))"
  using busy_update [of i ws "WBusy t"] by simp

lemma busy_done: "i < length ws \<Longrightarrow> ws ! i = WIdle \<Longrightarrow>
    mset (busy (ws[i := WDone])) = mset (busy ws)"
  using busy_update [of i ws WDone] by simp

lemma busy_finish: "i < length ws \<Longrightarrow> ws ! i = WBusy t \<Longrightarrow>
    add_mset t (mset (busy (ws[i := WIdle]))) = mset (busy ws)"
  using busy_update [of i ws WIdle] by simp

definition aq_lifecycle :: "async_queue \<Rightarrow> bool" where
  "aq_lifecycle aq \<longleftrightarrow>
     (cancelled aq \<longleftrightarrow> isClosed aq) \<and>
     (isClosed aq \<longleftrightarrow> shutting aq \<or> chanClosed aq) \<and>
     (chanClosed aq \<longrightarrow> \<not> shutting aq \<and> list_all (\<lambda>w. w = WDone) (workers aq))"

definition aq_accounts :: "async_queue \<Rightarrow> bool" where
  "aq_accounts aq \<longleftrightarrow>
     mset (accepted aq) = mset (tasks aq) + mset (busy (workers aq)) + mset (map o_task (handled aq)) \<and>
     suffix (tasks aq) (accepted aq)"

definition aq_bounds :: "queue_config \<Rightarrow> async_queue \<Rightarrow> bool" where
  "aq_bounds cfg aq \<longleftrightarrow>
     aq_config aq = cfg \<and> 0 \<le> QueueSize cfg \<and> int (length (tasks aq)) \<le> QueueSize cfg \<and>
     length (workers aq) = nat (WorkerCount cfg) \<and> list_all (attempts_ok cfg) (handled aq)"

definition aq_inv :: "queue_config \<Rightarrow> async_queue \<Rightarrow> bool" where
  "aq_inv cfg aq \<longleftrightarrow> aq_lifecycle aq \<and> aq_accounts aq \<and> aq_bounds cfg aq"

lemma aq_inv_new: "NewAsyncQueue cfg = Ret aq \<Longrightarrow> aq_inv cfg aq"
  by (auto simp: NewAsyncQueue_def aq_inv_def aq_lifecycle_def aq_accounts_def aq_bounds_def
      busy_def split: if_splits)

lemma Dispatch_cases:
  assumes "Dispatch receiver pick_done t aq = Ret (e, aq')"
  shows "e = None \<and> aq' = send receiver (with_timeout (aq_config aq) t) aq \<and> \<not> isClosed aq \<and>
      \<not> chanClosed aq \<and> (waiting receiver aq \<or> int (length (tasks aq)) < QueueSize (aq_config aq))
    \<or> e \<noteq> None \<and> aq' = aq"
  using assms by (auto simp: Dispatch_def send_ready_def Let_def split: if_splits)

lemma list_all_done_idle: "list_all (\<lambda>w. w = WDone) ws \<Longrightarrow> i < length ws \<Longrightarrow> ws ! i \<noteq> WIdle"
  by (auto simp: list_all_length)

lemma list_all_done_busy: "list_all (\<lambda>w. w = WDone) ws \<Longrightarrow> i < length ws \<Longrightarrow> ws ! i \<noteq> WBusy t"
  by (auto simp: list_all_length)

lemma aq_inv_send:
  assumes "aq_inv cfg aq" "\<not> isClosed aq"
    and "waiting receiver aq \<or> int (length (tasks aq)) < QueueSize (aq_config aq)"
  shows "aq_inv cfg (send receiver t aq)"
proof (cases "waiting receiver aq")
  case True
  then obtain i where "receiver = Some i" "tasks aq = []" "i < length (workers aq)"
    "workers aq ! i = WIdle"
    by (auto simp: waiting_def split: option.splits)
  with assms True show ?thesis
    by (auto simp: send_def aq_inv_def aq_lifecycle_def aq_accounts_def aq_bounds_def busy_idle)
next
  case False
  with assms show ?thesis
    by (auto simp: send_def aq_inv_def aq_lifecycle_def aq_accounts_def aq_bounds_def)
qed

lemma aq_inv_take:
  assumes "aq_inv cfg aq" "i < length (workers aq)" "workers aq ! i = WIdle" "tasks aq = t # ts"
  shows "aq_inv cfg (take_task i aq)"
proof -
  have "\<not> chanClosed aq"
    using assms list_all_done_idle by (auto simp: aq_inv_def aq_lifecycle_def)
  with assms show ?thesis
    by (auto simp: take_task_def aq_inv_def aq_lifecycle_def aq_accounts_def aq_bounds_def busy_idle
        dest: suffix_ConsD)
qed

lemma aq_inv_finish:
  assumes "aq_inv cfg aq" "i < length (workers aq)" "workers aq ! i = WBusy t"
  shows "aq_inv cfg (finish_task handler i t aq)"
proof -
  have "\<not> chanClosed aq"
    using assms list_all_done_busy by (auto simp: aq_inv_def aq_lifecycle_def)
  with assms busy_finish [OF assms(2,3)] show ?thesis
    by (auto simp: finish_task_def aq_inv_def aq_lifecycle_def aq_accounts_def aq_bounds_def
        run_task_attempts)
qed

lemma aq_inv_leave:
  assumes "aq_inv cfg aq" "i < length (workers aq)" "workers aq ! i = WIdle"
  shows "aq_inv cfg (aq\<lparr>workers := (workers aq)[i := WDone]\<rparr>)"
proof -
  have "\<not> chanClosed aq"
    using assms list_all_done_idle by (auto simp: aq_inv_def aq_lifecycle_def)
  with assms show ?thesis
    by (auto simp: aq_inv_def aq_lifecycle_def aq_accounts_def aq_bounds_def busy_done)
qed

lemma aq_inv_step: "aq_step aq aq' \<Longrightarrow> aq_inv cfg aq \<Longrightarrow> aq_inv cfg aq'"
proof (induction rule: aq_step.induct)
  case (dispatch aq receiver pick_done t e aq')
  then show ?case using Dispatch_cases aq_inv_send by blast
next
  case (take_one i aq)
  then show ?case by (cases "tasks aq") (simp_all add: aq_inv_take)
next
  case (take_zero i aq)
  then show ?case using list_all_done_idle by (auto simp: aq_inv_def aq_lifecycle_def)
next
  case (shut_begin aq)
  then show ?case
    by (auto simp: Shutdown_begin_def aq_inv_def aq_lifecycle_def aq_accounts_def aq_bounds_def)
next
  case (shut_end aq)
  then show ?case
    by (auto simp: Shutdown_end_def aq_inv_def aq_lifecycle_def aq_accounts_def aq_bounds_def)
qed (simp_all add: aq_inv_finish aq_inv_leave)

lemma aq_reachable_inv: "aq_reachable cfg aq \<Longrightarrow> aq_inv cfg aq"
  by (induction rule: aq_reachable.induct) (auto intro: aq_inv_new aq_inv_step)


text \<open>
  C15. However dispatches, workers and a shutdown interleave, every accepted task is in exactly
  one place: waiting in the channel, with one worker, or handled once; the channel holds at
  most \<open>QueueSize\<close> tasks, the ones accepted last in the order of acceptance; and no task is
  tried more than \<open>MaxRetries + 1\<close> times.
\<close>

theorem queue_conserves_tasks:
  assumes "aq_reachable cfg aq"
  shows "mset (accepted aq) =
      mset (tasks aq) + mset (busy (workers aq)) + mset (map o_task (handled aq)) \<and>
    suffix (tasks aq) (accepted aq) \<and> int (length (tasks aq)) \<le> QueueSize cfg \<and>
    list_all (\<lambda>r. 0 \<le> o_attempts r \<and> o_attempts r \<le> max 0 (MaxRetries cfg + 1)) (handled aq)"
proof -
  have "(\<lambda>r. 0 \<le> o_attempts r \<and> o_attempts r \<le> max 0 (MaxRetries cfg + 1)) = attempts_ok cfg"
    by (rule ext) (simp add: attempts_ok_def)
  then show ?thesis
    using aq_reachable_inv [OF assms] by (simp add: aq_inv_def aq_accounts_def aq_bounds_def)
qed

text \<open>
  \<open>Dispatch\<close> never panics (it never sends on the closed channel) and answers by three
  cases only: refused because the queue is closed, accepted with the default timeout filled
  in, or refused because the channel is full; the context error cannot occur.
\<close>

theorem Dispatch_result:
  assumes "aq_reachable cfg aq" "\<not> shutting aq"
  shows "Dispatch receiver pick_done t aq =
    (if isClosed aq then Ret (Some QueueClosed, aq)
     else if waiting receiver aq \<or> int (length (tasks aq)) < QueueSize cfg
     then Ret (None, send receiver (with_timeout cfg t) aq)
     else Ret (Some (QueueFull (QueueSize cfg)), aq))"
  using aq_reachable_inv [OF assms(1)] assms(2)
  by (auto simp: Dispatch_def send_ready_def aq_inv_def aq_lifecycle_def aq_bounds_def Let_def)

text \<open>
  Shutdown is clean: once the channel is closed every worker has left its loop, so no
  worker receives the zero task from the closed channel and nothing can change the queue any
  more; every later \<open>Dispatch\<close> is refused.
\<close>

theorem queue_closed_final:
  assumes "aq_reachable cfg aq" "chanClosed aq" "aq_step aq aq'"
  shows "aq' = aq \<and> list_all (\<lambda>w. w = WDone) (workers aq) \<and>
    Dispatch receiver pick_done t aq = Ret (Some QueueClosed, aq)"
proof -
  have life: "aq_lifecycle aq" using aq_reachable_inv [OF assms(1)] by (simp add: aq_inv_def)
  with assms(2) have closed: "isClosed aq" "\<not> shutting aq" "list_all (\<lambda>w. w = WDone) (workers aq)"
    by (auto simp: aq_lifecycle_def)
  from assms(3) have "aq' = aq"
    by (rule aq_stepE)
      (use closed list_all_done_idle list_all_done_busy in
        \<open>auto simp: Dispatch_def Shutdown_begin_def\<close>)
  with closed show ?thesis by (simp add: Dispatch_def)
qed

subsection \<open>A concrete queue\<close>

definition sample_queue_config :: queue_config where
  "sample_queue_config = \<lparr>QueueSize = 1, WorkerCount = 1, MaxRetries = 1, DefaultTimeout = 100\<rparr>"

definition sample_task :: task where
  "sample_task = \<lparr>t_TraceId = [], t_Method = ''POST'', t_URL = ''/v1/load/stats'', t_Body = JNull,
     t_Timeout = 0, t_HashKey = ''k''\<rparr>"

definition sample_queue :: async_queue where
  "sample_queue = \<lparr>aq_config = sample_queue_config, tasks = [], chanClosed = False, cancelled = False,
     isClosed = False, shutting = False, workers = [WIdle], accepted = [], handled = []\<rparr>"

definition sample_queue1 :: async_queue where
  "sample_queue1 = sample_queue\<lparr>tasks := [sample_task\<lparr>t_Timeout := 100\<rparr>],
     accepted := [sample_task\<lparr>t_Timeout := 100\<rparr>]\<rparr>"

definition sample_queue_closed :: async_queue where
  "sample_queue_closed = sample_queue\<lparr>cancelled := True, isClosed := True, chanClosed := True,
     workers := [WDone]\<rparr>"

lemma sample_queue_reachable: "aq_reachable sample_queue_config sample_queue"
  by (rule aq_reachable.start)
    (simp add: NewAsyncQueue_def sample_queue_def sample_queue_config_def)

lemma sample_queue1_dispatch:
  "Dispatch None False sample_task sample_queue = Ret (None, sample_queue1)"
  by (simp add: Dispatch_def sample_queue_def sample_queue1_def sample_queue_config_def send_ready_def
      waiting_def send_def with_timeout_def sample_task_def Let_def)

lemma sample_queue1_reachable: "aq_reachable sample_queue_config sample_queue1"
  by (rule aq_reachable.step [OF sample_queue_reachable aq_step.dispatch [OF _ sample_queue1_dispatch]])
    (simp add: sample_queue_def)

lemma sample_queue_closed_reachable: "aq_reachable sample_queue_config sample_queue_closed"
proof -
  let ?begun = "Shutdown_begin sample_queue"
  let ?left = "?begun\<lparr>workers := (workers ?begun)[0 := WDone]\<rparr>"
  have "aq_step sample_queue ?begun"
    by (rule aq_step.shut_begin) (simp add: sample_queue_def)
  moreover have "aq_step ?begun ?left"
    by (rule aq_step.leave) (simp_all add: Shutdown_begin_def sample_queue_def)
  moreover have "aq_step ?left (Shutdown_end ?left)"
    by (rule aq_step.shut_end) (simp_all add: Shutdown_begin_def sample_queue_def)
  moreover have "Shutdown_end ?left = sample_queue_closed"
    by (simp add: Shutdown_end_def Shutdown_begin_def sample_queue_def sample_queue_closed_def)
  ultimately show ?thesis
    using sample_queue_reachable by (metis aq_reachable.step)
qed

theorem run_task_retries_witness:
  "o_attempts (run_task (\<lambda>a. if a = 0 then Some ''timeout'' else None) sample_queue_config sample_task) = 2"
proof -
  have "\<forall>j::int. 0 \<le> j \<and> j < 1 \<longrightarrow> (\<lambda>a. if a = 0 then Some ''timeout'' else None) j \<noteq> None" by simp
  then show ?thesis
    using run_task_retries [of 1 sample_queue_config "\<lambda>a. if a = 0 then Some ''timeout'' else None"
        sample_task]
    by (simp add: sample_queue_config_def)
qed

theorem queue_conserves_tasks_witness:
  "mset (accepted sample_queue1) = mset (tasks sample_queue1) + mset (busy (workers sample_queue1)) +
     mset (map o_task (handled sample_queue1))"
  using queue_conserves_tasks [OF sample_queue1_reachable] by blast

theorem Dispatch_result_witness:
  "Dispatch None False sample_task sample_queue1 = Ret (Some (QueueFull 1), sample_queue1)"
proof -
  have "\<not> shutting sample_queue1" by (simp add: sample_queue1_def sample_queue_def)
  from Dispatch_result [OF sample_queue1_reachable this, of None False sample_task]
  show ?thesis by (simp add: sample_queue1_def sample_queue_def sample_queue_config_def waiting_def)
qed

theorem queue_closed_final_witness:
  "Dispatch None False sample_task sample_queue_closed = Ret (Some QueueClosed, sample_queue_closed)"
proof -
  have "chanClosed sample_queue_closed" by (simp add: sample_queue_closed_def)
  moreover have "aq_step sample_queue_closed sample_queue_closed"
    by (rule aq_step.dispatch [of _ None False sample_task "Some QueueClosed"])
      (simp_all add: sample_queue_closed_def sample_queue_def Dispatch_def)
  ultimately show ?thesis
    using queue_closed_final [OF sample_queue_closed_reachable] by blast
qed

subsection \<open>The interface\<close>

text \<open>
  What the metadata center relies on when it hands a task over: an accepted task is recorded
  once, with its timeout filled in, and a refused one leaves no trace.
\<close>

locale task_sink =
  fixes submit :: "task \<Rightarrow> 'q \<Rightarrow> dispatch_error option \<times> 'q"
    and record_of :: "'q \<Rightarrow> task list"
    and fill :: "'q \<Rightarrow> task \<Rightarrow> task"
  assumes submit_accepted: "submit t q = (None, q') \<Longrightarrow> record_of q' = record_of q @ [fill q t]"
    and submit_refused: "submit t q = (Some e, q') \<Longrightarrow> q' = q"
    and fill_keeps: "t_HashKey (fill q t) = t_HashKey t" "t_Method (fill q t) = t_Method t"
      "t_URL (fill q t) = t_URL t" "t_Body (fill q t) = t_Body t" "t_TraceId (fill q t) = t_TraceId t"

text \<open>\<open>pick\<close> names the worker that waits for the task, if one does.\<close>

definition enqueue ::
    "(async_queue \<Rightarrow> nat option) \<Rightarrow> task \<Rightarrow> async_queue \<Rightarrow> dispatch_error option \<times> async_queue" where
  "enqueue pick t aq = (case Dispatch (pick aq) False t aq of Ret r \<Rightarrow> r | Panic \<Rightarrow> (Some ContextCanceled, aq))"

definition fill_in :: "async_queue \<Rightarrow> task \<Rightarrow> task" where
  "fill_in aq t = with_timeout (aq_config aq) t"

interpretation queue_sink: task_sink "enqueue pick" accepted fill_in
  by unfold_locales
    (auto simp: enqueue_def fill_in_def with_timeout_def Dispatch_def send_def waiting_def Let_def
      split: if_splits run.splits)

end
