(* ===== verification/Common.thy ===== *)
theory Common
  imports GoStd
begin

text \<open>
  \<^verbatim>\<open>pkg/common/common.go\<close>: reading numbers from the environment, and typed values in a
  request context.

  The environment maps names to values, the empty string for an unset one, as
  \<^verbatim>\<open>os.Getenv\<close> answers.  A context is a partial map from keys to values; a key is its
  type and its text, so keys of the types \<^verbatim>\<open>common.LBCtxKey\<close> and \<^verbatim>\<open>mctypes.CtxKey\<close>
  differ even when their texts agree.
\<close>

type_synonym environment = "string \<Rightarrow> string"

definition GetIntFromEnv :: "environment \<Rightarrow> string \<Rightarrow> int \<Rightarrow> int" where
  "GetIntFromEnv env name defaultValue =
     (if env name \<noteq> [] then (case atoi (env name) of Some d \<Rightarrow> d | None \<Rightarrow> defaultValue)
      else defaultValue)"

definition GetDurationFromEnv :: "environment \<Rightarrow> string \<Rightarrow> duration \<Rightarrow> duration" where
  "GetDurationFromEnv env name defaultValue =
     (if env name \<noteq> [] then (case parse_duration (env name) of Some d \<Rightarrow> d | None \<Rightarrow> defaultValue)
      else defaultValue)"

datatype ctx_key = LBCtxKey string | McCtxKey string

text \<open>The dynamic types of the values the code stores in a context.\<close>

datatype any =
    AString string
  | AInt int
  | ABool bool
  | AHashes "64 word list"
  | ASelector "(string \<times> string) list"
  | AMatchInfo rat
  | ACallbacks

type_synonym ctx = "ctx_key \<Rightarrow> any option"

definition background :: ctx where
  "background = Map.empty"

definition WithValue :: "ctx \<Rightarrow> ctx_key \<Rightarrow> any \<Rightarrow> ctx" where
  "WithValue ctx key v = ctx(key \<mapsto> v)"

lemma WithValue_lookup [simp]: "WithValue ctx key v k = (if k = key then Some v else ctx k)"
  by (simp add: WithValue_def)

text \<open>The type assertions: one projection for each type a caller asks for.\<close>

definition as_string :: "any \<Rightarrow> string option" where
  "as_string v = (case v of AString s \<Rightarrow> Some s | _ \<Rightarrow> None)"

definition as_int :: "any \<Rightarrow> int option" where
  "as_int v = (case v of AInt i \<Rightarrow> Some i | _ \<Rightarrow> None)"

definition as_bool :: "any \<Rightarrow> bool option" where
  "as_bool v = (case v of ABool b \<Rightarrow> Some b | _ \<Rightarrow> None)"

definition as_hashes :: "any \<Rightarrow> 64 word list option" where
  "as_hashes v = (case v of AHashes hs \<Rightarrow> Some hs | _ \<Rightarrow> None)"

definition as_selector :: "any \<Rightarrow> (string \<times> string) list option" where
  "as_selector v = (case v of ASelector m \<Rightarrow> Some m | _ \<Rightarrow> None)"

lemma as_simps [simp]:
  "as_string (AString s) = Some s" "as_int (AInt i) = Some i" "as_bool (ABool b) = Some b"
  "as_hashes (AHashes hs) = Some hs" "as_selector (ASelector m) = Some m"
  by (simp_all add: as_string_def as_int_def as_bool_def as_hashes_def as_selector_def)

definition MustGetValueFromCtx :: "(any \<Rightarrow> 'a option) \<Rightarrow> ctx \<Rightarrow> string \<Rightarrow> 'a run" where
  "MustGetValueFromCtx as m key =
     (case m (LBCtxKey key) of
        None \<Rightarrow> Panic
      | Some v \<Rightarrow> (case as v of None \<Rightarrow> Panic | Some x \<Rightarrow> Ret x))"

definition GetValueFromCtx :: "(any \<Rightarrow> 'a option) \<Rightarrow> ctx \<Rightarrow> string \<Rightarrow> 'a \<Rightarrow> 'a" where
  "GetValueFromCtx as m key defaultValue =
     (case m (LBCtxKey key) of
        None \<Rightarrow> defaultValue
      | Some value \<Rightarrow> (case as value of None \<Rightarrow> defaultValue | Some v \<Rightarrow> v))"

lemma GetValueFromCtx_simps [simp]:
  "m (LBCtxKey key) = None \<Longrightarrow> GetValueFromCtx as m key d = d"
  "m (LBCtxKey key) = Some v \<Longrightarrow> as v = Some x \<Longrightarrow> GetValueFromCtx as m key d = x"
  by (simp_all add: GetValueFromCtx_def)

end
