(* ===== verification/MetadataCenter.thy ===== *)
theory MetadataCenter
  imports Common AsyncRequest ServiceDiscovery
begin

text \<open>
  \<^verbatim>\<open>pkg/metadata_center/metadata_center.go\<close> and \<^verbatim>\<open>utils.go\<close>: the client of the metadata
  center.  Load changes (\<open>AddRequest\<close>, \<open>DeleteRequest\<close>, \<open>DeleteRequestPrompt\<close>) and cache
  entries are handed to the asynchronous queue as tasks; load and cache queries are sent at
  once, with failover over the hosts the service discovery offers.

  The queue is used through its \<open>submit\<close> operation and the discovery through the operations
  of \<^verbatim>\<open>types.Service\<close>; the network is a function from the request sent to what
  \<^verbatim>\<open>http.Client.Do\<close> and \<^verbatim>\<open>io.ReadAll\<close> make of it, and \<open>parse\<close> is the syntax of
  JSON (bytes to a value).  Decoding the value into the response structs is modelled.
\<close>

definition DefaultTopK :: int where "DefaultTopK = 10"
definition DefaultChunkLen :: int where "DefaultChunkLen = 512"
definition MetaDataCenterLoadPath :: string where "MetaDataCenterLoadPath = ''/v1/load/stats''"
definition MetaDataCenterLoadPromptLength :: string where
  "MetaDataCenterLoadPromptLength = ''/v1/load/prompt''"
definition MetaDataCenterCacheFetchPath :: string where
  "MetaDataCenterCacheFetchPath = ''/v1/cache/query''"
definition MetaDataCenterCacheSavePath :: string where
  "MetaDataCenterCacheSavePath = ''/v1/cache/save''"
definition MetaCenterTraceId :: string where "MetaCenterTraceId = ''metacenter.traceId''"

record inference_request =
  ir_RequestId :: string
  ir_Cluster :: string
  ir_PromptLength :: int
  ir_Ip :: string
  ir_TimeStamp :: int
  ir_TraceId :: string

definition marshal_inference_request :: "inference_request \<Rightarrow> json" where
  "marshal_inference_request r =
     JObj ([(''request_id'', JStr (ir_RequestId r)), (''cluster'', JStr (ir_Cluster r))] @
           (if ir_PromptLength r = 0 then [] else [(''prompt_length'', JInt (ir_PromptLength r))]) @
           [(''ip'', JStr (ir_Ip r))] @
           (if ir_TimeStamp r = 0 then [] else [(''timestamp'', JInt (ir_TimeStamp r))]))"

record engine_stats =
  es_Ip :: string
  es_QueuedReqNum :: int
  es_PromptLength :: int
  es_UpdatedTime :: int

record request_param =
  rp_TraceId :: string
  rp_HashKey :: string
  rp_Method :: string
  rp_Path :: string
  rp_Query :: "(string \<times> string) list"
  rp_Body :: json
  rp_Timeout :: duration

definition getPromptLength :: "bytes \<Rightarrow> int" where
  "getPromptLength prompt =
     (let l = int (length prompt)
      in if l = 0 then 0 else go_quot (l + DefaultChunkLen - 1) DefaultChunkLen)"

subsection \<open>Tasks for the asynchronous queue\<close>

definition trace_of :: "ctx \<Rightarrow> string" where
  "trace_of ctx = GetValueFromCtx as_string ctx MetaCenterTraceId []"

definition inference_task :: "string \<Rightarrow> string \<Rightarrow> inference_request \<Rightarrow> task" where
  "inference_task method url req =
     \<lparr>t_TraceId = ir_TraceId req, t_Method = method, t_URL = url,
      t_Body = marshal_inference_request req, t_Timeout = 0, t_HashKey = ir_Cluster req\<rparr>"

definition AddRequest ::
    "(task \<Rightarrow> 'q \<Rightarrow> dispatch_error option \<times> 'q) \<Rightarrow> go_time \<Rightarrow> ctx \<Rightarrow> string \<Rightarrow> string \<Rightarrow> string \<Rightarrow> int
     \<Rightarrow> 'q \<Rightarrow> dispatch_error option \<times> 'q" where
  "AddRequest submit now ctx requestId cluster ip promptLength q =
     (let req = \<lparr>ir_RequestId = requestId, ir_Cluster = cluster, ir_PromptLength = promptLength,
                 ir_Ip = ip, ir_TimeStamp = now, ir_TraceId = trace_of ctx\<rparr>
      in submit (inference_task ''POST'' MetaDataCenterLoadPath req) q)"

text \<open>The request of the two deletions: only the request id and the trace id are set.\<close>

definition delete_request :: "ctx \<Rightarrow> string \<Rightarrow> inference_request" where
  "delete_request ctx requestId =
     \<lparr>ir_RequestId = requestId, ir_Cluster = [], ir_PromptLength = 0, ir_Ip = [], ir_TimeStamp = 0,
      ir_TraceId = trace_of ctx\<rparr>"

definition DeleteRequest ::
    "(task \<Rightarrow> 'q \<Rightarrow> dispatch_error option \<times> 'q) \<Rightarrow> ctx \<Rightarrow> string \<Rightarrow> 'q \<Rightarrow> dispatch_error option \<times> 'q" where
  "DeleteRequest submit ctx requestId q =
     submit (inference_task ''DELETE'' MetaDataCenterLoadPath (delete_request ctx requestId)) q"

definition DeleteRequestPrompt ::
    "(task \<Rightarrow> 'q \<Rightarrow> dispatch_error option \<times> 'q) \<Rightarrow> ctx \<Rightarrow> string \<Rightarrow> 'q \<Rightarrow> dispatch_error option \<times> 'q" where
  "DeleteRequestPrompt submit ctx requestId q =
     submit (inference_task ''DELETE'' MetaDataCenterLoadPromptLength (delete_request ctx requestId)) q"

definition marshal_hashes :: "64 word list \<Rightarrow> json" where
  "marshal_hashes hs = JArr (map (\<lambda>h. JInt (uint h)) hs)"

definition SaveKVCache ::
    "(task \<Rightarrow> 'q \<Rightarrow> dispatch_error option \<times> 'q) \<Rightarrow> ctx \<Rightarrow> string \<Rightarrow> string \<Rightarrow> 64 word list
     \<Rightarrow> 'q \<Rightarrow> dispatch_error option \<times> 'q" where
  "SaveKVCache submit ctx cluster ip promptHash q =
     submit \<lparr>t_TraceId = trace_of ctx, t_Method = ''POST'', t_URL = MetaDataCenterCacheSavePath,
             t_Body = JObj [(''cluster'', JStr cluster), (''prompt_hash'', marshal_hashes promptHash),
                            (''ip'', JStr ip)],
             t_Timeout = 0, t_HashKey = cluster\<rparr> q"

subsection \<open>One request and its failover\<close>

record http_request =
  hr_Method :: string
  hr_URL :: string
  hr_Query :: "(string \<times> string) list"
  hr_TraceId :: string
  hr_Body :: json
  hr_Timeout :: duration

datatype http_result =
    CreateFailed string
  | DoFailed string
  | ReadFailed string
  | Response int bytes

definition build_request :: "int \<Rightarrow> string \<Rightarrow> request_param \<Rightarrow> http_request" where
  "build_request port host p =
     \<lparr>hr_Method = rp_Method p, hr_URL = ''http://'' @ host @ '':'' @ itoa port @ rp_Path p,
      hr_Query = rp_Query p, hr_TraceId = rp_TraceId p, hr_Body = rp_Body p, hr_Timeout = rp_Timeout p\<rparr>"

definition doSingleRequest ::
    "(http_request \<Rightarrow> http_result) \<Rightarrow> int \<Rightarrow> string \<Rightarrow> request_param \<Rightarrow> string + bytes" where
  "doSingleRequest net port host p =
     (case net (build_request port host p) of
        CreateFailed err \<Rightarrow> Inl (''request: create request failed, err:'' @ err)
      | DoFailed err \<Rightarrow> Inl (''request: metadata center http request failed, err: '' @ err)
      | ReadFailed err \<Rightarrow> Inl (''request: failed to read response body, err: '' @ err)
      | Response status b \<Rightarrow>
          (if status \<noteq> 200 then Inl (''unexpected status code '' @ itoa status @ '', body: '' @ b)
           else Inr b))"

text \<open>
  The client: the number of failovers and the port, and the observations made for the metrics
  \<^verbatim>\<open>metacenter_http_requests_total\<close> and \<^verbatim>\<open>metacenter_http_request_duration_us\<close>.
\<close>

record mc_client =
  failoverRetry :: int
  servicePort :: int
  observations :: "(string \<times> string \<times> string \<times> duration) list"

definition updateMetacenterMetrics ::
    "string \<Rightarrow> string \<Rightarrow> string \<Rightarrow> duration \<Rightarrow> mc_client \<Rightarrow> mc_client" where
  "updateMetacenterMetrics inst method path d c =
     c\<lparr>observations := observations c @ [(inst, method, path, d)]\<rparr>"

text \<open>
  The failover loop over the candidate hosts.  \<open>clk h\<close> is the time a failure of \<open>h\<close> is
  reported at, \<open>elapsed h\<close> the microseconds since the start of the call.
\<close>

fun try_hosts ::
    "(string \<Rightarrow> 's \<Rightarrow> 's) \<Rightarrow> (go_time \<Rightarrow> string \<Rightarrow> 's \<Rightarrow> 's) \<Rightarrow> (http_request \<Rightarrow> http_result)
     \<Rightarrow> (string \<Rightarrow> go_time) \<Rightarrow> (string \<Rightarrow> duration) \<Rightarrow> request_param
     \<Rightarrow> string list \<Rightarrow> string \<Rightarrow> mc_client \<Rightarrow> 's \<Rightarrow> (string + bytes) \<times> mc_client \<times> 's" where
  "try_hosts rs rf net clk elapsed p [] lastErr c s = (Inl lastErr, c, s)"
| "try_hosts rs rf net clk elapsed p (h # hs) lastErr c s =
     (case doSingleRequest net (servicePort c) h p of
        Inr body \<Rightarrow>
          (Inr body, updateMetacenterMetrics h (rp_Method p) (rp_Path p) (elapsed h) c, rs h s)
      | Inl err \<Rightarrow> try_hosts rs rf net clk elapsed p hs err c (rf (clk h) h s))"

fun show_words :: "string list \<Rightarrow> string" where
  "show_words [] = []"
| "show_words [w] = w"
| "show_words (w # v # ws) = w @ '' '' @ show_words (v # ws)"

definition show_hosts :: "string list \<Rightarrow> string" where
  "show_hosts hs = ''['' @ show_words hs @ '']''"

definition doRequestWithRetry ::
    "(string \<Rightarrow> int \<Rightarrow> 's \<Rightarrow> string list \<times> 's) \<Rightarrow> (string \<Rightarrow> 's \<Rightarrow> 's)
     \<Rightarrow> (go_time \<Rightarrow> string \<Rightarrow> 's \<Rightarrow> 's) \<Rightarrow> (http_request \<Rightarrow> http_result)
     \<Rightarrow> (string \<Rightarrow> go_time) \<Rightarrow> (string \<Rightarrow> duration) \<Rightarrow> request_param
     \<Rightarrow> mc_client \<Rightarrow> 's \<Rightarrow> (string + bytes) \<times> mc_client \<times> 's" where
  "doRequestWithRetry gh rs rf net clk elapsed p c s =
     (let (cands, s1) = gh (rp_HashKey p) (failoverRetry c + 1) s in
      if length cands = 0 then (Inl ''no available host'', c, s1)
      else
        (let (r, c', s') = try_hosts rs rf net clk elapsed p cands [] c s1 in
         case r of
           Inr body \<Rightarrow> (Inr body, c', s')
         | Inl err \<Rightarrow> (Inl (''all '' @ itoa (int (length cands)) @ '' attempts failed for hosts '' @ show_hosts cands @ '', last error: '' @ err), c', s')))"

definition HandleRequest ::
    "(request_param \<Rightarrow> mc_client \<Rightarrow> 's \<Rightarrow> (string + bytes) \<times> mc_client \<times> 's)
     \<Rightarrow> task \<Rightarrow> mc_client \<Rightarrow> 's \<Rightarrow> string option \<times> mc_client \<times> 's" where
  "HandleRequest do_req t c s =
     (let (r, c', s') = do_req \<lparr>rp_TraceId = t_TraceId t, rp_HashKey = t_HashKey t,
              rp_Method = t_Method t, rp_Path = t_URL t, rp_Query = [], rp_Body = t_Body t,
              rp_Timeout = t_Timeout t\<rparr> c s
      in case r of
           Inl err \<Rightarrow> (Some (''handel async request: metadata center request failed, respBody:, err:'' @ err), c', s')
         | Inr body \<Rightarrow> (None, c', s'))"


subsection \<open>Queries\<close>

definition decode_engine :: "json \<Rightarrow> engine_stats option" where
  "decode_engine j =
     (case j of
        JObj ms \<Rightarrow>
          (case (decode_string (member ms ''ip''), decode_int 32 (member ms ''queued_req_num''),
                 decode_int 32 (member ms ''prompt_length''), decode_int 64 (member ms ''updated_time'')) of
             (Some ip, Some n, Some l, Some t) \<Rightarrow>
               Some \<lparr>es_Ip = ip, es_QueuedReqNum = n, es_PromptLength = l, es_UpdatedTime = t\<rparr>
           | _ \<Rightarrow> None)
      | JNull \<Rightarrow> Some \<lparr>es_Ip = [], es_QueuedReqNum = 0, es_PromptLength = 0, es_UpdatedTime = 0\<rparr>
      | _ \<Rightarrow> None)"

text \<open>The fields of the embedded \<open>MetaCenterResponse\<close>, of which only the types matter.\<close>

definition decode_status :: "(string \<times> json) list \<Rightarrow> bool" where
  "decode_status ms \<longleftrightarrow>
     decode_string (member ms ''status'') \<noteq> None \<and> decode_string (member ms ''trace_id'') \<noteq> None \<and>
     (case member ms ''error'' of
        JNull \<Rightarrow> True
      | JObj es \<Rightarrow> decode_int 64 (member es ''code'') \<noteq> None \<and>
          decode_string (member es ''message'') \<noteq> None \<and> decode_string (member es ''reason'') \<noteq> None
      | _ \<Rightarrow> False)"

definition decode_metric_response :: "json \<Rightarrow> engine_stats list option" where
  "decode_metric_response j =
     (case j of
        JObj ms \<Rightarrow> (if decode_status ms then decode_array decode_engine (member ms ''data'') else None)
      | JNull \<Rightarrow> Some []
      | _ \<Rightarrow> None)"

definition revisePromptLength :: "int \<Rightarrow> int" where
  "revisePromptLength len = (if len < 0 then 0 else len)"

definition stats_of_engine :: "engine_stats \<Rightarrow> endpoint_stats" where
  "stats_of_engine e =
     \<lparr>PrefillReqs = 0, TotalReqs = es_QueuedReqNum e, PromptLength = revisePromptLength (es_PromptLength e)\<rparr>"

definition collect_stats :: "engine_stats list \<Rightarrow> string \<Rightarrow> endpoint_stats option" where
  "collect_stats es = foldl (\<lambda>m e. m(es_Ip e \<mapsto> stats_of_engine e)) Map.empty es"

definition GetMetaDataCenterFetchMetricTimeout :: "environment \<Rightarrow> int" where
  "GetMetaDataCenterFetchMetricTimeout env =
     GetIntFromEnv env ''AIGW_METADATA_CENTER_FETCH_METRIC_TIMEOUT'' 100"

definition GetMetaDataCenterFetchCacheTimeout :: "environment \<Rightarrow> int" where
  "GetMetaDataCenterFetchCacheTimeout env = GetIntFromEnv env ''AIGW_META_DATA_CACHE_FETCH_TIMEOUT'' 100"

definition QueryLoad ::
    "(request_param \<Rightarrow> mc_client \<Rightarrow> 's \<Rightarrow> (string + bytes) \<times> mc_client \<times> 's) \<Rightarrow> (bytes \<Rightarrow> json option)
     \<Rightarrow> environment \<Rightarrow> ctx \<Rightarrow> string \<Rightarrow> mc_client \<Rightarrow> 's
     \<Rightarrow> (string + (string \<Rightarrow> endpoint_stats option)) \<times> mc_client \<times> 's" where
  "QueryLoad do_req parse env ctx cluster c s =
     (let (r, c', s') = do_req
            \<lparr>rp_TraceId = trace_of ctx, rp_HashKey = cluster, rp_Method = ''GET'',
             rp_Path = MetaDataCenterLoadPath, rp_Query = [(''cluster'', cluster)], rp_Body = JNull,
             rp_Timeout = wrap64 (GetMetaDataCenterFetchMetricTimeout env * 10 ^ 6)\<rparr> c s
      in case r of
           Inl err \<Rightarrow> (Inl (''failed to read response body: '' @ err), c', s')
         | Inr body \<Rightarrow>
             (case Option.bind (parse body) decode_metric_response of
                None \<Rightarrow> (Inl ''load request: parse metric response error'', c', s')
              | Some es \<Rightarrow> (Inr (collect_stats es), c', s')))"

text \<open>
  The locations of a cache answer are pointers: a \<open>null\<close> in the list decodes to a nil pointer,
  and reading its fields panics.
\<close>

definition decode_location :: "json \<Rightarrow> kvcache_location option option" where
  "decode_location j =
     (case j of
        JObj ms \<Rightarrow>
          (case (decode_string (member ms ''ip''), decode_int 64 (member ms ''length'')) of
             (Some ip, Some l) \<Rightarrow> Some (Some \<lparr>loc_ip = ip, loc_length = l\<rparr>)
           | _ \<Rightarrow> None)
      | JNull \<Rightarrow> Some None
      | _ \<Rightarrow> None)"

definition decode_cache_response :: "json \<Rightarrow> kvcache_location option list option" where
  "decode_cache_response j =
     (case j of
        JObj ms \<Rightarrow>
          (if decode_status ms then
             (case member ms ''data'' of
                JObj ds \<Rightarrow> decode_array decode_location (member ds ''locations'')
              | JNull \<Rightarrow> Some []
              | _ \<Rightarrow> None)
           else None)
      | JNull \<Rightarrow> Some []
      | _ \<Rightarrow> None)"

fun copy_locations :: "kvcache_location option list \<Rightarrow> kvcache_location list run" where
  "copy_locations [] = Ret []"
| "copy_locations (None # ls) = Panic"
| "copy_locations (Some l # ls) = run_bind (copy_locations ls) (\<lambda>rs. Ret (l # rs))"

definition QueryKVCache ::
    "(request_param \<Rightarrow> mc_client \<Rightarrow> 's \<Rightarrow> (string + bytes) \<times> mc_client \<times> 's) \<Rightarrow> (bytes \<Rightarrow> json option)
     \<Rightarrow> environment \<Rightarrow> ctx \<Rightarrow> string \<Rightarrow> 64 word list \<Rightarrow> int \<Rightarrow> mc_client \<Rightarrow> 's
     \<Rightarrow> (string + kvcache_location list) run \<times> mc_client \<times> 's" where
  "QueryKVCache do_req parse env ctx cluster promptHash topK c s =
     (let (r, c', s') = do_req
            \<lparr>rp_TraceId = trace_of ctx, rp_HashKey = cluster, rp_Method = ''POST'',
             rp_Path = MetaDataCenterCacheFetchPath, rp_Query = [],
             rp_Body = JObj [(''cluster'', JStr cluster), (''prompt_hash'', marshal_hashes promptHash),
                             (''topk'', JInt topK)],
             rp_Timeout = wrap64 (GetMetaDataCenterFetchCacheTimeout env * 10 ^ 6)\<rparr> c s
      in case r of
           Inl err \<Rightarrow> (Ret (Inl (''failed to create cache request: '' @ err)), c', s')
         | Inr body \<Rightarrow>
             (case Option.bind (parse body) decode_cache_response of
                None \<Rightarrow> (Ret (Inl ''cache request: parse cache response error''), c', s')
              | Some ls \<Rightarrow> (run_bind (copy_locations ls) (\<lambda>rs. Ret (Inr rs)), c', s')))"

subsection \<open>Configuration\<close>

definition NewMetaDataCenterClient :: "environment \<Rightarrow> int \<Rightarrow> mc_client" where
  "NewMetaDataCenterClient env port =
     \<lparr>failoverRetry = GetIntFromEnv env ''AIGW_META_MAX_FAILOVER_RETRY'' 1, servicePort = port,
      observations = []\<rparr>"

definition NewMetaCenter :: "environment \<Rightarrow> int \<Rightarrow> (mc_client \<times> async_queue) run" where
  "NewMetaCenter env port =
     (let client = NewMetaDataCenterClient env port;
          timeout = GetIntFromEnv env ''AIGW_METADATA_CENTER_UPDATE_STATS_TIMEOUT'' 100;
          cfg = \<lparr>QueueSize = GetIntFromEnv env ''AIGW_METADATA_CENTER_QUEUE_SIZE'' 1000,
                 WorkerCount = GetIntFromEnv env ''AIGW_METADATA_CENTER_WORKER_COUNT'' 100,
                 MaxRetries = GetIntFromEnv env ''AIGW_METADATA_CENTER_MAX_RETRY'' 0,
                 DefaultTimeout = wrap64 (timeout * 10 ^ 6)\<rparr>
      in run_bind (NewAsyncQueue cfg) (\<lambda>q. Ret (client, q)))"

definition CreateSimpleService ::
    "environment \<Rightarrow> (string \<Rightarrow> bool) \<Rightarrow> go_time \<Rightarrow> (string \<Rightarrow> int option) \<Rightarrow> breaker discovery run" where
  "CreateSimpleService env is_ip now g =
     NewSimpleService is_ip NewCircuitBreaker State now g
       \<lparr>Host = env ''AIGW_META_DATA_CENTER_HOST'',
        Port = GetIntFromEnv env ''AIGW_META_DATA_CENTER_PORT'' 80,
        LookupInterval = GetDurationFromEnv env ''AIGW_META_DATA_CENTER_DNS_LOOKUP_INTERVAL'' (5 * 10 ^ 9),
        ColdStartDelay = GetDurationFromEnv env ''AIGW_META_COLD_START_DELAY'' (10 * 60 * 10 ^ 9),
        EndpointFailureThreshold = GetIntFromEnv env ''AIGW_METADATA_CENTER_ENDPOINT_MAX_FAILURES'' 10,
        EndpointCooldownPeriod =
          GetDurationFromEnv env ''AIGW_METADATA_CENTER_ENDPOINT_COOLDOWN_SECONDS'' (5 * 10 ^ 9),
        EndpointHalfOpenRequests =
          GetIntFromEnv env ''AIGW_METADATA_CENTER_ENDPOINT_HALF_OPEN_REQUESTS'' 3\<rparr>"

text \<open>
  The switches of \<^verbatim>\<open>utils.go\<close>: package variables, computed once from the environment by
  the first call of \<open>IsMetaDataCenterEnable\<close>; \<open>IsMetaDataCenterCacheEnable\<close> only reads.
\<close>

record mc_switches =
  metaDataCenterEnable :: bool
  metaDataCenterEnableOnce :: bool
  metaDataCenterHost :: string
  metaDataCenterCacheEnable :: bool

definition initial_switches :: mc_switches where
  "initial_switches =
     \<lparr>metaDataCenterEnable = True, metaDataCenterEnableOnce = False, metaDataCenterHost = [],
      metaDataCenterCacheEnable = True\<rparr>"

definition compute_switches :: "environment \<Rightarrow> mc_switches \<Rightarrow> mc_switches" where
  "compute_switches env g =
     (let e = env ''AIGW_META_DATA_CENTER_ENABLE'' in
      if e \<noteq> [] \<and> parse_bool e = None then g
      else
        (let g1 = (if e \<noteq> [] then g\<lparr>metaDataCenterEnable := (parse_bool e = Some True)\<rparr> else g) in
         if \<not> metaDataCenterEnable g1 then g1
         else
           (let h = env ''AIGW_META_DATA_CENTER_HOST'' in
            if h = [] then g1\<lparr>metaDataCenterEnable := False\<rparr>
            else
              (let g2 = g1\<lparr>metaDataCenterHost := h\<rparr>;
                   ce = env ''AIGW_META_DATA_CENTER_CACHE_ENABLE''
               in if ce \<noteq> [] then
                    (case parse_bool ce of
                       Some d \<Rightarrow> g2\<lparr>metaDataCenterCacheEnable := d\<rparr>
                     | None \<Rightarrow> g2)
                  else g2))))"

definition IsMetaDataCenterEnable :: "environment \<Rightarrow> mc_switches \<Rightarrow> bool \<times> mc_switches" where
  "IsMetaDataCenterEnable env g =
     (let g' = (if metaDataCenterEnableOnce g then g
                else (compute_switches env g)\<lparr>metaDataCenterEnableOnce := True\<rparr>)
      in (metaDataCenterEnable g', g'))"

definition IsMetaDataCenterCacheEnable :: "mc_switches \<Rightarrow> bool" where
  "IsMetaDataCenterCacheEnable g = metaDataCenterCacheEnable g"


subsection \<open>Failover\<close>

definition attempt ::
    "(http_request \<Rightarrow> http_result) \<Rightarrow> mc_client \<Rightarrow> request_param \<Rightarrow> string \<Rightarrow> string + bytes" where
  "attempt net c p h = doSingleRequest net (servicePort c) h p"

definition report_failures ::
    "(go_time \<Rightarrow> string \<Rightarrow> 's \<Rightarrow> 's) \<Rightarrow> (string \<Rightarrow> go_time) \<Rightarrow> string list \<Rightarrow> 's \<Rightarrow> 's" where
  "report_failures rf clk hs s = foldl (\<lambda>s h. rf (clk h) h s) s hs"

lemma report_failures_simps [simp]:
  "report_failures rf clk [] s = s"
  "report_failures rf clk (h # hs) s = report_failures rf clk hs (rf (clk h) h s)"
  by (simp_all add: report_failures_def)

lemma try_hosts_cases:
  "(\<exists>pre h post body. hs = pre @ h # post \<and> (\<forall>g \<in> set pre. isl (attempt net c p g)) \<and>
      attempt net c p h = Inr body \<and>
      try_hosts rs rf net clk elapsed p hs e c s =
        (Inr body, updateMetacenterMetrics h (rp_Method p) (rp_Path p) (elapsed h) c,
         rs h (report_failures rf clk pre s))) \<or>
   (\<forall>g \<in> set hs. isl (attempt net c p g)) \<and>
   (\<exists>err. try_hosts rs rf net clk elapsed p hs e c s = (Inl err, c, report_failures rf clk hs s))"
proof (induction hs arbitrary: e s)
  case (Cons h hs)
  show ?case
  proof (cases "attempt net c p h")
    case (Inl err)
    from Cons.IH [of err "rf (clk h) h s"] show ?thesis
    proof (elim disjE exE conjE, goal_cases)
      case (1 pre g post body)
      with Inl show ?case
        by (intro disjI1 exI [of _ "h # pre"] exI [of _ g] exI [of _ post] exI [of _ body])
          (auto simp: attempt_def)
    next
      case (2 err')
      with Inl show ?case by (intro disjI2) (auto simp: attempt_def)
    qed
  next
    case (Inr body)
    then show ?thesis
      by (intro disjI1 exI [of _ "[]"] exI [of _ h] exI [of _ hs] exI [of _ body])
        (auto simp: attempt_def)
  qed
qed simp

context host_service begin

text \<open>The failover loop over the hosts of any service that keeps the contract.\<close>

lemma retry_outcome:
  assumes "valid s" "get_hosts (rp_HashKey p) (failoverRetry c + 1) s = (cands, s1)"
    and "doRequestWithRetry get_hosts report_success report_failure net clk elapsed p c s = (r, c', s')"
  shows "distinct cands \<and> int (length cands) \<le> max 0 (failoverRetry c + 1) \<and>
    ((\<exists>pre h post body. cands = pre @ h # post \<and> (\<forall>g \<in> set pre. isl (attempt net c p g)) \<and>
        attempt net c p h = Inr body \<and> r = Inr body \<and>
        c' = updateMetacenterMetrics h (rp_Method p) (rp_Path p) (elapsed h) c \<and>
        s' = report_success h (report_failures report_failure clk pre s1)) \<or>
     (\<forall>g \<in> set cands. isl (attempt net c p g)) \<and> isl r \<and> c' = c \<and>
        s' = report_failures report_failure clk cands s1)"
proof -
  have hosts: "distinct cands" "int (length cands) \<le> max 0 (failoverRetry c + 1)"
    using get_hosts_distinct [OF assms(1)] get_hosts_length [OF assms(1)] assms(2)
    by (metis fst_conv)+
  show ?thesis
  proof (cases "cands = []")
    case True
    with assms(2,3) hosts show ?thesis by (auto simp: doRequestWithRetry_def)
  next
    case False
    from try_hosts_cases [of cands net c p report_success report_failure clk elapsed "[]" s1]
    show ?thesis
    proof (elim disjE exE conjE, goal_cases)
      case (1 pre h post body)
      with False assms(2,3) have "r = Inr body"
        "c' = updateMetacenterMetrics h (rp_Method p) (rp_Path p) (elapsed h) c"
        "s' = report_success h (report_failures report_failure clk pre s1)"
        by (auto simp: doRequestWithRetry_def Let_def)
      with 1 hosts show ?case by blast
    next
      case (2 err)
      with False assms(2,3) have "isl r" "c' = c" "s' = report_failures report_failure clk cands s1"
        by (auto simp: doRequestWithRetry_def Let_def)
      with 2 hosts show ?case by blast
    qed
  qed
qed

lemma retry_succeeds_iff:
  assumes "valid s" "get_hosts (rp_HashKey p) (failoverRetry c + 1) s = (cands, s1)"
  shows "isl (fst (doRequestWithRetry get_hosts report_success report_failure net clk elapsed p c s))
    \<longleftrightarrow> (\<forall>g \<in> set cands. isl (attempt net c p g))"
proof -
  obtain r c' s' where call:
    "doRequestWithRetry get_hosts report_success report_failure net clk elapsed p c s = (r, c', s')"
    by (metis prod_cases3)
  from retry_outcome [OF assms call] show ?thesis unfolding call by auto
qed

end

definition metacenter_request ::
    "(string \<Rightarrow> go_time) \<Rightarrow> go_time \<Rightarrow> (http_request \<Rightarrow> http_result) \<Rightarrow> (string \<Rightarrow> go_time)
     \<Rightarrow> (string \<Rightarrow> duration) \<Rightarrow> request_param \<Rightarrow> mc_client \<Rightarrow> breaker discovery
     \<Rightarrow> (string + bytes) \<times> mc_client \<times> breaker discovery" where
  "metacenter_request bclk now net clk elapsed p c s =
     doRequestWithRetry (serve_hosts bclk now) (ReportSuccess RecordSuccess) (ReportFailure RecordFailure)
       net clk elapsed p c s"

text \<open>
  C12. A request to the metadata center tries at most \<open>failoverRetry + 1\<close> different hosts, in
  the order the discovery gives them, and stops at the first one that answers 200: that host's
  body is the result and it is reported as a success, after every host tried before it was
  reported as a failure; the hosts behind it are not touched.  If none answers 200, every host
  tried is reported as a failure and the request fails.
\<close>

theorem metacenter_failover:
  assumes "finite (known_hosts s)"
    and "serve_hosts bclk now (rp_HashKey p) (failoverRetry c + 1) s = (cands, s1)"
    and "metacenter_request bclk now net clk elapsed p c s = (r, c', s')"
  shows "distinct cands \<and> int (length cands) \<le> max 0 (failoverRetry c + 1) \<and>
    ((\<exists>pre h post body. cands = pre @ h # post \<and> (\<forall>g \<in> set pre. isl (attempt net c p g)) \<and>
        attempt net c p h = Inr body \<and> r = Inr body \<and>
        c' = updateMetacenterMetrics h (rp_Method p) (rp_Path p) (elapsed h) c \<and>
        s' = ReportSuccess RecordSuccess h
               (report_failures (ReportFailure RecordFailure) clk pre s1)) \<or>
     (\<forall>g \<in> set cands. isl (attempt net c p g)) \<and> isl r \<and> c' = c \<and>
        s' = report_failures (ReportFailure RecordFailure) clk cands s1)"
  by (rule discovery_service.retry_outcome [OF assms(1,2) assms(3) [unfolded metacenter_request_def]])

text \<open>
  Failover reaches every usable host: if the client may fail over as often as there are
  hosts that may be asked, a request succeeds as soon as one of them answers 200 - whatever the
  key, the other hosts' answers and the order of the node map.
\<close>

theorem metacenter_request_reaches_live_host:
  assumes "finite (known_hosts s)"
    and "int (card {h. candidates Allow bclk now s h}) \<le> failoverRetry c + 1"
    and "candidates Allow bclk now s h" "attempt net c p h = Inr body"
  shows "\<not> isl (fst (metacenter_request bclk now net clk elapsed p c s))"
proof -
  obtain cands s1 where hosts:
    "serve_hosts bclk now (rp_HashKey p) (failoverRetry c + 1) s = (cands, s1)" by force
  have "set cands = {h. candidates Allow bclk now s h}"
    using GetHosts_all [OF key_order_enumerates [OF assms(1)] assms(2), of "rp_HashKey p"] hosts
    by (simp add: serve_hosts_def)
  with assms(3,4) have "\<not> (\<forall>g \<in> set cands. isl (attempt net c p g))" by force
  then show ?thesis
    using discovery_service.retry_succeeds_iff [OF assms(1) hosts, of net clk elapsed]
    by (simp add: metacenter_request_def)
qed

definition sample_client :: mc_client where
  "sample_client = \<lparr>failoverRetry = 1, servicePort = 80, observations = []\<rparr>"

definition sample_param :: request_param where
  "sample_param = \<lparr>rp_TraceId = [], rp_HashKey = ''k'', rp_Method = ''GET'',
     rp_Path = MetaDataCenterLoadPath, rp_Query = [(''cluster'', ''k'')], rp_Body = JNull, rp_Timeout = 100\<rparr>"

text \<open>A network in which only the host \<open>b\<close> answers.\<close>

definition sample_net :: "http_request \<Rightarrow> http_result" where
  "sample_net r = (if has_prefix (hr_URL r) ''http://b:'' then Response 200 ''{}'' else DoFailed ''refused'')"

lemma sample_known: "finite (known_hosts sample_sd)"
  by (simp add: known_hosts_def sample_sd_def)

lemma sample_attempt:
  "attempt sample_net sample_client sample_param ''b'' = Inr ''{}''"
  "isl (attempt sample_net sample_client sample_param ''a'')"
  by (simp_all add: attempt_def doSingleRequest_def sample_net_def build_request_def has_prefix_def
      sample_client_def)

theorem metacenter_failover_witness:
  "length (fst (serve_hosts (\<lambda>_. 100) 100 ''k'' 2 sample_sd)) \<le> 2"
proof -
  obtain cands s1 where hosts: "serve_hosts (\<lambda>_. 100) 100 ''k'' 2 sample_sd = (cands, s1)" by force
  obtain r c' s' where call: "metacenter_request (\<lambda>_. 100) 100 sample_net (\<lambda>_. 100) (\<lambda>_. 7)
      sample_param sample_client sample_sd = (r, c', s')" by (metis prod_cases3)
  have "serve_hosts (\<lambda>_. 100) 100 (rp_HashKey sample_param) (failoverRetry sample_client + 1) sample_sd
      = (cands, s1)"
    using hosts by (simp add: sample_param_def sample_client_def)
  from metacenter_failover [OF sample_known this call] hosts show ?thesis
    by (simp add: sample_client_def)
qed

theorem metacenter_request_reaches_live_host_witness:
  "\<not> isl (fst (metacenter_request (\<lambda>_. 100) 100 sample_net (\<lambda>_. 100) (\<lambda>_. 7)
     sample_param sample_client sample_sd))"
proof (rule metacenter_request_reaches_live_host [OF sample_known])
  show "int (card {h. candidates Allow (\<lambda>_. 100) 100 sample_sd h}) \<le> failoverRetry sample_client + 1"
    by (simp add: sample_candidates sample_client_def)
  show "candidates Allow (\<lambda>_. 100) 100 sample_sd ''b''"
    using sample_candidates by blast
qed (rule sample_attempt)

subsection \<open>What the tasks say\<close>

context task_sink begin

lemma inference_recorded:
  assumes "submit (inference_task method url req) q = (None, q')"
  shows "\<exists>t. record_of q' = record_of q @ [t] \<and> t_HashKey t = ir_Cluster req \<and> t_Method t = method \<and>
    t_URL t = url \<and> t_Body t = marshal_inference_request req \<and> t_TraceId t = ir_TraceId req"
  using submit_accepted [OF assms] fill_keeps by (auto simp: inference_task_def)

end

text \<open>
  The task that adds a request to the metadata center is routed by the cluster name, the
  one that deletes it by the empty key: of two accepted calls the queue records, in order, a
  \<open>POST\<close> with hash key \<open>cluster\<close> and the full request, and a \<open>DELETE\<close> on the same path
  with an empty hash key that carries only the request id.
\<close>

theorem load_tasks_routing:
  assumes "AddRequest (enqueue pick) now ctx rid cluster ip n q = (None, q1)"
    and "DeleteRequest (enqueue pick) ctx rid q1 = (None, q2)"
  shows "\<exists>a d. accepted q2 = accepted q @ [a, d] \<and>
    t_Method a = ''POST'' \<and> t_Method d = ''DELETE'' \<and> t_URL a = t_URL d \<and>
    t_HashKey a = cluster \<and> t_HashKey d = [] \<and>
    t_Body a = marshal_inference_request
      \<lparr>ir_RequestId = rid, ir_Cluster = cluster, ir_PromptLength = n, ir_Ip = ip, ir_TimeStamp = now,
       ir_TraceId = trace_of ctx\<rparr> \<and>
    t_Body d = JObj [(''request_id'', JStr rid), (''cluster'', JStr []), (''ip'', JStr [])]"
proof -
  from queue_sink.inference_recorded [OF assms(1) [unfolded AddRequest_def Let_def]]
  obtain a where a: "accepted q1 = accepted q @ [a]" "t_HashKey a = cluster" "t_Method a = ''POST''"
    "t_URL a = MetaDataCenterLoadPath" "t_Body a = marshal_inference_request
      \<lparr>ir_RequestId = rid, ir_Cluster = cluster, ir_PromptLength = n, ir_Ip = ip, ir_TimeStamp = now,
       ir_TraceId = trace_of ctx\<rparr>" by auto
  from queue_sink.inference_recorded [OF assms(2) [unfolded DeleteRequest_def]]
  obtain d where "accepted q2 = accepted q1 @ [d]" "t_HashKey d = []" "t_Method d = ''DELETE''"
    "t_URL d = MetaDataCenterLoadPath"
    "t_Body d = JObj [(''request_id'', JStr rid), (''cluster'', JStr []), (''ip'', JStr [])]"
    by (auto simp: delete_request_def marshal_inference_request_def)
  with a show ?thesis by (intro exI [of _ a] exI [of _ d]) simp
qed

definition wide_queue :: async_queue where
  "wide_queue = sample_queue\<lparr>aq_config := sample_queue_config\<lparr>QueueSize := 5\<rparr>\<rparr>"

theorem load_tasks_routing_witness:
  "\<exists>q1 q2 a d. AddRequest (enqueue (\<lambda>_. None)) 1 background ''r'' ''qwen3'' ''10.0.0.1'' 7 wide_queue = (None, q1) \<and>
     DeleteRequest (enqueue (\<lambda>_. None)) background ''r'' q1 = (None, q2) \<and>
     accepted q2 = [a, d] \<and> t_HashKey a = ''qwen3'' \<and> t_HashKey d = []"
proof -
  define q1 where "q1 = snd (AddRequest (enqueue (\<lambda>_. None)) 1 background ''r'' ''qwen3'' ''10.0.0.1'' 7 wide_queue)"
  define q2 where "q2 = snd (DeleteRequest (enqueue (\<lambda>_. None)) background ''r'' q1)"
  have add: "AddRequest (enqueue (\<lambda>_. None)) 1 background ''r'' ''qwen3'' ''10.0.0.1'' 7 wide_queue = (None, q1)"
    and del: "DeleteRequest (enqueue (\<lambda>_. None)) background ''r'' q1 = (None, q2)"
    by (simp_all add: q1_def q2_def AddRequest_def DeleteRequest_def enqueue_def Dispatch_def Let_def
        wide_queue_def sample_queue_def sample_queue_config_def send_ready_def waiting_def send_def
        with_timeout_def inference_task_def)
  from load_tasks_routing [OF add del] show ?thesis
    using add del by (auto simp: wide_queue_def sample_queue_def)
qed

text \<open>
  The two calls can reach different metadata centers: with the hosts \<open>a\<close> and \<open>b\<close> both
  healthy, the host that the cluster \<open>qwen3.service\<close> adds a request at is not the host that
  its deletion is sent to, so the load it added stays.
\<close>

theorem delete_reaches_other_host:
  "fst (serve_hosts (\<lambda>_. 100) 100 ''qwen3.service'' 1 sample_sd) \<noteq>
   fst (serve_hosts (\<lambda>_. 100) 100 [] 1 sample_sd)"
proof -
  have order: "enumerates [''a'', ''b'', ''c''] sample_sd"
    by (auto simp: enumerates_def sample_sd_def)
  have cand: "candidates Allow (\<lambda>_. 100) 100 sample_sd h \<longleftrightarrow> h \<in> {''a'', ''b''}" for h
    using sample_candidates by (metis mem_Collect_eq)
  have hash: "unat (hashKey ''qwen3.service'' mod 2) = 0" "unat (hashKey [] mod 2) = 1"
    by code_simp+
  have "serve_hosts (\<lambda>_. 100) 100 key 1 sample_sd =
      GetHosts Allow (\<lambda>_. 100) 100 [''a'', ''b'', ''c''] key 1 sample_sd" for key
    using serve_hosts_order [OF order] by simp
  then show ?thesis
    by (simp add: GetHosts_eq [OF order] cand Let_def hash)
qed

subsection \<open>What the queries return\<close>

lemma collect_stats_last:
  "collect_stats es ip =
     (case filter (\<lambda>e. es_Ip e = ip) (rev es) of [] \<Rightarrow> None | e # _ \<Rightarrow> Some (stats_of_engine e))"
proof (induction es rule: rev_induct)
  case (snoc e es)
  then show ?case by (auto simp: collect_stats_def)
qed (simp add: collect_stats_def)

lemma decode_engine_bounds:
  assumes "decode_engine j = Some e"
  shows "- (2 ^ 31) \<le> es_QueuedReqNum e \<and> es_QueuedReqNum e < 2 ^ 31 \<and> es_PromptLength e < 2 ^ 31"
proof -
  have "decode_int 32 j' = Some i \<Longrightarrow> - (2 ^ 31) \<le> i \<and> i < 2 ^ 31" for j' i
    by (auto simp: decode_int_def split: json.splits if_splits)
  with assms show ?thesis by (auto simp: decode_engine_def split: json.splits option.splits)
qed

lemma decode_metric_bounds:
  assumes "decode_metric_response j = Some es" "e \<in> set es"
  shows "- (2 ^ 31) \<le> es_QueuedReqNum e \<and> es_QueuedReqNum e < 2 ^ 31 \<and> es_PromptLength e < 2 ^ 31"
proof -
  from assms obtain xs where "decode_all decode_engine xs = Some es"
    by (auto simp: decode_metric_response_def decode_array_def split: json.splits if_splits)
  with assms(2) show ?thesis
    unfolding decode_all_Some by (metis decode_engine_bounds in_set_conv_nth)
qed

text \<open>
  A successful load query reads the answer correctly: the endpoint table has, for each
  address, the values of the last entry of the answer with that address and no other
  addresses, a negative prompt length is read as zero, and every number fits the 32 bits of the
  wire format.
\<close>

theorem QueryLoad_table:
  assumes "QueryLoad do_req parse env ctx cluster c s = (Inr table, c', s')"
  shows "\<exists>p body j es. rp_Method p = ''GET'' \<and> rp_Path p = MetaDataCenterLoadPath \<and>
    rp_HashKey p = cluster \<and> rp_Query p = [(''cluster'', cluster)] \<and> do_req p c s = (Inr body, c', s') \<and>
    parse body = Some j \<and> decode_metric_response j = Some es \<and>
    (\<forall>ip. table ip =
       (case filter (\<lambda>e. es_Ip e = ip) (rev es) of [] \<Rightarrow> None | e # _ \<Rightarrow> Some (stats_of_engine e))) \<and>
    (\<forall>ip st. table ip = Some st \<longrightarrow>
       0 \<le> PromptLength st \<and> PromptLength st < 2 ^ 31 \<and> PrefillReqs st = 0 \<and>
       - (2 ^ 31) \<le> TotalReqs st \<and> TotalReqs st < 2 ^ 31)"
proof -
  define p where "p = \<lparr>rp_TraceId = trace_of ctx, rp_HashKey = cluster, rp_Method = ''GET'',
    rp_Path = MetaDataCenterLoadPath, rp_Query = [(''cluster'', cluster)], rp_Body = JNull,
    rp_Timeout = wrap64 (GetMetaDataCenterFetchMetricTimeout env * 10 ^ 6)\<rparr>"
  from assms obtain body j es where parsed: "do_req p c s = (Inr body, c', s')" "parse body = Some j"
      "decode_metric_response j = Some es"
    and table: "table = collect_stats es"
    by (auto simp: QueryLoad_def Let_def bind_eq_Some_conv p_def split: prod.splits sum.splits option.splits)
  have "0 \<le> PromptLength st \<and> PromptLength st < 2 ^ 31 \<and> PrefillReqs st = 0 \<and>
      - (2 ^ 31) \<le> TotalReqs st \<and> TotalReqs st < 2 ^ 31" if "table ip = Some st" for ip st
  proof -
    from that obtain e where "e \<in> set es" "st = stats_of_engine e"
      unfolding table collect_stats_last
      by (auto split: list.splits) (metis filter_is_subset list.set_intros(1) set_rev subsetD)
    with decode_metric_bounds [OF parsed(3)] show ?thesis
      by (fastforce simp: stats_of_engine_def revisePromptLength_def)
  qed
  with parsed table collect_stats_last show ?thesis
    by (intro exI [of _ p] exI [of _ body] exI [of _ j] exI [of _ es]) (simp add: p_def)
qed

theorem QueryLoad_table_witness:
  "\<exists>table st. QueryLoad (\<lambda>p c s. (Inr ''body'', c, s))
       (\<lambda>b. Some (JObj [(''data'', JArr [JObj [(''ip'', JStr ''10.0.0.1''), (''prompt_length'', JInt (- 4))]])]))
       (\<lambda>_. []) background ''k'' sample_client () = (Inr table, sample_client, ()) \<and>
     table ''10.0.0.1'' = Some st \<and> 0 \<le> PromptLength st"
proof -
  let ?parse = "\<lambda>b. Some (JObj [(''data'', JArr [JObj [(''ip'', JStr ''10.0.0.1''), (''prompt_length'', JInt (- 4))]])])"
  define table where "table = collect_stats [\<lparr>es_Ip = ''10.0.0.1'', es_QueuedReqNum = 0,
    es_PromptLength = - 4, es_UpdatedTime = 0\<rparr>]"
  have member: "member [(''data'', x)] name = (if name = ''data'' then x else JNull)" for x name
    by (simp add: member_def to_lower_def lower_char_def byte_of_def)
  have inner: "member [(''ip'', x), (''prompt_length'', y)] name =
      (if name = ''prompt_length'' then y else if name = ''ip'' then x else JNull)" for x y name
    by (simp add: member_def to_lower_def lower_char_def byte_of_def)
  have query: "QueryLoad (\<lambda>p c s. (Inr ''body'', c, s)) ?parse (\<lambda>_. []) background ''k'' sample_client ()
      = (Inr table, sample_client, ())"
    by (simp add: QueryLoad_def decode_metric_response_def decode_status_def decode_array_def
        decode_engine_def member inner decode_string_def decode_int_def table_def)
  from QueryLoad_table [OF query] have "\<forall>st. table ''10.0.0.1'' = Some st \<longrightarrow> 0 \<le> PromptLength st"
    by blast
  moreover have "table ''10.0.0.1'' \<noteq> None" by (simp add: table_def collect_stats_def)
  ultimately show ?thesis using query by blast
qed

text \<open>
  The global switch is computed once: whatever the environment says later, every later
  call of \<open>IsMetaDataCenterEnable\<close> repeats the first answer.  That answer is yes exactly when
  the enabling variable is unset or true and the host is set - or when the variable does not
  parse as a boolean, in which case the host is not looked at.
\<close>

theorem metacenter_switch:
  "fst (IsMetaDataCenterEnable env initial_switches) =
     (let e = env ''AIGW_META_DATA_CENTER_ENABLE'' in
      if e \<noteq> [] \<and> parse_bool e = None then True
      else (e = [] \<or> parse_bool e = Some True) \<and> env ''AIGW_META_DATA_CENTER_HOST'' \<noteq> []) \<and>
   IsMetaDataCenterEnable env' (snd (IsMetaDataCenterEnable env initial_switches)) =
     IsMetaDataCenterEnable env initial_switches"
proof -
  have "metaDataCenterEnableOnce (snd (IsMetaDataCenterEnable env initial_switches))"
    by (simp add: IsMetaDataCenterEnable_def initial_switches_def Let_def)
  then have "IsMetaDataCenterEnable env' (snd (IsMetaDataCenterEnable env initial_switches)) =
     IsMetaDataCenterEnable env initial_switches"
    by (simp add: IsMetaDataCenterEnable_def Let_def)
  moreover have "fst (IsMetaDataCenterEnable env initial_switches) =
     (let e = env ''AIGW_META_DATA_CENTER_ENABLE'' in
      if e \<noteq> [] \<and> parse_bool e = None then True
      else (e = [] \<or> parse_bool e = Some True) \<and> env ''AIGW_META_DATA_CENTER_HOST'' \<noteq> [])"
    by (simp add: IsMetaDataCenterEnable_def initial_switches_def compute_switches_def Let_def
        split: option.split)
  ultimately show ?thesis by blast
qed

end
