(* ===== verification/RlsAlgebra.thy ===== *)
theory RlsAlgebra
  imports Prelude
begin

text \<open>
  The contract of a recursive least squares filter, shared by the two filters of the program
  (\<^verbatim>\<open>pkg/prediction/rls/rls.go\<close> and \<^verbatim>\<open>pkg/prediction/prediction.go\<close>), and what
  follows from it once and for all: the filter never divides by zero, its covariance matrix is
  the inverse of the information matrix of the samples seen, and its parameters are the unique
  minimiser of the exponentially weighted, ridge-regularised squared error.

  Vectors are functions from indices below \<open>n\<close>; \<open>float64\<close> is modelled by exact rationals.
\<close>

subsection \<open>Vectors and matrices\<close>

definition dot :: "nat \<Rightarrow> (nat \<Rightarrow> rat) \<Rightarrow> (nat \<Rightarrow> rat) \<Rightarrow> rat" where
  "dot n u v = (\<Sum>i<n. u i * v i)"

definition mat_vec :: "nat \<Rightarrow> (nat \<Rightarrow> nat \<Rightarrow> rat) \<Rightarrow> (nat \<Rightarrow> rat) \<Rightarrow> nat \<Rightarrow> rat" where
  "mat_vec n M v i = (\<Sum>j<n. M i j * v j)"

definition vec_mat :: "nat \<Rightarrow> (nat \<Rightarrow> rat) \<Rightarrow> (nat \<Rightarrow> nat \<Rightarrow> rat) \<Rightarrow> nat \<Rightarrow> rat" where
  "vec_mat n v M j = (\<Sum>i<n. v i * M i j)"

definition quad :: "nat \<Rightarrow> (nat \<Rightarrow> nat \<Rightarrow> rat) \<Rightarrow> (nat \<Rightarrow> rat) \<Rightarrow> rat" where
  "quad n M v = dot n v (mat_vec n M v)"

definition unit_mat :: "nat \<Rightarrow> nat \<Rightarrow> rat" where
  "unit_mat i j = (if i = j then 1 else 0)"

definition symmetric :: "nat \<Rightarrow> (nat \<Rightarrow> nat \<Rightarrow> rat) \<Rightarrow> bool" where
  "symmetric n M \<longleftrightarrow> (\<forall>i<n. \<forall>j<n. M i j = M j i)"

definition pos_def :: "nat \<Rightarrow> (nat \<Rightarrow> nat \<Rightarrow> rat) \<Rightarrow> bool" where
  "pos_def n M \<longleftrightarrow> (\<forall>v. (\<exists>i<n. v i \<noteq> 0) \<longrightarrow> 0 < quad n M v)"

definition inverse_of :: "nat \<Rightarrow> (nat \<Rightarrow> nat \<Rightarrow> rat) \<Rightarrow> (nat \<Rightarrow> nat \<Rightarrow> rat) \<Rightarrow> bool" where
  "inverse_of n A P \<longleftrightarrow> (\<forall>i<n. \<forall>j<n. (\<Sum>k<n. A i k * P k j) = unit_mat i j)"

lemma dot_cong: "(\<And>i. i < n \<Longrightarrow> u i = u' i) \<Longrightarrow> (\<And>i. i < n \<Longrightarrow> v i = v' i) \<Longrightarrow> dot n u v = dot n u' v'"
  by (simp add: dot_def)

lemma dot_commute: "dot n u v = dot n v u"
  by (simp add: dot_def mult.commute)

lemma dot_add_right: "dot n u (\<lambda>i. v i + w i) = dot n u v + dot n u w"
  by (simp add: dot_def algebra_simps sum.distrib)

lemma dot_diff_right: "dot n u (\<lambda>i. v i - w i) = dot n u v - dot n u w"
  by (simp add: dot_def algebra_simps sum_subtractf)

lemma dot_scale_right: "dot n u (\<lambda>i. c * v i) = c * dot n u v"
  by (simp add: dot_def sum_distrib_left algebra_simps)

lemma dot_unit: "i < n \<Longrightarrow> dot n (unit_mat i) v = v i"
  by (simp add: dot_def unit_mat_def if_distrib [of "\<lambda>x. x * _"] sum.delta cong: if_cong)

lemma mat_vec_add: "mat_vec n M (\<lambda>i. u i + v i) i = mat_vec n M u i + mat_vec n M v i"
  by (simp add: mat_vec_def algebra_simps sum.distrib)

lemma mat_vec_diff: "mat_vec n M (\<lambda>i. u i - v i) i = mat_vec n M u i - mat_vec n M v i"
  by (simp add: mat_vec_def algebra_simps sum_subtractf)

lemma mat_vec_scale: "mat_vec n M (\<lambda>i. c * v i) i = c * mat_vec n M v i"
  by (simp add: mat_vec_def sum_distrib_left algebra_simps)

lemma mat_vec_rank1:
  "mat_vec n (\<lambda>i j. c * M i j + f i * f j) v i = c * mat_vec n M v i + f i * dot n f v"
  by (simp add: mat_vec_def dot_def sum.distrib sum_distrib_left algebra_simps)

lemma mat_vec_rank1_fun:
  "mat_vec n (\<lambda>i j. c * M i j + f i * f j) v = (\<lambda>i. c * mat_vec n M v i + f i * dot n f v)"
  by (rule ext) (rule mat_vec_rank1)

lemma dot_mat_vec: "dot n u (mat_vec n M v) = dot n (vec_mat n u M) v"
proof -
  have "dot n u (mat_vec n M v) = (\<Sum>i<n. \<Sum>j<n. u i * M i j * v j)"
    by (simp add: dot_def mat_vec_def sum_distrib_left mult.assoc)
  also have "\<dots> = (\<Sum>j<n. \<Sum>i<n. u i * M i j * v j)" by (rule sum.swap)
  also have "\<dots> = dot n (vec_mat n u M) v"
    by (simp add: dot_def vec_mat_def sum_distrib_right)
  finally show ?thesis .
qed

lemma symmetric_vec_mat: "symmetric n M \<Longrightarrow> j < n \<Longrightarrow> vec_mat n v M j = mat_vec n M v j"
  unfolding vec_mat_def mat_vec_def symmetric_def by (intro sum.cong) (auto simp: mult.commute)

lemma symmetric_swap: "symmetric n M \<Longrightarrow> dot n u (mat_vec n M v) = dot n v (mat_vec n M u)"
  by (subst dot_mat_vec, subst dot_commute) (auto intro: dot_cong simp: symmetric_vec_mat)

lemma inverse_mat_vec:
  assumes "inverse_of n A P" "i < n"
  shows "mat_vec n A (mat_vec n P v) i = v i"
proof -
  have "mat_vec n A (mat_vec n P v) i = dot n (\<lambda>k. A i k) (mat_vec n P v)"
    by (simp add: mat_vec_def [of n A] dot_def)
  also have "\<dots> = dot n (vec_mat n (\<lambda>k. A i k) P) v" by (rule dot_mat_vec)
  also have "\<dots> = dot n (unit_mat i) v"
    using assms by (intro dot_cong) (simp_all add: vec_mat_def inverse_of_def)
  finally show ?thesis using assms(2) by (simp add: dot_unit)
qed

lemma pos_def_nonneg: "pos_def n A \<Longrightarrow> 0 \<le> quad n A v"
proof (cases "\<exists>i<n. v i \<noteq> 0")
  case False
  then have "quad n A v = 0" by (simp add: quad_def dot_def)
  then show ?thesis by simp
qed (auto simp: pos_def_def intro: less_imp_le)

lemma pos_def_rank1:
  assumes "pos_def n A" "0 < c"
  shows "pos_def n (\<lambda>i j. c * A i j + f i * f j)"
  unfolding pos_def_def
proof (intro allI impI)
  fix v :: "nat \<Rightarrow> rat"
  assume "\<exists>i<n. v i \<noteq> 0"
  then have "0 < quad n A v" using assms(1) by (simp add: pos_def_def)
  have "dot n v (\<lambda>i. f i * dot n f v) = (dot n f v)\<^sup>2"
    using dot_scale_right [of n v "dot n f v" f]
    by (simp add: mult.commute dot_commute [of n v] power2_eq_square)
  moreover have "quad n (\<lambda>i j. c * A i j + f i * f j) v =
      dot n v (\<lambda>i. c * mat_vec n A v i) + dot n v (\<lambda>i. f i * dot n f v)"
    unfolding quad_def mat_vec_rank1_fun by (rule dot_add_right)
  ultimately have "quad n (\<lambda>i j. c * A i j + f i * f j) v = c * quad n A v + (dot n f v)\<^sup>2"
    by (simp add: quad_def dot_scale_right)
  with \<open>0 < quad n A v\<close> assms(2) show "0 < quad n (\<lambda>i j. c * A i j + f i * f j) v"
    by (simp add: add_pos_nonneg)
qed

lemma pos_def_scaled_unit: "0 < c \<Longrightarrow> pos_def n (\<lambda>i j. c * unit_mat i j)"
  unfolding pos_def_def
proof (intro allI impI)
  fix v :: "nat \<Rightarrow> rat"
  assume "0 < c" and "\<exists>i<n. v i \<noteq> 0"
  then obtain k where k: "k < n" "v k \<noteq> 0" by blast
  have "mat_vec n (\<lambda>i j. c * unit_mat i j) v i = c * v i" if "i < n" for i
    using that dot_unit [OF that, of v]
    by (simp add: mat_vec_def dot_def mult.assoc sum_distrib_left [symmetric])
  then have "quad n (\<lambda>i j. c * unit_mat i j) v = (\<Sum>i<n. c * (v i)\<^sup>2)"
    by (simp add: quad_def dot_def power2_eq_square algebra_simps)
  also have "\<dots> > 0"
    using k \<open>0 < c\<close> by (intro sum_pos2 [of _ k]) auto
  finally show "0 < quad n (\<lambda>i j. c * unit_mat i j) v" .
qed

subsection \<open>The squared error a filter minimises\<close>

text \<open>
  The samples are listed newest first.  A sample of age \<open>a\<close> weighs \<open>lam ^ a\<close>; the ridge term
  of the initial covariance matrix \<open>1 / p * I\<close> is \<open>p\<close> times the squared norm.
\<close>

fun ls_cost :: "nat \<Rightarrow> ('x \<Rightarrow> nat \<Rightarrow> rat) \<Rightarrow> rat \<Rightarrow> rat \<Rightarrow> ('x \<times> rat) list \<Rightarrow> (nat \<Rightarrow> rat) \<Rightarrow> rat" where
  "ls_cost n phi lam p [] v = p * dot n v v"
| "ls_cost n phi lam p ((x, y) # h) v = lam * ls_cost n phi lam p h v + (y - dot n (phi x) v)\<^sup>2"

definition tuned :: "nat \<Rightarrow> ((nat \<Rightarrow> rat) \<Rightarrow> rat) \<Rightarrow> (nat \<Rightarrow> rat) \<Rightarrow> (nat \<Rightarrow> nat \<Rightarrow> rat) \<Rightarrow> bool" where
  "tuned n cost th P \<longleftrightarrow>
     (\<exists>A. symmetric n A \<and> pos_def n A \<and> inverse_of n A P \<and>
        (\<forall>v. cost v = cost th + quad n A (\<lambda>i. v i - th i)))"

lemma quad_cong: "(\<And>i. i < n \<Longrightarrow> u i = v i) \<Longrightarrow> quad n A u = quad n A v"
  by (simp add: quad_def dot_def mat_vec_def)

lemma quad_add:
  assumes "symmetric n A"
  shows "quad n A (\<lambda>i. u i + v i) = quad n A u + 2 * dot n u (mat_vec n A v) + quad n A v"
proof -
  have "mat_vec n A (\<lambda>i. u i + v i) = (\<lambda>i. mat_vec n A u i + mat_vec n A v i)"
    by (rule ext) (rule mat_vec_add)
  then have "quad n A (\<lambda>i. u i + v i) =
      dot n (\<lambda>i. u i + v i) (mat_vec n A u) + dot n (\<lambda>i. u i + v i) (mat_vec n A v)"
    by (simp add: quad_def dot_add_right)
  also have "\<dots> = quad n A u + dot n v (mat_vec n A u) + dot n u (mat_vec n A v) + quad n A v"
    by (simp add: dot_commute [of n "\<lambda>i. u i + v i"] dot_add_right quad_def
        dot_commute [of n "mat_vec n A u"] dot_commute [of n "mat_vec n A v"])
  finally show ?thesis
    using symmetric_swap [OF assms, of u v] by simp
qed

lemma tuned_minimises:
  assumes "tuned n cost th P"
  shows "cost th \<le> cost v" "\<exists>i<n. v i \<noteq> th i \<Longrightarrow> cost th < cost v"
proof -
  obtain A where A: "pos_def n A" "\<And>v. cost v = cost th + quad n A (\<lambda>i. v i - th i)"
    using assms by (auto simp: tuned_def)
  show "cost th \<le> cost v" using A pos_def_nonneg by (metis le_add_same_cancel1)
  show "\<exists>i<n. v i \<noteq> th i \<Longrightarrow> cost th < cost v"
    using A(1) by (subst A(2)) (auto simp: pos_def_def)
qed

subsection \<open>One step of a filter\<close>

text \<open>The gain denominator of a step and the updated parameters and covariance matrix.\<close>

definition gain_den :: "nat \<Rightarrow> rat \<Rightarrow> (nat \<Rightarrow> nat \<Rightarrow> rat) \<Rightarrow> (nat \<Rightarrow> rat) \<Rightarrow> rat" where
  "gain_den n l P f = l + quad n P f"

definition step_theta ::
  "nat \<Rightarrow> rat \<Rightarrow> (nat \<Rightarrow> nat \<Rightarrow> rat) \<Rightarrow> (nat \<Rightarrow> rat) \<Rightarrow> (nat \<Rightarrow> rat) \<Rightarrow> rat \<Rightarrow> nat \<Rightarrow> rat" where
  "step_theta n l P th f y i =
     th i + mat_vec n P f i / gain_den n l P f * (y - dot n f th)"

definition step_cov ::
  "nat \<Rightarrow> rat \<Rightarrow> (nat \<Rightarrow> nat \<Rightarrow> rat) \<Rightarrow> (nat \<Rightarrow> rat) \<Rightarrow> nat \<Rightarrow> nat \<Rightarrow> rat" where
  "step_cov n l P f i j =
     (P i j - mat_vec n P f i / gain_den n l P f * mat_vec n P f j) / l"

lemma step_cov_symmetric: "symmetric n P \<Longrightarrow> symmetric n (step_cov n l P f)"
  by (simp add: symmetric_def step_cov_def)

lemma quad_inverse_nonneg:
  assumes "pos_def n A" "inverse_of n A P"
  shows "0 \<le> quad n P f"
proof -
  have "quad n A (mat_vec n P f) = dot n (mat_vec n P f) f"
    unfolding quad_def using inverse_mat_vec [OF assms(2)] by (intro dot_cong) simp_all
  also have "\<dots> = quad n P f" by (simp add: quad_def dot_commute)
  finally show ?thesis using pos_def_nonneg [OF assms(1)] by metis
qed

lemma step_inverse:
  assumes P: "symmetric n P" and A: "pos_def n A" "inverse_of n A P" and l: "0 < l"
  shows "inverse_of n (\<lambda>i j. l * A i j + f i * f j) (step_cov n l P f)"
  unfolding inverse_of_def
proof (intro allI impI)
  fix i j assume ij: "i < n" "j < n"
  let ?g = "mat_vec n P f" and ?den = "gain_den n l P f"
  have den: "0 < ?den" using quad_inverse_nonneg [OF A, of f] l by (simp add: gain_den_def)
  have AK: "(\<Sum>k<n. A i k * ?g k) = f i"
    using inverse_mat_vec [OF A(2) ij(1), of f] by (simp add: mat_vec_def [of n A])
  have AP: "(\<Sum>k<n. A i k * P k j) = unit_mat i j"
    using A(2) ij by (simp add: inverse_of_def)
  have fP: "(\<Sum>k<n. f k * P k j) = ?g j"
    using symmetric_vec_mat [OF P ij(2), of f] by (simp add: vec_mat_def)
  have fg: "(\<Sum>k<n. f k * ?g k) = ?den - l"
    by (simp add: gain_den_def quad_def dot_def)
  have "(\<Sum>k<n. (l * A i k + f i * f k) * step_cov n l P f k j) =
      (\<Sum>k<n. A i k * P k j + f i / l * (f k * P k j) - ?g j / ?den * (A i k * ?g k)
         - f i * ?g j / (?den * l) * (f k * ?g k))"
    using l den by (intro sum.cong) (simp_all add: step_cov_def field_simps)
  also have "\<dots> = (\<Sum>k<n. A i k * P k j) + f i / l * (\<Sum>k<n. f k * P k j)
      - ?g j / ?den * (\<Sum>k<n. A i k * ?g k) - f i * ?g j / (?den * l) * (\<Sum>k<n. f k * ?g k)"
    by (simp add: sum.distrib sum_subtractf sum_distrib_left)
  also have "\<dots> = unit_mat i j"
    unfolding AK AP fP fg using l den by (simp add: field_simps)
  finally show "(\<Sum>k<n. (l * A i k + f i * f k) * step_cov n l P f k j) = unit_mat i j" .
qed

lemma step_cost_algebra:
  fixes l :: rat
  shows "l * (j + (q + 2 * (k * a) + k\<^sup>2 * (d - l))) + (k * l - a)\<^sup>2 =
    l * q + a\<^sup>2 + (l * j + l * k\<^sup>2 * (d - l) + (k * l)\<^sup>2)"
  by (simp add: power2_eq_square algebra_simps)

lemma step_cost:
  fixes f :: "nat \<Rightarrow> rat" and y :: rat and n :: nat
  assumes sym: "symmetric n A" and A: "pos_def n A" "inverse_of n A P" and l: "0 < l"
    and J: "\<And>v. J v = J th + quad n A (\<lambda>i. v i - th i)"
  defines "th' \<equiv> step_theta n l P th f y"
  defines "J' \<equiv> \<lambda>v. l * J v + (y - dot n f v)\<^sup>2"
  shows "J' v = J' th' + quad n (\<lambda>i j. l * A i j + f i * f j) (\<lambda>i. v i - th' i)"
proof -
  let ?A' = "\<lambda>i j. l * A i j + f i * f j"
  define den where "den = gain_den n l P f"
  define e where "e = y - dot n f th"
  define k where "k = e / den"
  define K where "K i = k * mat_vec n P f i" for i
  have den: "0 < den" using quad_inverse_nonneg [OF A, of f] l by (simp add: gain_den_def den_def)
  have th': "th' i = th i + K i" for i
    by (simp add: th'_def step_theta_def K_def k_def e_def den_def)
  have AK: "mat_vec n A K i = k * f i" if "i < n" for i
    using mat_vec_scale [of n A k "mat_vec n P f" i] inverse_mat_vec [OF A(2) that, of f]
    by (simp add: K_def [abs_def])
  have fK: "dot n f K = k * (den - l)"
    using dot_scale_right [of n f k "mat_vec n P f"]
    by (simp add: K_def [abs_def] den_def gain_den_def quad_def)
  have expand: "J' w = quad n ?A' (\<lambda>i. w i - th' i) + (l * J th + l * k\<^sup>2 * (den - l)
      + (k * l)\<^sup>2)" for w
  proof -
    define d where "d i = w i - th' i" for i
    define a where "a = dot n f d"
    have dK: "dot n d (mat_vec n A K) = k * a"
    proof -
      have "dot n d (mat_vec n A K) = dot n d (\<lambda>i. k * f i)"
        using AK by (intro dot_cong) simp_all
      then show ?thesis by (simp add: dot_scale_right a_def dot_commute)
    qed
    have KK: "quad n A K = k\<^sup>2 * (den - l)"
    proof -
      have "quad n A K = dot n K (\<lambda>i. k * f i)"
        unfolding quad_def using AK by (intro dot_cong) simp_all
      then show ?thesis
        using fK by (simp add: dot_scale_right dot_commute [of n K] power2_eq_square)
    qed
    have "quad n A (\<lambda>i. w i - th i) = quad n A (\<lambda>i. d i + K i)"
      by (rule quad_cong) (simp add: d_def th')
    then have Jw: "J w = J th + (quad n A d + 2 * (k * a) + k\<^sup>2 * (den - l))"
      using J [of w] quad_add [OF sym, of d K] by (simp add: dK KK)
    have "dot n f w = dot n f (\<lambda>i. (d i + K i) + th i)"
      by (rule dot_cong) (simp_all add: d_def th')
    then have "dot n f w = a + k * (den - l) + dot n f th"
      by (simp add: dot_add_right a_def fK)
    then have res: "y - dot n f w = k * l - a"
      using den by (simp add: k_def e_def field_simps)
    have Q: "quad n ?A' d = l * quad n A d + a\<^sup>2"
    proof -
      have "quad n ?A' d = dot n d (\<lambda>i. l * mat_vec n A d i) + dot n d (\<lambda>i. f i * dot n f d)"
        unfolding quad_def mat_vec_rank1_fun by (rule dot_add_right)
      moreover have "dot n d (\<lambda>i. f i * dot n f d) = a\<^sup>2"
        using dot_scale_right [of n d "dot n f d" f]
        by (simp add: mult.commute dot_commute [of n d] power2_eq_square a_def)
      ultimately show ?thesis by (simp add: dot_scale_right quad_def)
    qed
    show ?thesis
      unfolding J'_def Jw res d_def [symmetric] Q
      by (rule step_cost_algebra)
  qed
  have "quad n ?A' (\<lambda>i. th' i - th' i) = 0" by (simp add: quad_def dot_def)
  then show ?thesis using expand [of v] expand [of th'] by simp
qed

lemma step_tuned:
  assumes "tuned n J th P" "symmetric n P" "0 < l"
  shows "tuned n (\<lambda>v. l * J v + (y - dot n f v)\<^sup>2) (step_theta n l P th f y) (step_cov n l P f)"
    and "0 < gain_den n l P f"
proof -
  obtain A where A: "symmetric n A" "pos_def n A" "inverse_of n A P"
      "\<And>v. J v = J th + quad n A (\<lambda>i. v i - th i)"
    using assms(1) by (auto simp: tuned_def)
  let ?A' = "\<lambda>i j. l * A i j + f i * f j"
  let ?th' = "step_theta n l P th f y"
  have sym: "symmetric n ?A'"
    using A(1) by (simp add: symmetric_def mult.commute)
  have cost: "\<forall>v. l * J v + (y - dot n f v)\<^sup>2 =
      l * J ?th' + (y - dot n f ?th')\<^sup>2 + quad n ?A' (\<lambda>i. v i - ?th' i)"
    by (intro allI step_cost A assms(3))
  show "tuned n (\<lambda>v. l * J v + (y - dot n f v)\<^sup>2) ?th' (step_cov n l P f)"
    unfolding tuned_def
    using sym cost pos_def_rank1 [OF A(2) assms(3), of f] step_inverse [OF assms(2) A(2,3) assms(3), of f]
    by blast
  show "0 < gain_den n l P f"
    using quad_inverse_nonneg [OF A(2,3), of f] assms(3) by (simp add: gain_den_def)
qed

lemma tuned_start:
  assumes "0 < p" "\<And>i. i < n \<Longrightarrow> th i = 0"
    "\<And>i j. i < n \<Longrightarrow> j < n \<Longrightarrow> P i j = 1 / p * unit_mat i j"
  shows "tuned n (ls_cost n phi l p []) th P"
  unfolding tuned_def
proof (intro exI [of _ "\<lambda>i j. p * unit_mat i j"] conjI allI)
  show "symmetric n (\<lambda>i j. p * unit_mat i j)" by (simp add: symmetric_def unit_mat_def)
  show "pos_def n (\<lambda>i j. p * unit_mat i j)" using assms(1) by (rule pos_def_scaled_unit)
  show "inverse_of n (\<lambda>i j. p * unit_mat i j) P"
    unfolding inverse_of_def
  proof (intro allI impI)
    fix i j assume ij: "i < n" "j < n"
    have "(\<Sum>k<n. p * unit_mat i k * P k j) = dot n (unit_mat i) (\<lambda>k. unit_mat k j)"
      unfolding dot_def using assms(1,3) ij(2) by (intro sum.cong) simp_all
    then show "(\<Sum>k<n. p * unit_mat i k * P k j) = unit_mat i j" by (simp add: dot_unit ij)
  qed
  fix v
  have "mat_vec n (\<lambda>i j. p * unit_mat i j) v i = p * v i" if "i < n" for i
    using that dot_unit [OF that, of v]
    by (simp add: mat_vec_def dot_def mult.assoc sum_distrib_left [symmetric])
  then have "quad n (\<lambda>i j. p * unit_mat i j) v = dot n v (\<lambda>i. p * v i)"
    unfolding quad_def by (intro dot_cong) simp_all
  moreover have "quad n (\<lambda>i j. p * unit_mat i j) (\<lambda>i. v i - th i) =
      quad n (\<lambda>i j. p * unit_mat i j) v"
    using assms(2) by (intro quad_cong) simp
  moreover have "dot n th th = 0" using assms(2) by (simp add: dot_def)
  ultimately show "ls_cost n phi l p [] v =
      ls_cost n phi l p [] th + quad n (\<lambda>i j. p * unit_mat i j) (\<lambda>i. v i - th i)"
    by (simp add: dot_scale_right)
qed

lemma ls_cost_truth:
  assumes "\<forall>(x, y) \<in> set h. y = dot n (phi x) v"
  shows "ls_cost n phi 1 p h v = p * dot n v v"
  using assms by (induction h) auto

lemma ls_cost_residual:
  assumes "0 \<le> p" "(x, y) \<in> set h"
  shows "(y - dot n (phi x) v)\<^sup>2 \<le> ls_cost n phi 1 p h v"
  using assms(2)
proof (induction h)
  case (Cons s h)
  have "0 \<le> dot n v v" by (simp add: dot_def sum_nonneg)
  then have nonneg: "0 \<le> ls_cost n phi 1 p h v"
    using assms(1) by (induction h) (auto simp: add_nonneg_nonneg)
  obtain x' y' where s: "s = (x', y')" by (cases s)
  show ?case
  proof (cases "(x, y) = s")
    case True
    with nonneg s show ?thesis by simp
  next
    case False
    with Cons have "(y - dot n (phi x) v)\<^sup>2 \<le> ls_cost n phi 1 p h v" by auto
    then show ?thesis by (simp add: s add_increasing2)
  qed
qed simp

subsection \<open>The interface of a filter\<close>

text \<open>
  What the predictors rely on: the state holds parameters, a covariance matrix and a forgetting
  factor, training is one step of the algebra above, and a prediction is the inner product of the
  parameters and the features.
\<close>

locale rls_filter =
  fixes n :: nat
    and phi :: "'x \<Rightarrow> nat \<Rightarrow> rat"
    and params :: "'s \<Rightarrow> nat \<Rightarrow> rat"
    and cov :: "'s \<Rightarrow> nat \<Rightarrow> nat \<Rightarrow> rat"
    and lam :: "'s \<Rightarrow> rat"
    and ok :: "'s \<Rightarrow> bool"
    and train :: "'s \<Rightarrow> 'x \<Rightarrow> rat \<Rightarrow> 's"
    and predict :: "'s \<Rightarrow> 'x \<Rightarrow> rat"
  assumes lam_pos: "ok s \<Longrightarrow> 0 < lam s"
    and cov_sym: "ok s \<Longrightarrow> symmetric n (cov s)"
    and train_ok: "ok s \<Longrightarrow> ok (train s x y)"
    and train_lam: "ok s \<Longrightarrow> lam (train s x y) = lam s"
    and train_params: "ok s \<Longrightarrow> i < n \<Longrightarrow>
      params (train s x y) i = step_theta n (lam s) (cov s) (params s) (phi x) y i"
    and train_cov: "ok s \<Longrightarrow> i < n \<Longrightarrow> j < n \<Longrightarrow>
      cov (train s x y) i j = step_cov n (lam s) (cov s) (phi x) i j"
    and predict_dot: "ok s \<Longrightarrow> predict s x = dot n (phi x) (params s)"
begin

text \<open>Training on samples listed newest first.\<close>

definition trained :: "'s \<Rightarrow> ('x \<times> rat) list \<Rightarrow> 's" where
  "trained s h = foldr (\<lambda>(x, y) t. train t x y) h s"

lemma trained_simps [simp]:
  "trained s [] = s" "trained s ((x, y) # h) = train (trained s h) x y"
  by (simp_all add: trained_def)

lemma trained_ok: "ok s \<Longrightarrow> ok (trained s h) \<and> lam (trained s h) = lam s"
  by (induction h) (auto simp: train_ok train_lam)

lemma tuned_cong:
  assumes "tuned n J th P" "\<And>i. i < n \<Longrightarrow> th' i = th i"
    "\<And>i j. i < n \<Longrightarrow> j < n \<Longrightarrow> P' i j = P i j" "\<And>v w. (\<And>i. i < n \<Longrightarrow> v i = w i) \<Longrightarrow> J v = J w"
  shows "tuned n J th' P'"
proof -
  obtain A where A: "symmetric n A" "pos_def n A" "inverse_of n A P"
      "\<And>v. J v = J th + quad n A (\<lambda>i. v i - th i)"
    using assms(1) by (auto simp: tuned_def)
  have "J th' = J th" by (rule assms(4)) (rule assms(2))
  moreover have "quad n A (\<lambda>i. v i - th' i) = quad n A (\<lambda>i. v i - th i)" for v
    using assms(2) by (intro quad_cong) simp
  ultimately have "\<forall>v. J v = J th' + quad n A (\<lambda>i. v i - th' i)"
    by (metis A(4))
  moreover have "inverse_of n A P'" using A(3) assms(3) by (simp add: inverse_of_def)
  ultimately show ?thesis unfolding tuned_def using A(1,2) by blast
qed

lemma cost_cong: "(\<And>i. i < n \<Longrightarrow> v i = w i) \<Longrightarrow> ls_cost n phi l p h v = ls_cost n phi l p h w"
proof (induction h)
  case (Cons s h)
  moreover obtain x y where "s = (x, y)" by (cases s)
  moreover have "dot n (phi x) v = dot n (phi x) w" by (rule dot_cong) (simp_all add: Cons.prems)
  ultimately show ?case by simp
next
  case Nil
  have "dot n v v = dot n w w" by (rule dot_cong) (simp_all add: Nil)
  then show ?case by simp
qed

lemma trained_tuned:
  assumes "ok s" "tuned n (ls_cost n phi (lam s) p []) (params s) (cov s)"
  shows "tuned n (ls_cost n phi (lam s) p h) (params (trained s h)) (cov (trained s h))"
proof (induction h)
  case (Cons a h)
  obtain x y where a: "a = (x, y)" by (cases a)
  let ?t = "trained s h"
  have ok: "ok ?t" "lam ?t = lam s" using trained_ok [OF assms(1)] by simp_all
  have J: "ls_cost n phi (lam s) p (a # h) =
      (\<lambda>v. lam s * ls_cost n phi (lam s) p h v + (y - dot n (phi x) v)\<^sup>2)"
    by (rule ext) (simp add: a)
  have "tuned n (ls_cost n phi (lam s) p (a # h))
      (step_theta n (lam s) (cov ?t) (params ?t) (phi x) y) (step_cov n (lam s) (cov ?t) (phi x))"
    unfolding J using step_tuned(1) [OF Cons.IH cov_sym [OF ok(1)]] lam_pos [OF assms(1)] by blast
  then show ?case
    by (rule tuned_cong) (use ok in \<open>simp_all add: a train_params train_cov,
        auto intro: cost_cong [of _ _ _ _ "(x, y) # h", simplified]\<close>)
qed (use assms in \<open>simp only: trained_simps\<close>)

lemma trained_optimal:
  assumes "ok s" "tuned n (ls_cost n phi (lam s) p []) (params s) (cov s)"
  shows "ls_cost n phi (lam s) p h (params (trained s h)) \<le> ls_cost n phi (lam s) p h v"
    and "\<exists>i<n. v i \<noteq> params (trained s h) i \<Longrightarrow>
      ls_cost n phi (lam s) p h (params (trained s h)) < ls_cost n phi (lam s) p h v"
  using tuned_minimises [OF trained_tuned [OF assms]] by blast+

lemma gain_positive:
  assumes "ok s" "tuned n (ls_cost n phi (lam s) p []) (params s) (cov s)"
  shows "0 < gain_den n (lam s) (cov (trained s h)) f"
  using step_tuned(2) [OF trained_tuned [OF assms] _ lam_pos [OF assms(1)]]
    trained_ok [OF assms(1)] cov_sym by metis

text \<open>On samples of a linear law the filter reproduces every sample up to the ridge term.\<close>

lemma trained_fits:
  assumes "ok s" "tuned n (ls_cost n phi (lam s) p []) (params s) (cov s)" "lam s = 1" "0 \<le> p"
    and law: "\<forall>(x, y) \<in> set h. y = dot n (phi x) v"
    and x: "(x, y) \<in> set h"
  shows "(y - predict (trained s h) x)\<^sup>2 \<le> p * dot n v v"
proof -
  have "(y - predict (trained s h) x)\<^sup>2 = (y - dot n (phi x) (params (trained s h)))\<^sup>2"
    using trained_ok [OF assms(1)] by (simp add: predict_dot)
  also have "\<dots> \<le> ls_cost n phi 1 p h (params (trained s h))"
    by (rule ls_cost_residual) (use assms(4) x in simp_all)
  also have "\<dots> \<le> ls_cost n phi 1 p h v"
    using trained_optimal(1) [OF assms(1,2), of h v] assms(3) by simp
  also have "\<dots> = p * dot n v v" by (rule ls_cost_truth [OF law])
  finally show ?thesis .
qed

end

end
