(* ===== verification/TpotRls.thy ===== *)
theory TpotRls
  imports RlsAlgebra
begin

text \<open>
  \<^verbatim>\<open>pkg/prediction/rls/rls.go\<close>: the recursive least squares filter of one batch size
  segment of the time-per-output-token predictor.  It has two inputs and a constant, and works on
  a 3 by 3 covariance matrix.

  The slices of the struct are lists.  Every constructor makes them of length three
  (\<open>tpot_rls_ok\<close>), so no index is out of range.  \<open>float64\<close> is an exact rational; the
  conversion of the inputs is exact, as the code notes.
\<close>

definition TPOT_COEFF_NUM :: nat where
  "TPOT_COEFF_NUM = 2"

record tpot_rls =
  rls_theta :: "rat list"
  rls_P :: "rat list list"
  rls_forget :: rat

definition diagonal :: "nat \<Rightarrow> rat \<Rightarrow> rat list list" where
  "diagonal sz d = map (\<lambda>i. (replicate sz 0)[i := d]) [0..<sz]"

definition NewTpotRLS :: "rat \<Rightarrow> tpot_rls" where
  "NewTpotRLS forget =
     (let forget = (if forget \<le> 0 \<or> 1 < forget then 1 else forget);
          sz = TPOT_COEFF_NUM + 1
      in \<lparr>rls_theta = replicate sz 0, rls_P = diagonal sz (10 ^ 6), rls_forget = forget\<rparr>)"

definition float64_of :: "64 word \<Rightarrow> rat" where
  "float64_of x = of_nat (unat x)"

definition Update :: "tpot_rls \<Rightarrow> 64 word list \<Rightarrow> rat \<Rightarrow> tpot_rls" where
  "Update r x y =
     (if length x \<noteq> TPOT_COEFF_NUM then r
      else
       (let phi0 = float64_of (x ! 0);
            phi1 = float64_of (x ! 1);
            phi2 = 1;
            P00 = rls_P r ! 0 ! 0; P01 = rls_P r ! 0 ! 1; P02 = rls_P r ! 0 ! 2;
            P10 = rls_P r ! 1 ! 0; P11 = rls_P r ! 1 ! 1; P12 = rls_P r ! 1 ! 2;
            P20 = rls_P r ! 2 ! 0; P21 = rls_P r ! 2 ! 1; P22 = rls_P r ! 2 ! 2;
            PHI0 = P00 * phi0 + P01 * phi1 + P02 * phi2;
            PHI1 = P10 * phi0 + P11 * phi1 + P12 * phi2;
            PHI2 = P20 * phi0 + P21 * phi1 + P22 * phi2;
            den = rls_forget r + phi0 * PHI0 + phi1 * PHI1 + phi2 * PHI2;
            invDen = 1 / den;
            K0 = PHI0 * invDen;
            K1 = PHI1 * invDen;
            K2 = PHI2 * invDen;
            th = rls_theta r;
            yPred = phi0 * th ! 0 + phi1 * th ! 1 + phi2 * th ! 2;
            e = y - yPred;
            finv = 1 / rls_forget r
        in r\<lparr>rls_theta := th[0 := th ! 0 + K0 * e, 1 := th ! 1 + K1 * e, 2 := th ! 2 + K2 * e],
             rls_P := (rls_P r)
               [0 := (rls_P r ! 0)[0 := (P00 - K0 * PHI0) * finv,
                                   1 := (P01 - K0 * PHI1) * finv,
                                   2 := (P02 - K0 * PHI2) * finv],
                1 := (rls_P r ! 1)[0 := (P10 - K1 * PHI0) * finv,
                                   1 := (P11 - K1 * PHI1) * finv,
                                   2 := (P12 - K1 * PHI2) * finv],
                2 := (rls_P r ! 2)[0 := (P20 - K2 * PHI0) * finv,
                                   1 := (P21 - K2 * PHI1) * finv,
                                   2 := (P22 - K2 * PHI2) * finv]]\<rparr>))"

text \<open>The prediction is negative one on inputs of the wrong length.\<close>

definition Predict :: "tpot_rls \<Rightarrow> 64 word list \<Rightarrow> rat" where
  "Predict r x =
     (if length x \<noteq> TPOT_COEFF_NUM then -1
      else float64_of (x ! 0) * rls_theta r ! 0 + float64_of (x ! 1) * rls_theta r ! 1
             + 1 * rls_theta r ! 2)"

definition Params :: "tpot_rls \<Rightarrow> rat list" where
  "Params r = go_copy (replicate (length (rls_theta r)) 0) (rls_theta r)"

text \<open>The rows are allocated and copied one by one; a row the source lacks stays nil.\<close>

definition Clone :: "tpot_rls \<Rightarrow> tpot_rls" where
  "Clone r =
     (let sz = TPOT_COEFF_NUM + 1 in
      \<lparr>rls_theta = go_copy (replicate sz 0) (rls_theta r),
       rls_P = map (\<lambda>i. if i < length (rls_P r)
                        then go_copy (replicate sz 0) (rls_P r ! i) else []) [0..<sz],
       rls_forget = rls_forget r\<rparr>)"

definition NewTpotRLSWithParams :: "rat list \<Rightarrow> tpot_rls" where
  "NewTpotRLSWithParams params =
     (let sz = TPOT_COEFF_NUM + 1;
          theta = replicate sz 0;
          theta = (if sz \<le> length params then go_copy theta (take sz params)
                   else go_copy theta params)
      in \<lparr>rls_theta = theta, rls_P = diagonal sz (10 ^ 6), rls_forget = 1\<rparr>)"

subsection \<open>Well-formed filters\<close>

definition tpot_rls_ok :: "tpot_rls \<Rightarrow> bool" where
  "tpot_rls_ok r \<longleftrightarrow>
     length (rls_theta r) = 3 \<and> length (rls_P r) = 3 \<and> list_all (\<lambda>row. length row = 3) (rls_P r) \<and>
     0 < rls_forget r \<and> rls_forget r \<le> 1 \<and> symmetric 3 (\<lambda>i j. rls_P r ! i ! j)"

definition tpot_phi :: "64 word \<times> 64 word \<Rightarrow> nat \<Rightarrow> rat" where
  "tpot_phi x i = [float64_of (fst x), float64_of (snd x), 1] ! i"

lemma less_3_cases: "i < (3 :: nat) \<longleftrightarrow> i = 0 \<or> i = 1 \<or> i = 2"
  by auto

lemma sum_3: "(\<Sum>i<(3 :: nat). f i) = f 0 + f 1 + (f 2 :: rat)"
  by (simp add: numeral_3_eq_3 numeral_2_eq_2)

lemma length_3: "length xs = 3 \<longleftrightarrow> (\<exists>a b c. xs = [a, b, c])"
  by (auto simp: numeral_3_eq_3 length_Suc_conv)

lemma diagonal_nth: "i < n \<Longrightarrow> j < n \<Longrightarrow> diagonal n d ! i ! j = d * unit_mat i j"
  by (simp add: diagonal_def unit_mat_def nth_list_update)

lemma diagonal_3: "diagonal 3 d = [[d, 0, 0], [0, d, 0], [0, 0, d]]"
  by (simp add: diagonal_def numeral_3_eq_3 numeral_2_eq_2)

lemma tpot_rls_ok_cases:
  assumes "tpot_rls_ok r"
  obtains t0 t1 t2 a b c d e f where
    "rls_theta r = [t0, t1, t2]" "rls_P r = [[a, b, c], [b, d, e], [c, e, f]]"
proof -
  obtain t0 t1 t2 where t: "rls_theta r = [t0, t1, t2]"
    using assms unfolding tpot_rls_ok_def length_3 by blast
  obtain r0 r1 r2 where r: "rls_P r = [r0, r1, r2]"
    using assms unfolding tpot_rls_ok_def length_3 by blast
  have "length r0 = 3" "length r1 = 3" "length r2 = 3"
    using assms by (simp_all add: tpot_rls_ok_def r)
  then obtain a b c b' d e c' e' f where rows: "r0 = [a, b, c]" "r1 = [b', d, e]" "r2 = [c', e', f]"
    unfolding length_3 by blast
  have sym: "\<forall>i<3. \<forall>j<3. rls_P r ! i ! j = rls_P r ! j ! i"
    using assms by (simp add: tpot_rls_ok_def symmetric_def)
  have "b' = b" using sym [rule_format, of 1 0] by (simp add: r rows)
  moreover have "c' = c" using sym [rule_format, of 2 0] by (simp add: r rows)
  moreover have "e' = e" using sym [rule_format, of 2 1] by (simp add: r rows)
  ultimately show thesis using that t r rows by simp
qed

lemma symmetric_3:
  "symmetric 3 (\<lambda>i j. [[a, b, c], [b', d, e], [c', e', f]] ! i ! j) \<longleftrightarrow> b' = b \<and> c' = c \<and> e' = e"
proof
  assume sym: "symmetric 3 (\<lambda>i j. [[a, b, c], [b', d, e], [c', e', f]] ! i ! j)"
  have *: "[[a, b, c], [b', d, e], [c', e', f]] ! i ! j = [[a, b, c], [b', d, e], [c', e', f]] ! j ! i"
    if "i < 3" "j < 3" for i j
    using sym that by (simp add: symmetric_def)
  show "b' = b \<and> c' = c \<and> e' = e" using * [of 1 0] * [of 2 0] * [of 2 1] by simp
qed (auto simp: symmetric_def less_3_cases)

lemma tpot_rls_ok_new: "tpot_rls_ok (NewTpotRLS forget)"
  by (simp add: NewTpotRLS_def tpot_rls_ok_def TPOT_COEFF_NUM_def diagonal_3 symmetric_3 Let_def)

lemma tpot_rls_ok_params: "tpot_rls_ok (NewTpotRLSWithParams params)"
  by (simp add: NewTpotRLSWithParams_def tpot_rls_ok_def TPOT_COEFF_NUM_def diagonal_3 symmetric_3
      Let_def)

subsection \<open>The filter interface\<close>

definition tpot_train :: "tpot_rls \<Rightarrow> 64 word \<times> 64 word \<Rightarrow> rat \<Rightarrow> tpot_rls" where
  "tpot_train r x y = Update r [fst x, snd x] y"

definition tpot_predict :: "tpot_rls \<Rightarrow> 64 word \<times> 64 word \<Rightarrow> rat" where
  "tpot_predict r x = Predict r [fst x, snd x]"

definition theta_at :: "tpot_rls \<Rightarrow> nat \<Rightarrow> rat" where
  "theta_at r i = rls_theta r ! i"

definition P_at :: "tpot_rls \<Rightarrow> nat \<Rightarrow> nat \<Rightarrow> rat" where
  "P_at r i j = rls_P r ! i ! j"

lemmas step_defs_3 = step_theta_def step_cov_def gain_den_def quad_def dot_def mat_vec_def sum_3

lemma tpot_train_matrix:
  fixes x :: "64 word \<times> 64 word" and y :: rat
  assumes "rls_theta r = [t0, t1, t2]" "rls_P r = [[a, b, c], [b, d, e], [c, e, f]]"
  defines "g i j \<equiv> step_cov 3 (rls_forget r) (P_at r) (tpot_phi x) i j"
  defines "t i \<equiv> step_theta 3 (rls_forget r) (P_at r) (theta_at r) (tpot_phi x) y i"
  shows "rls_theta (tpot_train r x y) = [t 0, t 1, t 2]"
    and "rls_P (tpot_train r x y) =
      [[g 0 0, g 0 1, g 0 2], [g 1 0, g 1 1, g 1 2], [g 2 0, g 2 1, g 2 2]]"
    and "rls_forget (tpot_train r x y) = rls_forget r"
  by (simp_all add: tpot_train_def Update_def TPOT_COEFF_NUM_def Let_def g_def t_def P_at_def theta_at_def
      tpot_phi_def assms(1,2) step_defs_3 ac_simps)

lemma tpot_train_at:
  assumes "tpot_rls_ok r"
  shows "i < 3 \<Longrightarrow> theta_at (tpot_train r x y) i =
      step_theta 3 (rls_forget r) (P_at r) (theta_at r) (tpot_phi x) y i"
    and "i < 3 \<Longrightarrow> j < 3 \<Longrightarrow> P_at (tpot_train r x y) i j =
      step_cov 3 (rls_forget r) (P_at r) (tpot_phi x) i j"
    and "rls_forget (tpot_train r x y) = rls_forget r"
    and "length (rls_theta (tpot_train r x y)) = 3" "length (rls_P (tpot_train r x y)) = 3"
    and "list_all (\<lambda>row. length row = 3) (rls_P (tpot_train r x y))"
proof -
  obtain t0 t1 t2 a b c d e f where
    "rls_theta r = [t0, t1, t2]" "rls_P r = [[a, b, c], [b, d, e], [c, e, f]]"
    using tpot_rls_ok_cases [OF assms] by metis
  note m = tpot_train_matrix [OF this, of x y]
  show "i < 3 \<Longrightarrow> theta_at (tpot_train r x y) i =
      step_theta 3 (rls_forget r) (P_at r) (theta_at r) (tpot_phi x) y i"
    using m(1) by (auto simp: theta_at_def [of "tpot_train r x y"] less_3_cases)
  show "i < 3 \<Longrightarrow> j < 3 \<Longrightarrow> P_at (tpot_train r x y) i j =
      step_cov 3 (rls_forget r) (P_at r) (tpot_phi x) i j"
    using m(2) by (auto simp: P_at_def [of "tpot_train r x y"] less_3_cases)
  show "rls_forget (tpot_train r x y) = rls_forget r" by (rule m(3))
  show "length (rls_theta (tpot_train r x y)) = 3" "length (rls_P (tpot_train r x y)) = 3"
      "list_all (\<lambda>row. length row = 3) (rls_P (tpot_train r x y))"
    using m(1,2) by simp_all
qed

lemma P_at_symmetric: "tpot_rls_ok r \<Longrightarrow> symmetric 3 (P_at r)"
  by (simp add: tpot_rls_ok_def P_at_def [abs_def])

lemma tpot_train_ok:
  assumes "tpot_rls_ok r"
  shows "tpot_rls_ok (tpot_train r x y)"
proof -
  have "symmetric 3 (P_at (tpot_train r x y))"
    using step_cov_symmetric [OF P_at_symmetric [OF assms]] tpot_train_at(2) [OF assms]
    by (simp add: symmetric_def)
  then show ?thesis
    using assms tpot_train_at(3-6) [OF assms] by (simp add: tpot_rls_ok_def P_at_def [abs_def])
qed

interpretation tpot_filter: rls_filter 3 tpot_phi theta_at P_at rls_forget tpot_rls_ok tpot_train tpot_predict
proof unfold_locales
  fix r :: tpot_rls and x :: "64 word \<times> 64 word" and y :: rat and i j :: nat
  assume ok: "tpot_rls_ok r"
  show "0 < rls_forget r" using ok by (simp add: tpot_rls_ok_def)
  show "symmetric 3 (P_at r)" using ok by (rule P_at_symmetric)
  show "tpot_rls_ok (tpot_train r x y)" using ok by (rule tpot_train_ok)
  show "rls_forget (tpot_train r x y) = rls_forget r" using ok by (rule tpot_train_at)
  show "tpot_predict r x = dot 3 (tpot_phi x) (theta_at r)"
    by (simp add: tpot_predict_def Predict_def TPOT_COEFF_NUM_def dot_def sum_3 tpot_phi_def theta_at_def)
  assume i: "i < 3"
  show "theta_at (tpot_train r x y) i =
      step_theta 3 (rls_forget r) (P_at r) (theta_at r) (tpot_phi x) y i"
    using ok i by (rule tpot_train_at)
  assume j: "j < 3"
  show "P_at (tpot_train r x y) i j = step_cov 3 (rls_forget r) (P_at r) (tpot_phi x) i j"
    using ok i j by (rule tpot_train_at)
qed

text \<open>A run of updates on samples in the order they arrive.\<close>

definition update_all :: "tpot_rls \<Rightarrow> ((64 word \<times> 64 word) \<times> rat) list \<Rightarrow> tpot_rls" where
  "update_all r samples = foldl (\<lambda>r s. Update r [fst (fst s), snd (fst s)] (snd s)) r samples"

lemma update_all_trained: "update_all r samples = tpot_filter.trained r (rev samples)"
  by (simp add: update_all_def tpot_filter.trained_def foldr_conv_foldl tpot_train_def case_prod_beta)

lemma new_tuned:
  "tuned 3 (ls_cost 3 tpot_phi l (1 / 10 ^ 6) []) (theta_at (NewTpotRLS forget)) (P_at (NewTpotRLS forget))"
proof (rule tuned_start)
  have *: "rls_theta (NewTpotRLS forget) = replicate 3 0" "rls_P (NewTpotRLS forget) = diagonal 3 (10 ^ 6)"
    by (simp_all add: NewTpotRLS_def TPOT_COEFF_NUM_def Let_def)
  fix i j :: nat
  assume i: "i < 3"
  show "theta_at (NewTpotRLS forget) i = 0" using i by (simp add: theta_at_def *)
  assume j: "j < 3"
  show "P_at (NewTpotRLS forget) i j = 1 / (1 / 10 ^ 6) * unit_mat i j"
    using i j by (simp add: P_at_def * diagonal_nth)
qed simp

lemma theta_at_list: "tpot_rls_ok r \<Longrightarrow> rls_theta r = [v 0, v 1, v 2] \<longleftrightarrow> (\<forall>i<3. v i = theta_at r i)"
  by (auto simp: tpot_rls_ok_def length_3 theta_at_def less_3_cases)

lemma update_all_ok: "tpot_rls_ok r \<Longrightarrow> tpot_rls_ok (update_all r samples)"
  using tpot_filter.trained_ok by (simp add: update_all_trained)

subsection \<open>Properties\<close>


text \<open>
  Training recovers a linear law.  If every sample of a run lies on one law
  \<open>a * batchsize + b * tokens + c\<close>, a filter without forgetting predicts each sample of the run
  up to the ridge term: the squared error is at most \<open>(a\<^sup>2 + b\<^sup>2 + c\<^sup>2) / 10 ^ 6\<close>.
\<close>

theorem tpot_rls_recovers_law:
  assumes "\<forall>(x, y) \<in> set samples. y = a * float64_of (fst x) + b * float64_of (snd x) + c"
    and "(x, y) \<in> set samples"
  shows "(y - Predict (update_all (NewTpotRLS 1) samples) [fst x, snd x])\<^sup>2
    \<le> (a\<^sup>2 + b\<^sup>2 + c\<^sup>2) / 10 ^ 6"
proof -
  let ?v = "\<lambda>i. [a, b, c] ! i"
  have lam: "rls_forget (NewTpotRLS 1) = 1" by (simp add: NewTpotRLS_def Let_def)
  have law: "\<forall>(x, y) \<in> set (rev samples). y = dot 3 (tpot_phi x) ?v"
    using assms(1) by (auto simp: dot_def sum_3 tpot_phi_def ac_simps)
  have "(y - tpot_predict (tpot_filter.trained (NewTpotRLS 1) (rev samples)) x)\<^sup>2
      \<le> 1 / 10 ^ 6 * dot 3 ?v ?v"
    by (rule tpot_filter.trained_fits [OF tpot_rls_ok_new new_tuned lam _ law]) (use assms(2) in simp_all)
  also have "dot 3 ?v ?v = a\<^sup>2 + b\<^sup>2 + c\<^sup>2" by (simp add: dot_def sum_3 power2_eq_square)
  finally show ?thesis by (simp add: tpot_predict_def update_all_trained)
qed

theorem tpot_rls_recovers_law_witness:
  "(11 - Predict (update_all (NewTpotRLS 1) [((2, 4), 7), ((4, 6), 11)]) [4, 6])\<^sup>2 \<le> (3 :: rat) / 10 ^ 6"
  using tpot_rls_recovers_law [of "[((2, 4), 7), ((4, 6), 11)]" 1 1 1 "(4, 6)" 11]
  by (simp add: float64_of_def)

text \<open>
  A clone carries the same coefficients, covariance matrix and forgetting factor: it behaves
  as the original on every later update and prediction.
\<close>

lemma Clone_same:
  assumes "tpot_rls_ok r"
  shows "Clone r = r"
proof -
  obtain t0 t1 t2 a b c d e f where
    "rls_theta r = [t0, t1, t2]" "rls_P r = [[a, b, c], [b, d, e], [c, e, f]]"
    using tpot_rls_ok_cases [OF assms] by metis
  then show ?thesis
    by (cases r) (simp add: Clone_def TPOT_COEFF_NUM_def go_copy_def upt_rec numeral_3_eq_3 numeral_2_eq_2)
qed

lemma Params_theta: "Params r = rls_theta r"
  by (simp add: Params_def)

end
