(* ===== verification/TpotPrediction.thy ===== *)
theory TpotPrediction
  imports TpotRls
begin

text \<open>
  \<^verbatim>\<open>pkg/prediction/tpot_prediction.go\<close>: the time-per-output-token predictor.  The batch
  sizes are cut into segments by an ascending list of thresholds, and each segment has its own
  least squares filter.  An index outside the filters is a panic (\<open>run\<close>).
\<close>

datatype tpot_error = ErrInvalidThreshOrder

record tpot_predictor =
  tp_thresh :: "64 word list"
  tp_rls :: "tpot_rls list"

fun validateThresh :: "64 word list \<Rightarrow> tpot_error option" where
  "validateThresh (t # u # ts) =
     (if u \<le> t then Some ErrInvalidThreshOrder else validateThresh (u # ts))"
| "validateThresh _ = None"

definition NewTpotPredictor :: "64 word list \<Rightarrow> tpot_error + tpot_predictor" where
  "NewTpotPredictor thresh =
     (case validateThresh thresh of
        Some err \<Rightarrow> Inl err
      | None \<Rightarrow>
          (let segNum = length thresh + 1 in
           Inr \<lparr>tp_thresh = go_copy (replicate (length thresh) 0) thresh,
                tp_rls = map (\<lambda>i. NewTpotRLS 1) [0..<segNum]\<rparr>))"

definition NewTpotPredictorWithParams ::
  "64 word list \<Rightarrow> rat list list \<Rightarrow> tpot_error + tpot_predictor" where
  "NewTpotPredictorWithParams thresh params =
     (case validateThresh thresh of
        Some err \<Rightarrow> Inl err
      | None \<Rightarrow>
          (let segNum = length thresh + 1 in
           Inr \<lparr>tp_thresh = go_copy (replicate (length thresh) 0) thresh,
                tp_rls = map (\<lambda>i. if i < length params then NewTpotRLSWithParams (params ! i)
                                   else NewTpotRLS 1) [0..<segNum]\<rparr>))"

definition PredictorParams :: "tpot_predictor \<Rightarrow> rat list list" where
  "PredictorParams c = map Params (tp_rls c)"

definition ClonePredictor :: "tpot_predictor \<Rightarrow> tpot_predictor" where
  "ClonePredictor c =
     \<lparr>tp_thresh = go_copy (replicate (length (tp_thresh c)) 0) (tp_thresh c),
      tp_rls = map (\<lambda>i. TpotRls.Clone (tp_rls c ! i)) [0..<length (tp_rls c)]\<rparr>"

text \<open>
  The loop over the thresholds: the first threshold above the batch size, or one past the last
  index the loop had.  The index starts at zero, so it is zero when the loop has no iteration.
\<close>

fun segment_loop :: "64 word list \<Rightarrow> nat \<Rightarrow> nat \<Rightarrow> 64 word \<Rightarrow> nat" where
  "segment_loop [] i idx batchsize = idx + 1"
| "segment_loop (t # ts) i idx batchsize =
     (if batchsize < t then i else segment_loop ts (i + 1) i batchsize)"

definition segment :: "tpot_predictor \<Rightarrow> 64 word \<Rightarrow> nat" where
  "segment c batchsize = segment_loop (tp_thresh c) 0 0 batchsize"

definition TrainTpot :: "tpot_predictor \<Rightarrow> 64 word \<Rightarrow> 64 word \<Rightarrow> rat \<Rightarrow> tpot_predictor run" where
  "TrainTpot c batchsize totalTokenNum y =
     (let seg = segment c batchsize in
      run_bind (at_index (tp_rls c) (int seg)) (\<lambda>r.
        Ret (c\<lparr>tp_rls := (tp_rls c)[seg := Update r [batchsize, totalTokenNum] y]\<rparr>)))"

definition PredictTpot :: "tpot_predictor \<Rightarrow> 64 word \<Rightarrow> 64 word \<Rightarrow> rat run" where
  "PredictTpot c batchsize totalTokenNum =
     (let seg = segment c batchsize in
      run_bind (at_index (tp_rls c) (int seg)) (\<lambda>r.
        Ret (Predict r [batchsize, totalTokenNum])))"

text \<open>A run of training calls.\<close>

fun train_tpot_all :: "tpot_predictor \<Rightarrow> ((64 word \<times> 64 word) \<times> rat) list \<Rightarrow> tpot_predictor run" where
  "train_tpot_all c [] = Ret c"
| "train_tpot_all c (((b, t), y) # samples) =
     run_bind (TrainTpot c b t y) (\<lambda>c. train_tpot_all c samples)"

subsection \<open>Segments\<close>

lemma validateThresh_ok: "validateThresh ts = None \<longleftrightarrow> sorted_wrt (<) ts"
  by (induction ts rule: validateThresh.induct) (auto simp: sorted_wrt2 [OF transp_on_less] not_le)

text \<open>The segment of a batch size: the number of thresholds it has reached.\<close>

definition segment_spec :: "64 word list \<Rightarrow> 64 word \<Rightarrow> nat" where
  "segment_spec ts b = length (filter (\<lambda>t. t \<le> b) ts)"

lemma segment_loop_spec:
  "sorted_wrt (<) ts \<Longrightarrow> ts \<noteq> [] \<or> i = idx + 1 \<Longrightarrow> segment_loop ts i idx b = i + segment_spec ts b"
proof (induction ts arbitrary: i idx)
  case (Cons t ts)
  show ?case
  proof (cases "b < t")
    case True
    then have "filter (\<lambda>t. t \<le> b) (t # ts) = []"
      using Cons.prems(1) by (auto simp: filter_empty_conv)
    with True show ?thesis by (simp add: segment_spec_def del: filter.simps)
  next
    case False
    then show ?thesis using Cons.IH [of "i + 1" i] Cons.prems(1) by (simp add: segment_spec_def)
  qed
qed (auto simp: segment_spec_def)

text \<open>Well-formed predictors: what the constructors make of at least one threshold.\<close>

definition tpot_predictor_ok :: "tpot_predictor \<Rightarrow> bool" where
  "tpot_predictor_ok c \<longleftrightarrow>
     sorted_wrt (<) (tp_thresh c) \<and> length (tp_rls c) = length (tp_thresh c) + 1 \<and>
     list_all tpot_rls_ok (tp_rls c)"

lemma segment_of: "tpot_predictor_ok c \<Longrightarrow> tp_thresh c \<noteq> [] \<Longrightarrow> segment c b = segment_spec (tp_thresh c) b"
  by (simp add: segment_def tpot_predictor_ok_def segment_loop_spec)

lemma segment_spec_le: "segment_spec ts b \<le> length ts"
  by (simp add: segment_spec_def)

lemma new_predictor_ok: "NewTpotPredictor ts = Inr c \<Longrightarrow> tpot_predictor_ok c \<and> tp_thresh c = ts"
  by (auto simp: NewTpotPredictor_def tpot_predictor_ok_def validateThresh_ok Let_def list_all_iff
      tpot_rls_ok_new split: option.splits)

lemma params_predictor_ok:
  "NewTpotPredictorWithParams ts ps = Inr c \<Longrightarrow> tpot_predictor_ok c \<and> tp_thresh c = ts"
  by (auto simp: NewTpotPredictorWithParams_def tpot_predictor_ok_def validateThresh_ok Let_def
      list_all_iff tpot_rls_ok_new tpot_rls_ok_params split: option.splits)

lemma at_segment:
  assumes "tpot_predictor_ok c" "tp_thresh c \<noteq> []"
  shows "at_index (tp_rls c) (int (segment c b)) = Ret (tp_rls c ! segment c b)"
    and "segment c b < length (tp_rls c)" and "tpot_rls_ok (tp_rls c ! segment c b)"
proof -
  show seg: "segment c b < length (tp_rls c)"
    using assms segment_spec_le [of "tp_thresh c" b] by (simp add: segment_of tpot_predictor_ok_def)
  then show "at_index (tp_rls c) (int (segment c b)) = Ret (tp_rls c ! segment c b)" by simp
  show "tpot_rls_ok (tp_rls c ! segment c b)"
    using assms(1) seg by (simp add: tpot_predictor_ok_def list_all_length)
qed

lemma TrainTpot_ok:
  assumes "tpot_predictor_ok c" "tp_thresh c \<noteq> []"
  shows "\<exists>c'. TrainTpot c b t y = Ret c' \<and> tpot_predictor_ok c' \<and> tp_thresh c' = tp_thresh c \<and>
    tp_rls c' = (tp_rls c)[segment c b := Update (tp_rls c ! segment c b) [b, t] y]"
proof -
  have "tpot_rls_ok (Update (tp_rls c ! segment c b) [b, t] y)"
    using tpot_train_ok [OF at_segment(3) [OF assms], of b "(b, t)" y] by (simp add: tpot_train_def)
  then have "list_all tpot_rls_ok ((tp_rls c)[segment c b := Update (tp_rls c ! segment c b) [b, t] y])"
    using assms(1) set_update_subset_insert [of "tp_rls c" "segment c b"]
    unfolding tpot_predictor_ok_def list_all_iff by blast
  then show ?thesis
    using assms(1) at_segment(1) [OF assms] by (simp add: TrainTpot_def Let_def tpot_predictor_ok_def)
qed

lemma train_tpot_all_ok:
  assumes "tpot_predictor_ok c" "tp_thresh c \<noteq> []"
  shows "\<exists>c'. train_tpot_all c samples = Ret c' \<and> tpot_predictor_ok c' \<and> tp_thresh c' = tp_thresh c \<and>
    (\<forall>i < length (tp_rls c). tp_rls c' ! i =
       update_all (tp_rls c ! i) (filter (\<lambda>s. segment c (fst (fst s)) = i) samples))"
  using assms
proof (induction samples arbitrary: c)
  case (Cons s samples)
  obtain b t y where s: "s = ((b, t), y)" by (metis prod.exhaust)
  obtain c1 where c1: "TrainTpot c b t y = Ret c1" "tpot_predictor_ok c1" "tp_thresh c1 = tp_thresh c"
      "tp_rls c1 = (tp_rls c)[segment c b := Update (tp_rls c ! segment c b) [b, t] y]"
    using TrainTpot_ok [OF Cons.prems] by blast
  have seg: "segment c1 = segment c" using c1(3) by (simp add: segment_def [abs_def])
  obtain c' where "train_tpot_all c1 samples = Ret c'" "tpot_predictor_ok c'" "tp_thresh c' = tp_thresh c"
      "\<forall>i < length (tp_rls c). tp_rls c' ! i =
         update_all (tp_rls c1 ! i) (filter (\<lambda>s. segment c (fst (fst s)) = i) samples)"
    using Cons.IH [OF c1(2)] Cons.prems(2) c1(3,4) seg by auto
  then show ?case
    using c1(1,4) by (intro exI [of _ c']) (simp add: s update_all_def nth_list_update)
qed (simp add: update_all_def)

subsection \<open>Properties\<close>

text \<open>
  The segments partition the batch sizes.  For a predictor made from at least one threshold,
  a batch size is in segment \<open>i\<close> exactly when it has reached the threshold below and not the
  threshold above, the last segment being open.
\<close>

theorem tpot_segment:
  assumes "NewTpotPredictor ts = Inr c" and "ts \<noteq> []"
  shows "segment c b = i \<longleftrightarrow>
    i \<le> length ts \<and> (i = 0 \<or> ts ! (i - 1) \<le> b) \<and> (i = length ts \<or> b < ts ! i)"
proof -
  have ok: "tpot_predictor_ok c" "tp_thresh c = ts" using new_predictor_ok [OF assms(1)] by auto
  then have sorted: "sorted_wrt (<) ts" by (simp add: tpot_predictor_ok_def)
  have "segment_spec ts b = i \<longleftrightarrow>
    i \<le> length ts \<and> (i = 0 \<or> ts ! (i - 1) \<le> b) \<and> (i = length ts \<or> b < ts ! i)"
    using sorted
  proof (induction ts arbitrary: i)
    case (Cons t ts)
    show ?case
    proof (cases "t \<le> b")
      case True
      then show ?thesis
        using Cons.IH [of "i - 1"] Cons.prems by (cases i) (auto simp: segment_spec_def nth_Cons')
    next
      case False
      then have above: "\<forall>u \<in> set ts. b < u" using Cons.prems by auto
      then have below: "filter (\<lambda>t. t \<le> b) ts = []" and up: "\<forall>j < length ts. b < ts ! j"
        by (simp_all add: filter_empty_conv not_le)
      then have "segment_spec (t # ts) b = 0" using False by (simp add: segment_spec_def)
      then show ?thesis
        using False up by (cases i) (auto simp: nth_Cons' not_le dest: leD)
    qed
  qed (auto simp: segment_spec_def)
  then show ?thesis using segment_of [OF ok(1), of b] ok(2) assms(2) by simp
qed

theorem tpot_segment_witness:
  "(case NewTpotPredictor [8, 32] of Inl e \<Rightarrow> False | Inr c \<Rightarrow> segment c 8 = 1 \<and> segment c 7 = 0)"
proof -
  obtain c where c: "NewTpotPredictor [8, 32] = Inr c" by (simp add: NewTpotPredictor_def Let_def)
  show ?thesis
    using tpot_segment [OF c, of 8 1] tpot_segment [OF c, of 7 0] by (simp add: c)
qed

text \<open>
  Each segment is trained on its own samples and on no others.  A predictor made from at least
  one threshold never panics in training or prediction, and after any run of training calls its
  prediction for a batch size is that of a fresh filter updated with exactly the samples whose
  batch size is in the same segment, in their order.
\<close>

theorem tpot_segments_independent:
  assumes "NewTpotPredictor ts = Inr c" and "ts \<noteq> []"
  shows "\<exists>c'. train_tpot_all c samples = Ret c' \<and>
    PredictTpot c' b t =
      Ret (Predict (update_all (NewTpotRLS 1)
        (filter (\<lambda>s. segment c (fst (fst s)) = segment c b) samples)) [b, t])"
proof -
  have ok: "tpot_predictor_ok c" "tp_thresh c = ts" using new_predictor_ok [OF assms(1)] by auto
  obtain c' where c': "train_tpot_all c samples = Ret c'" "tpot_predictor_ok c'" "tp_thresh c' = ts"
      "\<forall>i < length (tp_rls c). tp_rls c' ! i =
         update_all (tp_rls c ! i) (filter (\<lambda>s. segment c (fst (fst s)) = i) samples)"
    using train_tpot_all_ok [OF ok(1), of samples] assms(2) ok(2) by auto
  have seg: "segment c' b = segment c b" using c'(3) ok(2) by (simp add: segment_def)
  have i: "segment c b < length (tp_rls c)" using at_segment(2) [OF ok(1)] ok(2) assms(2) by simp
  have "tp_rls c = map (\<lambda>i. NewTpotRLS 1) [0..<length ts + 1]"
    using assms(1) by (auto simp: NewTpotPredictor_def Let_def split: option.splits)
  with i have new: "tp_rls c ! segment c b = NewTpotRLS 1" by (simp del: upt_Suc)
  have "at_index (tp_rls c') (int (segment c' b)) = Ret (tp_rls c' ! segment c' b)"
    using at_segment(1) [OF c'(2)] c'(3) assms(2) by simp
  then show ?thesis
    using c'(1,4) i by (intro exI [of _ c']) (simp add: PredictTpot_def Let_def seg new)
qed

theorem tpot_segments_independent_witness:
  "(case NewTpotPredictor [8] of Inl e \<Rightarrow> False
    | Inr c \<Rightarrow> (\<exists>c'. train_tpot_all c [((9, 1), 5)] = Ret c' \<and> PredictTpot c' 3 4 = Ret 0))"
proof -
  obtain c where c: "NewTpotPredictor [8] = Inr c" "tp_thresh c = [8]"
    by (simp add: NewTpotPredictor_def Let_def)
  have "Predict (NewTpotRLS 1) [3, 4] = 0"
    by (simp add: Predict_def TPOT_COEFF_NUM_def NewTpotRLS_def Let_def)
  then show ?thesis
    using tpot_segments_independent [OF c(1), of "[((9, 1), 5)]" 3 4]
    by (simp add: c segment_def update_all_def)
qed

text \<open>
  Constructing a predictor succeeds on the empty list of thresholds and yields one filter, but
  the segment of every batch size is then segment one: every training and prediction call panics
  with an index out of range, whatever parameters the predictor was given.
\<close>

theorem tpot_empty_thresh_panics:
  "\<exists>c. NewTpotPredictorWithParams [] params = Inr c \<and> length (tp_rls c) = 1 \<and>
     segment c b = 1 \<and> TrainTpot c b t y = Panic \<and> PredictTpot c b t = Panic"
  by (simp add: NewTpotPredictorWithParams_def segment_def TrainTpot_def PredictTpot_def at_index_def)

text \<open>A clone predicts as the original.\<close>

lemma ClonePredictor_same:
  assumes "tpot_predictor_ok c"
  shows "ClonePredictor c = c"
proof -
  have "map (\<lambda>i. TpotRls.Clone (tp_rls c ! i)) [0..<length (tp_rls c)] = tp_rls c"
    using assms by (intro nth_equalityI) (auto simp: tpot_predictor_ok_def list_all_length Clone_same simp del: upt_Suc)
  then show ?thesis by (simp add: ClonePredictor_def)
qed

end
