(* ===== verification/TtftPrediction.thy ===== *)
theory TtftPrediction
  imports RlsAlgebra
begin

text \<open>
  \<^verbatim>\<open>pkg/prediction/prediction.go\<close>: the recursive least squares filter of the
  time-to-first-token predictor, a polynomial of degree two in the prompt length and the cached
  length with six coefficients.  \<open>float64\<close> is an exact rational, \<open>int\<close> an integer.

  Rows and columns are indexed below the field \<open>n\<close>, which the constructor sets to six; the
  loops over the rows are maps over the indices.
\<close>

record ttft_rls =
  t_params :: "rat list"
  t_p :: "rat list list"
  t_lambda :: rat
  t_n :: nat

definition NewRLS :: "rat \<Rightarrow> ttft_rls" where
  "NewRLS l =
     (let n = 6;
          params = replicate n 0;
          p = map (\<lambda>i. (replicate n 0)[i := 10 ^ 6]) [0..<n]
      in \<lparr>t_params = params, t_p = p, t_lambda = l, t_n = n\<rparr>)"

definition PredictRLS :: "ttft_rls \<Rightarrow> int \<Rightarrow> int \<Rightarrow> rat" where
  "PredictRLS rls input cached =
     (let x1 = of_int input;
          x2 = of_int cached
      in t_params rls ! 0 * x1 * x1 + t_params rls ! 1 * x2 * x2 + t_params rls ! 2 * x1 * x2
         + t_params rls ! 3 * x1 + t_params rls ! 4 * x2 + t_params rls ! 5 * 1)"

definition constructFeatures :: "int \<Rightarrow> int \<Rightarrow> rat list" where
  "constructFeatures input cached =
     (let i = of_int input;
          cac = of_int cached
      in [i * i, cac * cac, i * cac, i, cac, 1])"

definition update :: "ttft_rls \<Rightarrow> rat list \<Rightarrow> rat \<Rightarrow> ttft_rls" where
  "update rls features y =
     (let p = t_p rls;
          phiTP = map (\<lambda>i. 0 + (features ! 0 * p ! 0 ! i + features ! 1 * p ! 1 ! i
                    + features ! 2 * p ! 2 ! i + features ! 3 * p ! 3 ! i
                    + features ! 4 * p ! 4 ! i + features ! 5 * p ! 5 ! i)) [0..<t_n rls];
          phiTPPhi = phiTP ! 0 * features ! 0 + phiTP ! 1 * features ! 1 + phiTP ! 2 * features ! 2
                    + phiTP ! 3 * features ! 3 + phiTP ! 4 * features ! 4 + phiTP ! 5 * features ! 5;
          denominator = t_lambda rls + phiTPPhi;
          k = map (\<lambda>i. (0 + (p ! i ! 0 * features ! 0 + p ! i ! 1 * features ! 1
                    + p ! i ! 2 * features ! 2 + p ! i ! 3 * features ! 3
                    + p ! i ! 4 * features ! 4 + p ! i ! 5 * features ! 5)) / denominator)
                [0..<t_n rls];
          w = t_params rls;
          errVal = y - features ! 0 * w ! 0 - features ! 1 * w ! 1 - features ! 2 * w ! 2
                    - features ! 3 * w ! 3 - features ! 4 * w ! 4 - features ! 5 * w ! 5
      in rls\<lparr>t_params := w[0 := w ! 0 + k ! 0 * errVal, 1 := w ! 1 + k ! 1 * errVal,
                           2 := w ! 2 + k ! 2 * errVal, 3 := w ! 3 + k ! 3 * errVal,
                           4 := w ! 4 + k ! 4 * errVal, 5 := w ! 5 + k ! 5 * errVal],
             t_p := map (\<lambda>i.
               (p ! i)[0 := (p ! i ! 0 - k ! i * phiTP ! 0) / t_lambda rls,
                       1 := (p ! i ! 1 - k ! i * phiTP ! 1) / t_lambda rls,
                       2 := (p ! i ! 2 - k ! i * phiTP ! 2) / t_lambda rls,
                       3 := (p ! i ! 3 - k ! i * phiTP ! 3) / t_lambda rls,
                       4 := (p ! i ! 4 - k ! i * phiTP ! 4) / t_lambda rls,
                       5 := (p ! i ! 5 - k ! i * phiTP ! 5) / t_lambda rls]) [0..<t_n rls]\<rparr>)"

definition TrainRLS :: "ttft_rls \<Rightarrow> int \<Rightarrow> int \<Rightarrow> rat \<Rightarrow> ttft_rls" where
  "TrainRLS rls input cached y = update rls (constructFeatures input cached) y"

definition CloneRLS :: "ttft_rls \<Rightarrow> ttft_rls" where
  "CloneRLS rls =
     \<lparr>t_params = go_copy (replicate (t_n rls) 0) (t_params rls),
      t_p = map (\<lambda>i. if i < length (t_p rls) then go_copy (replicate (t_n rls) 0) (t_p rls ! i) else [])
              [0..<t_n rls],
      t_lambda = t_lambda rls,
      t_n = t_n rls\<rparr>"

definition ParamsRLS :: "ttft_rls \<Rightarrow> rat list" where
  "ParamsRLS rls = t_params rls"

subsection \<open>Well-formed filters\<close>

definition params_at :: "ttft_rls \<Rightarrow> nat \<Rightarrow> rat" where
  "params_at r i = t_params r ! i"

definition p_at :: "ttft_rls \<Rightarrow> nat \<Rightarrow> nat \<Rightarrow> rat" where
  "p_at r i j = t_p r ! i ! j"

definition ttft_phi :: "int \<times> int \<Rightarrow> nat \<Rightarrow> rat" where
  "ttft_phi x i = constructFeatures (fst x) (snd x) ! i"

definition ttft_rls_ok :: "ttft_rls \<Rightarrow> bool" where
  "ttft_rls_ok r \<longleftrightarrow>
     t_n r = 6 \<and> length (t_params r) = 6 \<and> length (t_p r) = 6 \<and>
     list_all (\<lambda>row. length row = 6) (t_p r) \<and> 0 < t_lambda r \<and> symmetric 6 (p_at r)"

definition ttft_train :: "ttft_rls \<Rightarrow> int \<times> int \<Rightarrow> rat \<Rightarrow> ttft_rls" where
  "ttft_train r x y = TrainRLS r (fst x) (snd x) y"

definition ttft_predict :: "ttft_rls \<Rightarrow> int \<times> int \<Rightarrow> rat" where
  "ttft_predict r x = PredictRLS r (fst x) (snd x)"

lemma sum_6: "(\<Sum>i<(6 :: nat). f i) = f 0 + f 1 + f 2 + f 3 + f 4 + (f 5 :: rat)"
  by (simp add: eval_nat_numeral)

lemma less_6_cases: "i < (6 :: nat) \<longleftrightarrow> i = 0 \<or> i = 1 \<or> i = 2 \<or> i = 3 \<or> i = 4 \<or> i = 5"
  by auto

lemma nth_updates_6:
  "length xs = 6 \<Longrightarrow> i < 6 \<Longrightarrow>
    xs[0 := f 0, 1 := f 1, 2 := f 2, 3 := f 3, 4 := f 4, 5 := f 5] ! i = (f i :: rat)"
  by (auto simp: less_6_cases)

lemma nth_map_6: "i < 6 \<Longrightarrow> map f [0..<6] ! i = f i"
  by simp

lemma mat_vec_6:
  "mat_vec 6 M v i = M i 0 * v 0 + M i 1 * v 1 + M i 2 * v 2 + M i 3 * v 3 + M i 4 * v 4 + M i 5 * v 5"
  by (simp add: mat_vec_def sum_6)

lemma vec_mat_6:
  "vec_mat 6 v M j = v 0 * M 0 j + v 1 * M 1 j + v 2 * M 2 j + v 3 * M 3 j + v 4 * M 4 j + v 5 * M 5 j"
  by (simp add: vec_mat_def sum_6)

lemma dot_6: "dot 6 u v = u 0 * v 0 + u 1 * v 1 + u 2 * v 2 + u 3 * v 3 + u 4 * v 4 + u 5 * v 5"
  by (simp add: dot_def sum_6)

text \<open>The step of the code in the terms of the algebra.\<close>

lemma update_matrix:
  assumes "ttft_rls_ok r" and phi: "f = ttft_phi x"
  defines "g \<equiv> mat_vec 6 (p_at r) f"
  defines "den \<equiv> gain_den 6 (t_lambda r) (p_at r) f"
  shows "t_params (ttft_train r x y) =
    (t_params r)[0 := params_at r 0 + g 0 / den * (y - dot 6 f (params_at r)),
        1 := params_at r 1 + g 1 / den * (y - dot 6 f (params_at r)),
        2 := params_at r 2 + g 2 / den * (y - dot 6 f (params_at r)),
        3 := params_at r 3 + g 3 / den * (y - dot 6 f (params_at r)),
        4 := params_at r 4 + g 4 / den * (y - dot 6 f (params_at r)),
        5 := params_at r 5 + g 5 / den * (y - dot 6 f (params_at r))]"
    and "t_p (ttft_train r x y) =
      map (\<lambda>i. (t_p r ! i)[0 := (p_at r i 0 - g i / den * g 0) / t_lambda r,
        1 := (p_at r i 1 - g i / den * g 1) / t_lambda r,
        2 := (p_at r i 2 - g i / den * g 2) / t_lambda r,
        3 := (p_at r i 3 - g i / den * g 3) / t_lambda r,
        4 := (p_at r i 4 - g i / den * g 4) / t_lambda r,
        5 := (p_at r i 5 - g i / den * g 5) / t_lambda r]) [0..<6]"
    and "t_lambda (ttft_train r x y) = t_lambda r" "t_n (ttft_train r x y) = 6"
proof -
  define fs where "fs = constructFeatures (fst x) (snd x)"
  have f: "f i = fs ! i" for i by (simp add: phi ttft_phi_def fs_def)
  have n: "t_n r = 6" using assms(1) by (simp add: ttft_rls_ok_def)
  have "vec_mat 6 f (p_at r) i = g i" if "i < 6" for i
    using assms(1) that by (simp add: g_def symmetric_vec_mat ttft_rls_ok_def)
  then have phiTP: "map (\<lambda>i. 0 + (fs ! 0 * t_p r ! 0 ! i + fs ! 1 * t_p r ! 1 ! i
      + fs ! 2 * t_p r ! 2 ! i + fs ! 3 * t_p r ! 3 ! i
      + fs ! 4 * t_p r ! 4 ! i + fs ! 5 * t_p r ! 5 ! i)) [0..<6] = map g [0..<6]"
    by (intro map_cong refl) (simp add: vec_mat_6 f p_at_def)
  have Pf: "0 + (t_p r ! i ! 0 * fs ! 0 + t_p r ! i ! 1 * fs ! 1
      + t_p r ! i ! 2 * fs ! 2 + t_p r ! i ! 3 * fs ! 3
      + t_p r ! i ! 4 * fs ! 4 + t_p r ! i ! 5 * fs ! 5) = g i" for i
    by (simp add: g_def mat_vec_6 p_at_def f)
  have den: "t_lambda r + (g 0 * fs ! 0 + g 1 * fs ! 1 + g 2 * fs ! 2 + g 3 * fs ! 3
      + g 4 * fs ! 4 + g 5 * fs ! 5) = den"
    by (simp add: den_def gain_den_def quad_def dot_6 g_def [symmetric] f mult.commute)
  have err: "y - fs ! 0 * t_params r ! 0 - fs ! 1 * t_params r ! 1 - fs ! 2 * t_params r ! 2
      - fs ! 3 * t_params r ! 3 - fs ! 4 * t_params r ! 4 - fs ! 5 * t_params r ! 5
      = y - dot 6 f (params_at r)"
    by (simp add: dot_6 params_at_def f)
  have nth: "map h [0..<6] ! 0 = h 0" "map h [0..<6] ! 1 = h 1" "map h [0..<6] ! 2 = h 2"
    "map h [0..<6] ! 3 = h 3" "map h [0..<6] ! 4 = h 4" "map h [0..<6] ! 5 = h 5" for h :: "nat \<Rightarrow> rat"
    by (rule nth_map_6, simp)+
  have step: "ttft_train r x y = update r fs y" by (simp add: ttft_train_def TrainRLS_def fs_def)
  note unf = step update_def Let_def n
  show "t_params (ttft_train r x y) =
    (t_params r)[0 := params_at r 0 + g 0 / den * (y - dot 6 f (params_at r)),
        1 := params_at r 1 + g 1 / den * (y - dot 6 f (params_at r)),
        2 := params_at r 2 + g 2 / den * (y - dot 6 f (params_at r)),
        3 := params_at r 3 + g 3 / den * (y - dot 6 f (params_at r)),
        4 := params_at r 4 + g 4 / den * (y - dot 6 f (params_at r)),
        5 := params_at r 5 + g 5 / den * (y - dot 6 f (params_at r))]"
    unfolding unf
    unfolding phiTP Pf
    unfolding nth den err
    by (simp add: params_at_def [of r])
  show "t_p (ttft_train r x y) =
      map (\<lambda>i. (t_p r ! i)[0 := (p_at r i 0 - g i / den * g 0) / t_lambda r,
        1 := (p_at r i 1 - g i / den * g 1) / t_lambda r,
        2 := (p_at r i 2 - g i / den * g 2) / t_lambda r,
        3 := (p_at r i 3 - g i / den * g 3) / t_lambda r,
        4 := (p_at r i 4 - g i / den * g 4) / t_lambda r,
        5 := (p_at r i 5 - g i / den * g 5) / t_lambda r]) [0..<6]"
    unfolding unf
    unfolding phiTP Pf
    unfolding nth den err
    unfolding p_at_def [of r]
    by (simp add: nth_map_6 cong: map_cong del: upt_rec_numeral nth_map)
  show "t_lambda (ttft_train r x y) = t_lambda r" "t_n (ttft_train r x y) = 6"
    unfolding step update_def Let_def by (simp_all add: n)
qed

lemma ttft_train_at:
  assumes "ttft_rls_ok r"
  shows "i < 6 \<Longrightarrow> params_at (ttft_train r x y) i =
      step_theta 6 (t_lambda r) (p_at r) (params_at r) (ttft_phi x) y i"
    and "i < 6 \<Longrightarrow> j < 6 \<Longrightarrow> p_at (ttft_train r x y) i j =
      step_cov 6 (t_lambda r) (p_at r) (ttft_phi x) i j"
    and "t_lambda (ttft_train r x y) = t_lambda r" "t_n (ttft_train r x y) = 6"
    and "length (t_params (ttft_train r x y)) = 6" "length (t_p (ttft_train r x y)) = 6"
    and "list_all (\<lambda>row. length row = 6) (t_p (ttft_train r x y))"
proof -
  note m = update_matrix [OF assms refl, of x y]
  have len: "length (t_params r) = 6" "length (t_p r) = 6" "\<And>i. i < 6 \<Longrightarrow> length (t_p r ! i) = 6"
    using assms by (simp_all add: ttft_rls_ok_def list_all_length)
  show "params_at (ttft_train r x y) i =
      step_theta 6 (t_lambda r) (p_at r) (params_at r) (ttft_phi x) y i" if "i < 6"
    unfolding params_at_def [of "ttft_train r x y"]
    unfolding m step_theta_def
    by (subst nth_updates_6) (simp_all add: len that)
  show "p_at (ttft_train r x y) i j = step_cov 6 (t_lambda r) (p_at r) (ttft_phi x) i j"
    if "i < 6" "j < 6"
    unfolding p_at_def [of "ttft_train r x y"]
    unfolding m step_cov_def nth_map_6 [OF that(1)]
    by (subst nth_updates_6) (simp_all add: len that)
  show "t_lambda (ttft_train r x y) = t_lambda r" "t_n (ttft_train r x y) = 6"
      "length (t_params (ttft_train r x y)) = 6" "length (t_p (ttft_train r x y)) = 6"
    unfolding m using assms by (simp_all add: ttft_rls_ok_def)
  show "list_all (\<lambda>row. length row = 6) (t_p (ttft_train r x y))"
    unfolding m by (simp add: list_all_iff len del: upt_rec_numeral)
qed

lemma ttft_train_ok:
  assumes "ttft_rls_ok r"
  shows "ttft_rls_ok (ttft_train r x y)"
proof -
  have "symmetric 6 (p_at r)" using assms by (simp add: ttft_rls_ok_def)
  then have "symmetric 6 (p_at (ttft_train r x y))"
    using step_cov_symmetric ttft_train_at(2) [OF assms] by (simp add: symmetric_def)
  then show ?thesis
    using assms ttft_train_at(3-7) [OF assms] by (simp add: ttft_rls_ok_def)
qed

interpretation ttft_filter: rls_filter 6 ttft_phi params_at p_at t_lambda ttft_rls_ok ttft_train ttft_predict
proof unfold_locales
  fix r :: ttft_rls and x :: "int \<times> int" and y :: rat and i j :: nat
  assume ok: "ttft_rls_ok r"
  show "0 < t_lambda r" "symmetric 6 (p_at r)" using ok by (simp_all add: ttft_rls_ok_def)
  show "ttft_rls_ok (ttft_train r x y)" using ok by (rule ttft_train_ok)
  show "t_lambda (ttft_train r x y) = t_lambda r" using ok by (rule ttft_train_at)
  show "ttft_predict r x = dot 6 (ttft_phi x) (params_at r)"
    by (simp add: ttft_predict_def PredictRLS_def dot_6 ttft_phi_def constructFeatures_def params_at_def
        Let_def ac_simps)
  assume i: "i < 6"
  show "params_at (ttft_train r x y) i =
      step_theta 6 (t_lambda r) (p_at r) (params_at r) (ttft_phi x) y i"
    using ok i by (rule ttft_train_at)
  assume j: "j < 6"
  show "p_at (ttft_train r x y) i j = step_cov 6 (t_lambda r) (p_at r) (ttft_phi x) i j"
    using ok i j by (rule ttft_train_at)
qed

text \<open>A run of training calls on samples in the order they arrive.\<close>

definition train_all :: "ttft_rls \<Rightarrow> ((int \<times> int) \<times> rat) list \<Rightarrow> ttft_rls" where
  "train_all r samples = foldl (\<lambda>r s. TrainRLS r (fst (fst s)) (snd (fst s)) (snd s)) r samples"

lemma train_all_trained: "train_all r samples = ttft_filter.trained r (rev samples)"
  by (simp add: train_all_def ttft_filter.trained_def foldr_conv_foldl ttft_train_def case_prod_beta)

lemma NewRLS_at: "i < 6 \<Longrightarrow> params_at (NewRLS l) i = 0"
  "i < 6 \<Longrightarrow> j < 6 \<Longrightarrow> p_at (NewRLS l) i j = 10 ^ 6 * unit_mat i j"
  unfolding params_at_def p_at_def NewRLS_def Let_def ttft_rls.simps
  by (simp_all add: nth_map_6 nth_list_update unit_mat_def del: upt_rec_numeral)

lemma new_ttft_ok: "0 < l \<Longrightarrow> ttft_rls_ok (NewRLS l)"
  unfolding ttft_rls_ok_def
  by (simp add: symmetric_def NewRLS_at unit_mat_def)
    (simp add: NewRLS_def list_all_iff del: upt_rec_numeral)

lemma new_ttft_tuned: "tuned 6 (ls_cost 6 ttft_phi l (1 / 10 ^ 6) []) (params_at (NewRLS l')) (p_at (NewRLS l'))"
  by (rule tuned_start) (simp_all add: NewRLS_at)

lemma train_all_ok:
  assumes "ttft_rls_ok r"
  shows "ttft_rls_ok (train_all r samples)" "t_lambda (train_all r samples) = t_lambda r"
  using ttft_filter.trained_ok [OF assms] by (simp_all add: train_all_trained)

lemma list_6_eq:
  assumes "length xs = 6"
  shows "xs = [v 0, v 1, v 2, v 3, v 4, v 5] \<longleftrightarrow> (\<forall>i<6. v i = xs ! i)"
proof
  assume "\<forall>i<6. v i = xs ! i"
  then have "xs = map v [0..<6]" using assms by (intro nth_equalityI) (simp_all del: upt_rec_numeral)
  then show "xs = [v 0, v 1, v 2, v 3, v 4, v 5]" by (simp add: upt_rec eval_nat_numeral)
qed (auto simp: less_6_cases)

subsection \<open>Properties\<close>

text \<open>
  The time-to-first-token filter is a least squares fit of a polynomial of degree two.  For a
  positive forgetting factor, after any run of training calls the six coefficients minimise the
  squared error of all samples, weighted by the forgetting factor to the power of their age, plus
  the ridge term of the initial covariance matrix; no other coefficients reach that error; and the
  denominator of the next gain is positive, so training never divides by zero.
\<close>

theorem ttft_rls_least_squares:
  assumes "0 < l"
  shows "(let r = train_all (NewRLS l) samples;
              cost = ls_cost 6 ttft_phi l (1 / 10 ^ 6) (rev samples)
    in cost (params_at r) \<le> cost v \<and>
       (cost v \<le> cost (params_at r) \<longleftrightarrow> ParamsRLS r = [v 0, v 1, v 2, v 3, v 4, v 5]) \<and>
       0 < gain_den 6 (t_lambda r) (p_at r) (ttft_phi x))"
proof -
  let ?new = "NewRLS l"
  let ?r = "train_all ?new samples"
  let ?J = "ls_cost 6 ttft_phi l (1 / 10 ^ 6) (rev samples)"
  have new: "ttft_rls_ok ?new" "t_lambda ?new = l"
    using assms by (simp_all add: new_ttft_ok) (simp add: NewRLS_def)
  note opt = ttft_filter.trained_optimal [OF new(1) new_ttft_tuned, where h = "rev samples",
      folded train_all_trained, unfolded new(2)]
  have gain: "0 < gain_den 6 l (p_at ?r) (ttft_phi x)"
    using ttft_filter.gain_positive [OF new(1) new_ttft_tuned, where h = "rev samples"]
    by (simp add: train_all_trained new(2))
  have list: "ParamsRLS ?r = [v 0, v 1, v 2, v 3, v 4, v 5] \<longleftrightarrow> (\<forall>i<6. v i = params_at ?r i)"
    using list_6_eq [of "t_params ?r" v] train_all_ok(1) [OF new(1)]
    by (simp add: ParamsRLS_def ttft_rls_ok_def params_at_def)
  have "?J v \<le> ?J (params_at ?r) \<longleftrightarrow> (\<forall>i<6. v i = params_at ?r i)"
  proof
    assume "?J v \<le> ?J (params_at ?r)"
    then show "\<forall>i<6. v i = params_at ?r i" using opt(2) [of v] by (meson not_le)
  next
    assume "\<forall>i<6. v i = params_at ?r i"
    then have "?J v = ?J (params_at ?r)" by (intro ttft_filter.cost_cong) simp
    then show "?J v \<le> ?J (params_at ?r)" by simp
  qed
  then show ?thesis
    unfolding Let_def using opt(1) [of v] gain list train_all_ok(2) [OF new(1)] new(2) by simp
qed

theorem ttft_rls_least_squares_witness:
  "ls_cost 6 ttft_phi 1 (1 / 10 ^ 6) [((3, 1), 9)]
       (params_at (train_all (NewRLS 1) [((3, 1), 9)])) \<le> (81 :: rat)"
  using ttft_rls_least_squares [of 1 "[((3, 1), 9)]" "\<lambda>_. 0"]
  by (simp add: Let_def dot_def)

text \<open>
  Training recovers a polynomial law: if every sample of a run lies on one polynomial of degree
  two in the prompt length and the cached length, a filter without forgetting reproduces each
  sample with a squared error of at most the sum of the squared coefficients over \<open>10 ^ 6\<close>.
\<close>

theorem ttft_rls_recovers_law:
  assumes "\<forall>(x, y) \<in> set samples. y = a * of_int (fst x) ^ 2 + b * of_int (snd x) ^ 2
      + c * of_int (fst x) * of_int (snd x) + d * of_int (fst x) + e * of_int (snd x) + f"
    and "((input, cached), y) \<in> set samples"
  shows "(y - PredictRLS (train_all (NewRLS 1) samples) input cached)\<^sup>2
    \<le> (a\<^sup>2 + b\<^sup>2 + c\<^sup>2 + d\<^sup>2 + e\<^sup>2 + f\<^sup>2) / 10 ^ 6"
proof -
  let ?v = "\<lambda>i. [a, b, c, d, e, f] ! i"
  have lam: "t_lambda (NewRLS 1) = 1" by (simp add: NewRLS_def)
  have law: "\<forall>(x, y) \<in> set (rev samples). y = dot 6 (ttft_phi x) ?v"
    using assms(1)
    by (auto simp: dot_6 ttft_phi_def constructFeatures_def Let_def power2_eq_square ac_simps)
  have "(y - ttft_predict (ttft_filter.trained (NewRLS 1) (rev samples)) (input, cached))\<^sup>2
      \<le> 1 / 10 ^ 6 * dot 6 ?v ?v"
    by (rule ttft_filter.trained_fits [OF new_ttft_ok new_ttft_tuned lam _ law]) (use assms(2) in simp_all)
  also have "dot 6 ?v ?v = a\<^sup>2 + b\<^sup>2 + c\<^sup>2 + d\<^sup>2 + e\<^sup>2 + f\<^sup>2"
    by (simp add: dot_6 power2_eq_square)
  finally show ?thesis by (simp add: ttft_predict_def train_all_trained)
qed

theorem ttft_rls_recovers_law_witness:
  "(10 - PredictRLS (train_all (NewRLS 1) [((2, 4), 7), ((3, 6), 10)]) 3 6)\<^sup>2 \<le> (3 :: rat) / 10 ^ 6"
  using ttft_rls_recovers_law
    [of "[((2, 4), 7), ((3, 6), 10)]" 0 0 0 1 1 1 3 6 10]
  by simp

text \<open>A clone carries the same state.\<close>

lemma CloneRLS_same:
  assumes "ttft_rls_ok r"
  shows "CloneRLS r = r"
proof -
  have "map (\<lambda>i. if i < length (t_p r) then go_copy (replicate (t_n r) 0) (t_p r ! i) else [])
      [0..<t_n r] = t_p r"
    using assms by (intro nth_equalityI) (simp_all add: ttft_rls_ok_def list_all_length del: upt_rec_numeral)
  then show ?thesis using assms by (simp add: CloneRLS_def ttft_rls_ok_def)
qed

end
