(* ===== verification/MetricsStats.thy ===== *)
theory MetricsStats
  imports TtftPrediction
begin

text \<open>
  \<^verbatim>\<open>pkg/metrics_stats\<close>: the expected time to first token of a model for a prompt length,
  by one least squares filter per model (\<^verbatim>\<open>prediction.go\<close>) or, when the environment says
  so, by one moving average per kilobyte of prompt (\<^verbatim>\<open>ttft.go\<close>).

  The two package level \<^verbatim>\<open>sync.Map\<close> values are partial maps of the state
  \<open>metrics_state\<close>; each call is one step on it.  The stored pointers are values: what a
  model's entry holds is changed by replacing the entry.
\<close>

subsection \<open>Moving averages\<close>

definition maxPromptLength :: int where
  "maxPromptLength = 1024"

definition alpha :: rat where
  "alpha = 9 / 10"

definition defaultTTFT :: int where
  "defaultTTFT = 500"

record ttft_bucket =
  b_length :: int
  b_ttft :: rat

record model_ttft =
  mt_modelName :: string
  mt_ttfts :: "ttft_bucket list"

definition NewModelTTFT :: "string \<Rightarrow> model_ttft" where
  "NewModelTTFT modelName =
     \<lparr>mt_modelName = modelName,
      mt_ttfts = map (\<lambda>i. \<lparr>b_length = int i, b_ttft = 0\<rparr>) [0..<nat maxPromptLength]\<rparr>"

definition calcKB :: "int \<Rightarrow> int" where
  "calcKB len = min (maxPromptLength - 1) (len div 1024)"

text \<open>
  The conversion of a \<open>float64\<close> to \<open>int64\<close> truncates; out of range it is what the amd64
  instruction gives.
\<close>

definition to_int64 :: "rat \<Rightarrow> int" where
  "to_int64 t =
     (let i = (if 0 \<le> t then \<lfloor>t\<rfloor> else \<lceil>t\<rceil>)
      in if - (2 ^ 63) \<le> i \<and> i < 2 ^ 63 then i else - (2 ^ 63))"

lemma to_int64_floor: "0 \<le> t \<Longrightarrow> t < 2 ^ 63 \<Longrightarrow> to_int64 t = \<lfloor>t\<rfloor>"
proof -
  assume t: "0 \<le> t" "t < 2 ^ 63"
  then have "0 \<le> \<lfloor>t\<rfloor>" "\<lfloor>t\<rfloor> < 2 ^ 63" by (simp_all add: floor_less_iff)
  with t show ?thesis by (simp add: to_int64_def Let_def)
qed

definition RecordBucket :: "model_ttft \<Rightarrow> int \<Rightarrow> int \<Rightarrow> model_ttft run" where
  "RecordBucket m len ttft =
     (let idx = calcKB len in
      run_bind (at_index (mt_ttfts m) idx) (\<lambda>r.
        let avg = (if b_ttft r = 0 then of_int ttft
                   else b_ttft r * alpha + of_int ttft * (1 - alpha))
        in Ret (m\<lparr>mt_ttfts := (mt_ttfts m)[nat idx := r\<lparr>b_ttft := avg\<rparr>]\<rparr>)))"

text \<open>The loop from the bucket of the length down to bucket zero.\<close>

fun match_from :: "ttft_bucket list \<Rightarrow> nat \<Rightarrow> int run" where
  "match_from ts 0 =
     run_bind (at_index ts 0) (\<lambda>r. Ret (if 0 < b_ttft r then to_int64 (b_ttft r) else defaultTTFT))"
| "match_from ts (Suc i) =
     run_bind (at_index ts (int (Suc i))) (\<lambda>r.
       if 0 < b_ttft r then Ret (to_int64 (b_ttft r)) else match_from ts i)"

definition MatchBucket :: "model_ttft \<Rightarrow> int \<Rightarrow> int run" where
  "MatchBucket m len =
     (let idx = calcKB len in
      if idx < 0 then Ret defaultTTFT else match_from (mt_ttfts m) (nat idx))"

definition RecordModels ::
  "(string \<rightharpoonup> model_ttft) \<Rightarrow> string \<Rightarrow> int \<Rightarrow> int \<Rightarrow> (string \<rightharpoonup> model_ttft) run" where
  "RecordModels models modelName len ttft =
     (let modelTTFT = (case models modelName of Some m \<Rightarrow> m | None \<Rightarrow> NewModelTTFT modelName) in
      run_bind (RecordBucket modelTTFT len ttft) (\<lambda>m. Ret (models(modelName \<mapsto> m))))"

definition MatchModels :: "(string \<rightharpoonup> model_ttft) \<Rightarrow> string \<Rightarrow> int \<Rightarrow> int run" where
  "MatchModels models modelName len =
     (case models modelName of
        Some modelTTFT \<Rightarrow> MatchBucket modelTTFT len
      | None \<Rightarrow> Ret defaultTTFT)"

subsection \<open>Predictions\<close>

definition minTTFT :: rat where
  "minTTFT = 100"

definition defaultTTFTTrainData :: "((int \<times> int) \<times> rat) list" where
  "defaultTTFTTrainData =
    [((12272, 11667), 193182 / 100), ((23985, 14358), 571195 / 100), ((5112, 797), 151628 / 100),
     ((1903, 1648), 46677 / 100), ((19697, 13946), 402741 / 100), ((674, 653), 18882 / 100),
     ((27277, 5791), 985452 / 100), ((5958, 1092), 176589 / 100), ((9969, 5231), 259175 / 100),
     ((14153, 4121), 432735 / 100), ((20049, 2796), 701463 / 100), ((9572, 3506), 271951 / 100),
     ((14944, 11733), 287935 / 100), ((6542, 3364), 171208 / 100), ((19412, 901), 700276 / 100),
     ((19908, 3394), 685249 / 100), ((2131, 2022), 50019 / 100), ((31641, 25578), 392069 / 100),
     ((9981, 974), 316734 / 100), ((22420, 9868), 648671 / 100), ((3998, 1979), 106225 / 100),
     ((1126, 1023), 29204 / 100), ((8479, 5617), 201504 / 100), ((10214, 5311), 266406 / 100),
     ((17914, 3311), 599773 / 100), ((31771, 24626), 452914 / 100), ((30785, 27547), 234286 / 100),
     ((19591, 18060), 241313 / 100), ((2899, 568), 84404 / 100), ((1482, 482), 43054 / 100),
     ((12736, 3455), 388542 / 100), ((27156, 9687), 875359 / 100), ((9205, 4995), 236600 / 100),
     ((4617, 3703), 105984 / 100), ((2442, 2409), 55411 / 100), ((25304, 5028), 905014 / 100),
     ((180, 146), 7979 / 100), ((23162, 16885), 437064 / 100), ((25272, 1871), 963071 / 100)]"

text \<open>The model the package trains when it is loaded.\<close>

definition defaultModel :: ttft_rls where
  "defaultModel = foldl (\<lambda>m d. TrainRLS m (fst (fst d)) (snd (fst d)) (snd d)) (NewRLS 1) defaultTTFTTrainData"

definition PredictTTFT :: "(string \<rightharpoonup> ttft_rls) \<Rightarrow> string \<Rightarrow> int \<Rightarrow> int" where
  "PredictTTFT models modelName len =
     (let predictor = (case models modelName of Some p \<Rightarrow> p | None \<Rightarrow> defaultModel);
          t = PredictRLS predictor len 0
      in to_int64 (max t minTTFT))"

definition TrainTTFT ::
  "(string \<rightharpoonup> ttft_rls) \<Rightarrow> string \<Rightarrow> int \<Rightarrow> int \<Rightarrow> rat \<Rightarrow> (string \<rightharpoonup> ttft_rls)" where
  "TrainTTFT models modelName len cached y =
     (let predictor = (case models modelName of Some p \<Rightarrow> p | None \<Rightarrow> CloneRLS defaultModel)
      in models(modelName \<mapsto> TrainRLS predictor len cached y))"

subsection \<open>The package\<close>

record metrics_state =
  useMovingAverage :: bool
  movingAverageModels :: "string \<rightharpoonup> model_ttft"
  predictionModels :: "string \<rightharpoonup> ttft_rls"

definition init_metrics :: "(string \<Rightarrow> string) \<Rightarrow> metrics_state" where
  "init_metrics getenv =
     \<lparr>useMovingAverage = (getenv ''AIGW_USE_MOVING_AVERAGE'' = ''enable''),
      movingAverageModels = Map.empty, predictionModels = Map.empty\<rparr>"

definition MatchTTFT :: "metrics_state \<Rightarrow> string \<Rightarrow> int \<Rightarrow> int run" where
  "MatchTTFT st modelName len =
     (if len \<le> 0 \<or> modelName = [] then Ret defaultTTFT
      else if \<not> useMovingAverage st then Ret (PredictTTFT (predictionModels st) modelName len)
      else MatchModels (movingAverageModels st) modelName len)"

definition RecordTTFT :: "metrics_state \<Rightarrow> string \<Rightarrow> int \<Rightarrow> int \<Rightarrow> int \<Rightarrow> metrics_state run" where
  "RecordTTFT st modelName input cached ttft =
     (if input \<le> 0 \<or> ttft \<le> 0 \<or> modelName = [] then Ret st
      else if \<not> useMovingAverage st then
        Ret (st\<lparr>predictionModels :=
          TrainTTFT (predictionModels st) modelName input cached (of_int ttft)\<rparr>)
      else run_bind (RecordModels (movingAverageModels st) modelName input ttft) (\<lambda>ms.
        Ret (st\<lparr>movingAverageModels := ms\<rparr>)))"

text \<open>A run of recordings, oldest first.\<close>

type_synonym ttft_sample = "string \<times> int \<times> int \<times> int"

fun record_all :: "metrics_state \<Rightarrow> ttft_sample list \<Rightarrow> metrics_state run" where
  "record_all st [] = Ret st"
| "record_all st ((m, input, cached, ttft) # xs) =
     run_bind (RecordTTFT st m input cached ttft) (\<lambda>st. record_all st xs)"

text \<open>The samples that count: what \<open>RecordTTFT\<close> does not ignore.\<close>

fun valid_sample :: "ttft_sample \<Rightarrow> bool" where
  "valid_sample (m, input, cached, ttft) \<longleftrightarrow> 0 < input \<and> 0 < ttft \<and> m \<noteq> []"

subsection \<open>The interface of a per-model predictor\<close>

text \<open>
  What the store of predictors relies on: a clone of a good predictor behaves as the predictor,
  and training keeps a predictor good.  A store entry is then the default predictor trained on
  the samples of its own key.
\<close>

locale predictor_store =
  fixes ok :: "'p \<Rightarrow> bool"
    and train :: "'p \<Rightarrow> 'x \<Rightarrow> rat \<Rightarrow> 'p"
    and clone :: "'p \<Rightarrow> 'p"
    and dflt :: 'p
  assumes dflt_ok: "ok dflt"
    and train_ok: "ok p \<Longrightarrow> ok (train p x y)"
    and clone_same: "ok p \<Longrightarrow> clone p = p"
begin

definition entry :: "('k \<rightharpoonup> 'p) \<Rightarrow> 'k \<Rightarrow> 'p" where
  "entry ps k = (case ps k of Some p \<Rightarrow> p | None \<Rightarrow> dflt)"

definition store_train :: "('k \<rightharpoonup> 'p) \<Rightarrow> 'k \<times> 'x \<times> rat \<Rightarrow> ('k \<rightharpoonup> 'p)" where
  "store_train ps s =
     ps(fst s \<mapsto> train (case ps (fst s) of Some p \<Rightarrow> p | None \<Rightarrow> clone dflt) (fst (snd s)) (snd (snd s)))"

lemma entry_store_train:
  "entry (store_train ps (k', x, y)) k = (if k = k' then train (entry ps k) x y else entry ps k)"
  by (auto simp: entry_def store_train_def clone_same dflt_ok split: option.splits)

lemma store_run:
  "entry (foldl store_train ps h) k =
     foldl (\<lambda>p s. train p (fst (snd s)) (snd (snd s))) (entry ps k) (filter (\<lambda>s. fst s = k) h)"
proof (induction h arbitrary: ps)
  case (Cons s h)
  then show ?case
    by (cases s) (simp add: entry_store_train)
qed simp

lemma entry_empty: "entry Map.empty k = dflt"
  by (simp add: entry_def)

end

lemma defaultModel_trained: "defaultModel = train_all (NewRLS 1) defaultTTFTTrainData"
  by (simp add: defaultModel_def train_all_def)

lemma default_ok: "ttft_rls_ok defaultModel"
  by (simp add: defaultModel_trained train_all_ok new_ttft_ok)

interpretation models: predictor_store ttft_rls_ok ttft_train CloneRLS defaultModel
  by unfold_locales (simp_all add: default_ok ttft_train_ok CloneRLS_same)

lemma TrainTTFT_store:
  "TrainTTFT ps m len cached y = models.store_train ps (m, (len, cached), y)"
  by (simp add: TrainTTFT_def models.store_train_def ttft_train_def Let_def)

lemma PredictTTFT_entry:
  "PredictTTFT ps m len = to_int64 (max (PredictRLS (models.entry ps m) len 0) minTTFT)"
  by (simp add: PredictTTFT_def models.entry_def Let_def)

definition as_training :: "ttft_sample \<Rightarrow> string \<times> (int \<times> int) \<times> rat" where
  "as_training s = (case s of (m, input, cached, ttft) \<Rightarrow> (m, (input, cached), of_int ttft))"

lemma record_all_prediction:
  assumes "\<not> useMovingAverage st"
  shows "record_all st xs = Ret (st\<lparr>predictionModels :=
      foldl models.store_train (predictionModels st) (map as_training (filter valid_sample xs))\<rparr>)"
  using assms
proof (induction xs arbitrary: st)
  case (Cons s xs)
  obtain m i c t where "s = (m, i, c, t)" by (metis prod.exhaust)
  then show ?case
    using Cons by (simp add: RecordTTFT_def TrainTTFT_store as_training_def)
qed simp

text \<open>The samples of one model, as training samples of its filter.\<close>

definition model_samples :: "string \<Rightarrow> ttft_sample list \<Rightarrow> ((int \<times> int) \<times> rat) list" where
  "model_samples m xs = map (snd \<circ> as_training) (filter (\<lambda>s. valid_sample s \<and> fst s = m) xs)"

lemma foldl_train_all:
  "foldl (\<lambda>p s. ttft_train p (fst (snd s)) (snd (snd s))) p h = train_all p (map snd h)"
  by (simp add: train_all_def ttft_train_def foldl_map)

lemma filter_as_training:
  "map snd (filter (\<lambda>s. fst s = m) (map as_training (filter valid_sample xs))) = model_samples m xs"
  by (induction xs) (auto simp: model_samples_def as_training_def split: prod.splits)

subsection \<open>Properties of the predictions\<close>



subsection \<open>Moving averages of the samples\<close>

definition ema_step :: "rat \<Rightarrow> int \<Rightarrow> rat" where
  "ema_step a v = (if a = 0 then of_int v else a * alpha + of_int v * (1 - alpha))"

definition ema :: "int list \<Rightarrow> rat" where
  "ema vs = foldl ema_step 0 vs"

fun in_bucket :: "string \<Rightarrow> nat \<Rightarrow> ttft_sample \<Rightarrow> bool" where
  "in_bucket m k (m', input, cached, ttft) \<longleftrightarrow>
     valid_sample (m', input, cached, ttft) \<and> m' = m \<and> calcKB input = int k"

definition bucket_samples :: "string \<Rightarrow> nat \<Rightarrow> ttft_sample list \<Rightarrow> int list" where
  "bucket_samples m k xs = map (\<lambda>(_, _, _, ttft). ttft) (filter (in_bucket m k) xs)"

lemma ema_step_bounds:
  assumes "0 < lo" "of_int lo \<le> a" "a \<le> of_int hi" "lo \<le> v" "v \<le> hi"
  shows "of_int lo \<le> ema_step a v" "ema_step a v \<le> of_int hi"
proof -
  have v: "(of_int lo :: rat) \<le> of_int v" "(of_int v :: rat) \<le> of_int hi" "(0 :: rat) < of_int lo"
    using assms by simp_all
  then have "a \<noteq> 0" using assms(2) by linarith
  then have "ema_step a v = 9 / 10 * a + 1 / 10 * of_int v"
    by (simp add: ema_step_def alpha_def)
  with v assms(2,3) show "of_int lo \<le> ema_step a v" "ema_step a v \<le> of_int hi" by linarith+
qed

lemma ema_bounds:
  assumes "vs \<noteq> []" "\<forall>v \<in> set vs. 0 < v"
  shows "of_int (Min (set vs)) \<le> ema vs \<and> ema vs \<le> of_int (Max (set vs))"
proof -
  obtain w ws where vs: "vs = w # ws" using assms(1) by (cases vs) auto
  let ?lo = "Min (set vs)" and ?hi = "Max (set vs)"
  have lo: "0 < ?lo" using assms by (simp add: Min_gr_iff)
  have range: "?lo \<le> v \<and> v \<le> ?hi" if "v \<in> set vs" for v using that by simp
  have "of_int ?lo \<le> foldl ema_step (of_int w) ws \<and> foldl ema_step (of_int w) ws \<le> of_int ?hi"
  proof (rule foldl_invariant)
    show "(of_int ?lo :: rat) \<le> of_int w \<and> of_int w \<le> (of_int ?hi :: rat)"
      using range [of w] by (simp add: vs)
  next
    fix a :: rat and v :: int
    assume "of_int ?lo \<le> a \<and> a \<le> of_int ?hi" "v \<in> set ws"
    then show "of_int ?lo \<le> ema_step a v \<and> ema_step a v \<le> of_int ?hi"
      using range [of v] lo by (intro conjI ema_step_bounds [of ?lo _ ?hi]) (simp_all add: vs)
  qed
  then show ?thesis by (simp add: ema_def vs ema_step_def)
qed

definition bucket_avg :: "(string \<rightharpoonup> model_ttft) \<Rightarrow> string \<Rightarrow> nat \<Rightarrow> rat" where
  "bucket_avg ms m k = (case ms m of Some mt \<Rightarrow> b_ttft (mt_ttfts mt ! k) | None \<Rightarrow> 0)"

definition buckets_ok :: "(string \<rightharpoonup> model_ttft) \<Rightarrow> bool" where
  "buckets_ok ms \<longleftrightarrow> (\<forall>m mt. ms m = Some mt \<longrightarrow> length (mt_ttfts mt) = 1024)"

lemma NewModelTTFT_buckets:
  "length (mt_ttfts (NewModelTTFT m)) = 1024" "k < 1024 \<Longrightarrow> b_ttft (mt_ttfts (NewModelTTFT m) ! k) = 0"
  by (simp_all add: NewModelTTFT_def maxPromptLength_def del: upt_rec_numeral)

lemma calcKB_bounds: "0 < len \<Longrightarrow> 0 \<le> calcKB len \<and> calcKB len < 1024"
  using div_int_pos_iff [of len 1024] by (simp add: calcKB_def maxPromptLength_def min_def)

lemma RecordModels_step:
  assumes "buckets_ok ms" "0 < len"
  shows "\<exists>ms'. RecordModels ms m len t = Ret ms' \<and> buckets_ok ms' \<and>
    (\<forall>m' k. k < 1024 \<longrightarrow> bucket_avg ms' m' k =
      (if m' = m \<and> calcKB len = int k then ema_step (bucket_avg ms m' k) t else bucket_avg ms m' k))"
proof -
  define mt where "mt = (case ms m of Some x \<Rightarrow> x | None \<Rightarrow> NewModelTTFT m)"
  have len: "length (mt_ttfts mt) = 1024"
    using assms(1) by (auto simp: mt_def buckets_ok_def NewModelTTFT_buckets split: option.splits)
  have avg: "k < 1024 \<Longrightarrow> bucket_avg ms m k = b_ttft (mt_ttfts mt ! k)" for k
    by (auto simp: mt_def bucket_avg_def NewModelTTFT_buckets split: option.splits)
  define idx where "idx = nat (calcKB len)"
  have idx: "calcKB len = int idx" "idx < 1024"
    using calcKB_bounds [OF assms(2)] by (auto simp: idx_def nat_less_iff)
  let ?r = "mt_ttfts mt ! idx"
  let ?mt = "mt\<lparr>mt_ttfts := (mt_ttfts mt)[idx := ?r\<lparr>b_ttft := ema_step (b_ttft ?r) t\<rparr>]\<rparr>"
  have rec: "RecordModels ms m len t = Ret (ms(m \<mapsto> ?mt))"
    by (simp add: RecordModels_def RecordBucket_def mt_def [symmetric] Let_def idx at_index_def len
        ema_step_def)
  have "buckets_ok (ms(m \<mapsto> ?mt))" using assms(1) len by (auto simp: buckets_ok_def)
  moreover have "bucket_avg (ms(m \<mapsto> ?mt)) m' k =
      (if m' = m \<and> calcKB len = int k then ema_step (bucket_avg ms m' k) t else bucket_avg ms m' k)"
    if "k < 1024" for m' k
  proof (cases "m' = m")
    case True
    then show ?thesis using that idx len avg [OF that] by (auto simp: bucket_avg_def nth_list_update)
  qed (simp add: bucket_avg_def)
  ultimately show ?thesis using rec by blast
qed

lemma record_all_average:
  assumes "useMovingAverage st" "buckets_ok (movingAverageModels st)"
  shows "\<exists>st'. record_all st xs = Ret st' \<and> useMovingAverage st' \<and>
    buckets_ok (movingAverageModels st') \<and>
    (\<forall>m k. k < 1024 \<longrightarrow> bucket_avg (movingAverageModels st') m k =
      foldl ema_step (bucket_avg (movingAverageModels st) m k) (bucket_samples m k xs))"
  using assms
proof (induction xs arbitrary: st)
  case (Cons s xs)
  obtain m i c t where s: "s = (m, i, c, t)" by (metis prod.exhaust)
  show ?case
  proof (cases "valid_sample s")
    case False
    then have "\<And>m' k. bucket_samples m' k (s # xs) = bucket_samples m' k xs"
      by (simp add: bucket_samples_def s) auto
    moreover have "record_all st (s # xs) = record_all st xs"
      using False by (auto simp: s RecordTTFT_def)
    ultimately show ?thesis using Cons by simp
  next
    case True
    then have v: "0 < i" "0 < t" "m \<noteq> []" by (simp_all add: s)
    obtain ms where ms: "RecordModels (movingAverageModels st) m i t = Ret ms" "buckets_ok ms"
      "\<And>m' k. k < 1024 \<Longrightarrow> bucket_avg ms m' k =
        (if m' = m \<and> calcKB i = int k then ema_step (bucket_avg (movingAverageModels st) m' k) t
         else bucket_avg (movingAverageModels st) m' k)"
      using RecordModels_step [OF Cons.prems(2) v(1), of m t] by blast
    let ?st = "st\<lparr>movingAverageModels := ms\<rparr>"
    have "record_all st (s # xs) = record_all ?st xs"
      using v Cons.prems(1) ms(1) by (simp add: s RecordTTFT_def)
    moreover have "bucket_samples m' k (s # xs) =
        (if m' = m \<and> calcKB i = int k then t # bucket_samples m' k xs else bucket_samples m' k xs)" for m' k
      using v by (auto simp: bucket_samples_def s)
    ultimately show ?thesis
      using Cons.IH [of ?st] Cons.prems(1) ms(2,3) by auto
  qed
qed (simp add: bucket_samples_def)

text \<open>The nearest bucket with an average, from a bucket downwards.\<close>

fun nearest :: "(nat \<Rightarrow> bool) \<Rightarrow> nat \<Rightarrow> nat option" where
  "nearest p 0 = (if p 0 then Some 0 else None)"
| "nearest p (Suc i) = (if p (Suc i) then Some (Suc i) else nearest p i)"

lemma nearest_Some: "nearest p i = Some k \<Longrightarrow> p k \<and> k \<le> i \<and> (\<forall>j. k < j \<and> j \<le> i \<longrightarrow> \<not> p j)"
  by (induction i) (auto split: if_splits simp: le_Suc_eq)

lemma nearest_None: "nearest p i = None \<Longrightarrow> j \<le> i \<Longrightarrow> \<not> p j"
  by (induction i) (auto split: if_splits simp: le_Suc_eq)

lemma nearest_cong: "(\<And>j. j \<le> i \<Longrightarrow> p j = q j) \<Longrightarrow> nearest p i = nearest q i"
  by (induction i) auto

lemma match_from_nearest:
  "i < length ts \<Longrightarrow> match_from ts i =
    Ret (case nearest (\<lambda>k. 0 < b_ttft (ts ! k)) i of
           Some k \<Rightarrow> to_int64 (b_ttft (ts ! k)) | None \<Rightarrow> defaultTTFT)"
  by (induction i) (simp_all add: at_index_def del: of_nat_Suc)

lemma MatchModels_nearest:
  assumes "buckets_ok ms" "0 < len"
  shows "MatchModels ms m len =
    Ret (case nearest (\<lambda>k. 0 < bucket_avg ms m k) (nat (calcKB len)) of
           Some k \<Rightarrow> to_int64 (bucket_avg ms m k) | None \<Rightarrow> defaultTTFT)"
proof (cases "ms m")
  case None
  then have "nearest (\<lambda>k. 0 < bucket_avg ms m k) i = None" for i
    by (induction i) (simp_all add: bucket_avg_def)
  with None show ?thesis by (simp add: MatchModels_def)
next
  case (Some mt)
  then have "nat (calcKB len) < length (mt_ttfts mt)"
    using assms(1) calcKB_bounds [OF assms(2)] by (simp add: buckets_ok_def nat_less_iff)
  with Some show ?thesis
    using calcKB_bounds [OF assms(2)]
    by (simp add: MatchModels_def MatchBucket_def Let_def match_from_nearest bucket_avg_def
        cong: option.case_cong)
qed

lemma bucket_samples_pos: "v \<in> set (bucket_samples m k xs) \<Longrightarrow> 0 < v"
  by (auto simp: bucket_samples_def)

lemma ema_pos: "0 < ema (bucket_samples m k xs) \<longleftrightarrow> bucket_samples m k xs \<noteq> []"
proof
  assume ne: "bucket_samples m k xs \<noteq> []"
  let ?vs = "bucket_samples m k xs"
  have "0 < Min (set ?vs)" using ne by (simp add: Min_gr_iff bucket_samples_pos)
  then have "(0 :: rat) < of_int (Min (set ?vs))" by simp
  also have "\<dots> \<le> ema ?vs" using ema_bounds [OF ne] bucket_samples_pos by blast
  finally show "0 < ema ?vs" .
qed (auto simp: ema_def)

text \<open>
  With moving averages, the time matched for a prompt comes from the nearest bucket of its own
  model at or below the prompt's kilobyte that has valid samples: it is the exponential average
  of that bucket's samples, rounded down, and lies between the least and the greatest of them.
  Without such a bucket it is 500 ms.  No recording or matching panics, whatever the lengths.
\<close>

theorem moving_average_match:
  assumes "getenv ''AIGW_USE_MOVING_AVERAGE'' = ''enable''" and "0 < len" and "m \<noteq> []"
    and "\<forall>(_, _, _, ttft) \<in> set xs. ttft < 2 ^ 63"
  shows "\<exists>st t. record_all (init_metrics getenv) xs = Ret st \<and> MatchTTFT st m len = Ret t \<and>
    (case nearest (\<lambda>k. bucket_samples m k xs \<noteq> []) (nat (calcKB len)) of
       Some k \<Rightarrow> t = \<lfloor>ema (bucket_samples m k xs)\<rfloor> \<and>
         Min (set (bucket_samples m k xs)) \<le> t \<and> t \<le> Max (set (bucket_samples m k xs))
     | None \<Rightarrow> t = 500)"
proof -
  let ?init = "init_metrics getenv" and ?i = "nat (calcKB len)"
  have i: "?i < 1024" using calcKB_bounds [OF assms(2)] by (simp add: nat_less_iff)
  have "useMovingAverage ?init" "buckets_ok (movingAverageModels ?init)"
    using assms(1) by (simp_all add: init_metrics_def buckets_ok_def)
  from record_all_average [OF this, of xs] obtain st where
    st: "record_all ?init xs = Ret st" "useMovingAverage st" "buckets_ok (movingAverageModels st)"
    and avg: "\<And>k. k < 1024 \<Longrightarrow> bucket_avg (movingAverageModels st) m k = ema (bucket_samples m k xs)"
    by (auto simp: init_metrics_def bucket_avg_def [of Map.empty] ema_def)
  have near: "nearest (\<lambda>k. 0 < bucket_avg (movingAverageModels st) m k) ?i =
      nearest (\<lambda>k. bucket_samples m k xs \<noteq> []) ?i"
    using i by (intro nearest_cong) (simp add: avg ema_pos)
  have match: "MatchTTFT st m len = Ret
      (case nearest (\<lambda>k. bucket_samples m k xs \<noteq> []) ?i of
         Some k \<Rightarrow> to_int64 (bucket_avg (movingAverageModels st) m k) | None \<Rightarrow> 500)"
    using assms(2,3) st(2) MatchModels_nearest [OF st(3) assms(2), of m]
    by (simp add: MatchTTFT_def near defaultTTFT_def cong: option.case_cong)
  show ?thesis
  proof (cases "nearest (\<lambda>k. bucket_samples m k xs \<noteq> []) ?i")
    case None
    then show ?thesis using st(1) match by auto
  next
    case (Some k)
    let ?vs = "bucket_samples m k xs"
    have k: "?vs \<noteq> []" "k < 1024" using nearest_Some [OF Some] i by auto
    then have b: "of_int (Min (set ?vs)) \<le> ema ?vs" "ema ?vs \<le> of_int (Max (set ?vs))"
      using ema_bounds [OF k(1)] bucket_samples_pos by blast+
    have "Max (set ?vs) \<in> set ?vs" using k(1) by simp
    then have "Max (set ?vs) < 2 ^ 63" using assms(4) by (auto simp: bucket_samples_def)
    then have "(of_int (Max (set ?vs)) :: rat) < of_int (2 ^ 63)" by (simp only: of_int_less_iff)
    with b(2) have small: "ema ?vs < 2 ^ 63" by simp
    have "0 \<le> ema ?vs" using ema_pos [of m k xs] k(1) by simp
    then have "to_int64 (ema ?vs) = \<lfloor>ema ?vs\<rfloor>" using small by (rule to_int64_floor)
    moreover have "Min (set ?vs) \<le> \<lfloor>ema ?vs\<rfloor>" using b(1) by (simp add: le_floor_iff)
    moreover have "\<lfloor>ema ?vs\<rfloor> \<le> Max (set ?vs)" using floor_mono [OF b(2)] by simp
    ultimately show ?thesis using st(1) match Some avg [OF k(2)] by auto
  qed
qed

theorem moving_average_match_witness:
  "\<exists>st t. record_all (init_metrics (\<lambda>_. ''enable'')) [(''m'', 2048, 0, 100), (''m'', 2050, 0, 200)] = Ret st \<and>
     MatchTTFT st ''m'' 9000 = Ret t \<and>
     (case nearest (\<lambda>k. bucket_samples ''m'' k [(''m'', 2048, 0, 100), (''m'', 2050, 0, 200)] \<noteq> [])
        (nat (calcKB 9000)) of
        Some k \<Rightarrow> t = \<lfloor>ema (bucket_samples ''m'' k [(''m'', 2048, 0, 100), (''m'', 2050, 0, 200)])\<rfloor> \<and>
          Min (set (bucket_samples ''m'' k [(''m'', 2048, 0, 100), (''m'', 2050, 0, 200)])) \<le> t \<and>
          t \<le> Max (set (bucket_samples ''m'' k [(''m'', 2048, 0, 100), (''m'', 2050, 0, 200)]))
      | None \<Rightarrow> t = 500)"
  by (rule moving_average_match) simp_all

end
