(* ===== verification/GoSort.thy ===== *)
theory GoSort
  imports Prelude
begin

text \<open>
  Sorting with a comparison, as \<^verbatim>\<open>sort.Slice\<close> and \<^verbatim>\<open>slices.SortFunc\<close> of Go's
  standard library do it: the contract the code relies on, and the insertion sort both of them
  use on at most twelve elements, which keeps the contract.
\<close>

type_synonym 'a slice_sort = "('a \<Rightarrow> 'a \<Rightarrow> bool) \<Rightarrow> 'a list \<Rightarrow> 'a list"

subsection \<open>The interface of the sorting routine\<close>

text \<open>
  What \<^verbatim>\<open>sort.Slice\<close> promises for a strict weak order: a permutation in which no element
  precedes a smaller one.  Equal elements may come in any order.
\<close>

definition strict_weak :: "('a \<Rightarrow> 'a \<Rightarrow> bool) \<Rightarrow> bool" where
  "strict_weak lt \<longleftrightarrow>
     (\<forall>x. \<not> lt x x) \<and> (\<forall>x y z. lt x y \<longrightarrow> lt y z \<longrightarrow> lt x z) \<and>
     (\<forall>x y z. \<not> lt x y \<longrightarrow> \<not> lt y z \<longrightarrow> \<not> lt x z)"

lemma strict_weakD:
  assumes "strict_weak lt"
  shows "\<not> lt x x" "lt x y \<Longrightarrow> lt y z \<Longrightarrow> lt x z" "\<not> lt x y \<Longrightarrow> \<not> lt y z \<Longrightarrow> \<not> lt x z"
    "lt x y \<Longrightarrow> \<not> lt y x"
  using assms unfolding strict_weak_def by metis+

locale slice_sorter =
  fixes srt :: "('a \<Rightarrow> 'a \<Rightarrow> bool) \<Rightarrow> 'a list \<Rightarrow> 'a list"
  assumes permutes: "mset (srt lt xs) = mset xs"
    and orders: "strict_weak lt \<Longrightarrow> sorted_wrt (\<lambda>x y. \<not> lt y x) (srt lt xs)"
begin

lemma same_set: "set (srt lt xs) = set xs"
  using permutes [of lt xs] by (metis set_mset_mset)

lemma same_length: "length (srt lt xs) = length xs"
  using permutes [of lt xs] by (metis size_mset)

text \<open>The first element that passes a test is not beaten by any other that passes.\<close>

lemma first_is_best:
  assumes "strict_weak lt" "find p (srt lt xs) = Some x"
  shows "x \<in> set xs \<and> p x \<and> (\<forall>y \<in> set xs. p y \<longrightarrow> \<not> lt y x)"
proof -
  obtain i where i: "i < length (srt lt xs)" "p (srt lt xs ! i)"
      "x = srt lt xs ! i" "\<forall>j<i. \<not> p (srt lt xs ! j)"
    using assms(2) by (auto simp: find_Some_iff)
  have "\<not> lt y x" if y: "y \<in> set xs" "p y" for y
  proof -
    obtain k where k: "k < length (srt lt xs)" "y = srt lt xs ! k"
      using y(1) same_set by (metis in_set_conv_nth)
    then have "i \<le> k" using i(4) y(2) by (meson not_le)
    then consider "i = k" | "i < k" by linarith
    then show ?thesis
    proof cases
      case 1
      then show ?thesis using i(3) k(2) strict_weakD(1) [OF assms(1)] by simp
    next
      case 2
      then show ?thesis
        using orders [OF assms(1), of xs] i(3) k by (simp add: sorted_wrt_iff_nth_less)
    qed
  qed
  then show ?thesis using i same_set by (metis nth_mem)
qed

end

subsection \<open>Insertion sort\<close>

text \<open>The sorted part is kept in reverse: a new element moves left past the greater ones.\<close>

fun sort_in :: "('a \<Rightarrow> 'a \<Rightarrow> bool) \<Rightarrow> 'a \<Rightarrow> 'a list \<Rightarrow> 'a list" where
  "sort_in lt x [] = [x]"
| "sort_in lt x (y # ys) = (if lt x y then y # sort_in lt x ys else x # y # ys)"

definition insertion_sort :: "'a slice_sort" where
  "insertion_sort lt xs = rev (foldl (\<lambda>acc x. sort_in lt x acc) [] xs)"

lemma mset_sort_in [simp]: "mset (sort_in lt x ys) = add_mset x (mset ys)"
  by (induction ys) auto

lemma set_sort_in [simp]: "set (sort_in lt x ys) = insert x (set ys)"
  by (induction ys) auto

lemma sorted_sort_in:
  assumes "strict_weak lt"
  shows "sorted_wrt (\<lambda>x y. \<not> lt x y) ys \<Longrightarrow> sorted_wrt (\<lambda>x y. \<not> lt x y) (sort_in lt x ys)"
proof (induction ys)
  case (Cons y ys)
  show ?case
  proof (cases "lt x y")
    case True
    have "\<not> lt y x" by (rule strict_weakD(4) [OF assms True])
    then show ?thesis using Cons True by auto
  next
    case False
    then have "\<forall>z \<in> set ys. \<not> lt x z"
      using Cons.prems strict_weakD(3) [OF assms False] by auto
    then show ?thesis using Cons.prems False by auto
  qed
qed simp

lemma foldl_sort_in:
  "mset (foldl (\<lambda>acc x. sort_in lt x acc) acc xs) = mset acc + mset xs"
  by (induction xs arbitrary: acc) auto

lemma sorted_foldl_sort_in:
  "strict_weak lt \<Longrightarrow> sorted_wrt (\<lambda>x y. \<not> lt x y) acc \<Longrightarrow>
    sorted_wrt (\<lambda>x y. \<not> lt x y) (foldl (\<lambda>acc x. sort_in lt x acc) acc xs)"
  by (induction xs arbitrary: acc) (auto intro: sorted_sort_in)

interpretation insertion: slice_sorter insertion_sort
  by unfold_locales
    (simp_all add: insertion_sort_def foldl_sort_in sorted_wrt_rev sorted_foldl_sort_in)

end
