(* ===== verification/LlmConfig.thy ===== *)
theory LlmConfig
  imports GoStd GoSort
begin

text \<open>
  \<^verbatim>\<open>plugins/llmproxy/config/config.go\<close>: parsing the plugin's configuration, the mapping
  from model names to routing rules, and the choice of the rule for a request.

  A Go map is the list of its entries, with distinct keys, in the order an iteration visits
  them.  \<^verbatim>\<open>sort.Slice\<close> is an argument of the definitions: it promises some sorted
  permutation and no more (theory GoSort).  The request headers are the function
  \<open>get\<close> that answers a header's value.  Rules are pointers, so what the validation writes
  into them is part of its result.
\<close>

type_synonym 'a go_map = "(string \<times> 'a) list"

record header_value =
  hv_Key :: string
  hv_Value :: string

record subset =
  s_Name :: string
  s_Labels :: "string go_map"
  s_Lora :: string
  s_Weight :: int

record rule =
  r_Weight :: int
  r_SceneName :: string
  r_ChainName :: string
  r_Backend :: string
  r_RouteName :: string
  r_Headers :: "header_value list"
  r_Subset :: "subset list"
  r_Cluster :: string

record lb_config =
  LoadAwareEnable :: bool
  CacheAwareEnable :: bool
  CandidatePercent :: int
  RequestLoadWeight :: int
  PrefillLoadWeight :: int
  CacheRadioWeight :: int

record log_config =
  l_Enabled :: bool
  l_Path :: string

record plugin_config =
  Protocol :: string
  Algorithm :: string
  ModelMappingRule :: "rule list go_map"
  LogConf :: "log_config option"
  LbMappingRule :: "lb_config go_map"

text \<open>The loaded configuration; \<open>AsyncLogPath\<close> is the path the logger was asked for.\<close>

record llm_config =
  plugin_conf :: plugin_config
  ModelMappings :: "rule list go_map"
  LbMappingConfigs :: "lb_config go_map option"
  AsyncLogPath :: "string option"
  RuleTotal :: int
  LbConfigTotal :: int

subsection \<open>Sorting\<close>

definition more_headers :: "rule \<Rightarrow> rule \<Rightarrow> bool" where
  "more_headers x y \<longleftrightarrow> length (r_Headers x) > length (r_Headers y)"

definition SortTuples :: "rule slice_sort \<Rightarrow> rule list \<Rightarrow> rule list" where
  "SortTuples sort_slice tuples = sort_slice more_headers tuples"

subsection \<open>Mappings\<close>

definition buildModelMappings :: "rule slice_sort \<Rightarrow> rule list go_map \<Rightarrow> rule list go_map" where
  "buildModelMappings sort_slice mappingRules =
     map (\<lambda>(model, rules). (model, SortTuples sort_slice rules))
       (filter (\<lambda>(model, rules). length rules \<noteq> 0) mappingRules)"

definition updateMetrics :: "llm_config \<Rightarrow> llm_config" where
  "updateMetrics c =
     c\<lparr>RuleTotal := int (length (ModelMappings c)),
       LbConfigTotal := (case LbMappingConfigs c of None \<Rightarrow> 0 | Some m \<Rightarrow> int (length m))\<rparr>"

definition initLogger :: "llm_config \<Rightarrow> llm_config" where
  "initLogger c =
     (case LogConf (plugin_conf c) of
        None \<Rightarrow> c
      | Some l \<Rightarrow> if l_Enabled l then c\<lparr>AsyncLogPath := Some (l_Path l)\<rparr> else c)"

definition Init :: "rule slice_sort \<Rightarrow> llm_config \<Rightarrow> llm_config" where
  "Init sort_slice c =
     (let mappingRules = ModelMappingRule (plugin_conf c);
          c = (if length mappingRules > 0
               then c\<lparr>ModelMappings := buildModelMappings sort_slice mappingRules\<rparr> else c);
          lbs = LbMappingRule (plugin_conf c);
          c = (if length lbs > 0 then c\<lparr>LbMappingConfigs := Some lbs\<rparr> else c)
      in updateMetrics (initLogger c))"

definition FindLbMappingRule :: "llm_config \<Rightarrow> string \<Rightarrow> lb_config option" where
  "FindLbMappingRule c modelName =
     (case LbMappingConfigs c of
        None \<Rightarrow> None
      | Some m \<Rightarrow> if modelName = [] then None else map_of m modelName)"

definition GetModelMappings :: "rule list go_map \<Rightarrow> string \<Rightarrow> rule list" where
  "GetModelMappings modelMappings modelName =
     (if length modelMappings = 0 then []
      else (case map_of modelMappings modelName of None \<Rightarrow> [] | Some tuples \<Rightarrow> tuples))"

subsection \<open>Validation\<close>

datatype config_error = RulesEmpty | MismatchedCluster string string | MismatchedBackend string string

fun validate_loop :: "string \<Rightarrow> string \<Rightarrow> rule list \<Rightarrow> config_error option \<times> rule list" where
  "validate_loop cluster backend [] = (None, [])"
| "validate_loop cluster backend (r # rs) =
     (if r_Cluster r \<noteq> cluster then (Some (MismatchedCluster (r_Cluster r) cluster), r # rs)
      else
        (let r' = (if r_Backend r = [] then r\<lparr>r_Backend := ''triton''\<rparr> else r) in
         if r_Backend r' \<noteq> backend then (Some (MismatchedBackend (r_Backend r') backend), r' # rs)
         else
           (let (e, rs') = validate_loop cluster backend rs in (e, r' # rs'))))"

text \<open>The result and the rules as the call leaves them.\<close>

definition validateRules :: "rule list \<Rightarrow> (config_error + string \<times> string) \<times> rule list" where
  "validateRules rules =
     (case rules of
        [] \<Rightarrow> (Inl RulesEmpty, [])
      | r0 # _ \<Rightarrow>
          (let expectedCluster = r_Cluster r0;
               expectedBackend = (if r_Backend r0 = [] then ''triton'' else r_Backend r0);
               (e, rules') = validate_loop expectedCluster expectedBackend rules
           in case e of
                Some err \<Rightarrow> (Inl err, rules')
              | None \<Rightarrow> (Inr (expectedCluster, expectedBackend), rules')))"

text \<open>The loop of \<open>Parse\<close> over the models, up to the first invalid one.\<close>

fun parse_loop :: "rule list go_map \<Rightarrow> config_error option \<times> rule list go_map" where
  "parse_loop [] = (None, [])"
| "parse_loop ((key, rules) # ms) =
     (let (res, rules') = validateRules rules in
      case res of
        Inl err \<Rightarrow> (Some err, (key, rules') # ms)
      | Inr _ \<Rightarrow> (let (e, ms') = parse_loop ms in (e, (key, rules') # ms')))"

text \<open>The package's \<open>ModelMappingManager\<close> holds one map.\<close>

definition SetMappingRules :: "rule slice_sort \<Rightarrow> rule list go_map \<Rightarrow> rule list go_map \<Rightarrow> rule list go_map" where
  "SetMappingRules sort_slice mappingRules mgr = buildModelMappings sort_slice mappingRules"

definition Parse ::
  "rule slice_sort \<Rightarrow> llm_config \<Rightarrow> rule list go_map
     \<Rightarrow> config_error option \<times> llm_config \<times> rule list go_map" where
  "Parse sort_slice c mgr =
     (let mappingRules = ModelMappingRule (plugin_conf c) in
      if length mappingRules > 0 then
        (let (e, ms) = parse_loop mappingRules;
             c' = c\<lparr>plugin_conf := (plugin_conf c)\<lparr>ModelMappingRule := ms\<rparr>\<rparr>
         in case e of
              Some err \<Rightarrow> (Some err, c', mgr)
            | None \<Rightarrow> (None, c', SetMappingRules sort_slice ms mgr))
      else (None, c, mgr))"

subsection \<open>The rule of a request\<close>

fun header_loop :: "(string \<Rightarrow> string option) \<Rightarrow> header_value list \<Rightarrow> bool" where
  "header_loop get [] = True"
| "header_loop get (v # vs) =
     (case get (hv_Key v) of
        None \<Rightarrow> False
      | Some x \<Rightarrow> if x \<noteq> hv_Value v then False else header_loop get vs)"

fun candidate_loop :: "(string \<Rightarrow> string option) \<Rightarrow> rule list \<Rightarrow> rule option" where
  "candidate_loop get [] = None"
| "candidate_loop get (model # ts) =
     (if length (r_Headers model) = 0 then Some model
      else if header_loop get (r_Headers model) then Some model
      else candidate_loop get ts)"

definition GetCandidateRule :: "rule list \<Rightarrow> (string \<Rightarrow> string option) \<Rightarrow> rule option" where
  "GetCandidateRule targetModelTuple get =
     (if length targetModelTuple = 1 \<and> length (r_Headers (targetModelTuple ! 0)) = 0
      then Some (targetModelTuple ! 0)
      else candidate_loop get targetModelTuple)"

subsection \<open>What the operations do\<close>

definition effective_backend :: "rule \<Rightarrow> string" where
  "effective_backend r = (if r_Backend r = [] then ''triton'' else r_Backend r)"

definition normalise :: "rule \<Rightarrow> rule" where
  "normalise r = r\<lparr>r_Backend := effective_backend r\<rparr>"

definition agree :: "string \<Rightarrow> string \<Rightarrow> rule list \<Rightarrow> bool" where
  "agree cl be rules \<longleftrightarrow> (\<forall>r \<in> set rules. r_Cluster r = cl \<and> effective_backend r = be)"

definition matches :: "(string \<Rightarrow> string option) \<Rightarrow> rule \<Rightarrow> bool" where
  "matches get r \<longleftrightarrow> (\<forall>v \<in> set (r_Headers r). get (hv_Key v) = Some (hv_Value v))"

lemma normalise_simps [simp]:
  "r_Headers (normalise r) = r_Headers r" "r_Cluster (normalise r) = r_Cluster r"
  "r_Backend (normalise r) = effective_backend r" "matches get (normalise r) = matches get r"
  by (simp_all add: normalise_def matches_def)

lemma normalise_branch: "(if r_Backend r = [] then r\<lparr>r_Backend := ''triton''\<rparr> else r) = normalise r"
  by (simp add: normalise_def effective_backend_def)

lemma validate_loop_None:
  "fst (validate_loop cl be rules) = None \<longleftrightarrow> agree cl be rules"
  "fst (validate_loop cl be rules) = None \<Longrightarrow> snd (validate_loop cl be rules) = map normalise rules"
  by (induction rules) (auto simp: normalise_branch agree_def Let_def split: prod.splits if_splits)

lemma header_loop_all: "header_loop get hs \<longleftrightarrow> (\<forall>v \<in> set hs. get (hv_Key v) = Some (hv_Value v))"
  by (induction hs) (auto split: option.splits)

lemma candidate_loop_find: "candidate_loop get ts = find (matches get) ts"
  by (induction ts) (auto simp: matches_def header_loop_all)

lemma GetCandidateRule_find: "GetCandidateRule ts get = find (matches get) ts"
proof (cases "length ts = 1 \<and> length (r_Headers (ts ! 0)) = 0")
  case True
  then obtain t where "ts = [t]" by (metis length_0_conv length_Suc_conv One_nat_def)
  with True show ?thesis by (simp add: GetCandidateRule_def matches_def)
qed (auto simp: GetCandidateRule_def candidate_loop_find)

lemma strict_weak_headers: "strict_weak more_headers"
  by (auto simp: strict_weak_def more_headers_def)

lemma map_of_filter_snd:
  "distinct (map fst xs) \<Longrightarrow> map_of (filter (\<lambda>(k, v). p v) xs) m =
    (case map_of xs m of Some v \<Rightarrow> if p v then Some v else None | None \<Rightarrow> None)"
proof (induction xs)
  case (Cons x xs)
  then have "map_of xs (fst x) = None" by (simp add: map_of_eq_None_iff)
  with Cons show ?case by (auto split: option.splits)
qed simp

lemma map_of_map_snd: "map_of (map (\<lambda>(k, v). (k, f v)) xs) m = map_option f (map_of xs m)"
  by (induction xs) auto

lemma mappings_of:
  assumes "distinct (map fst rules)"
  shows "GetModelMappings (buildModelMappings sort_slice rules) m =
    (case map_of rules m of
       Some rs \<Rightarrow> if rs = [] then [] else SortTuples sort_slice rs | None \<Rightarrow> [])"
proof -
  have "map_of (buildModelMappings sort_slice rules) m =
      (case map_of rules m of
         Some rs \<Rightarrow> if rs = [] then None else Some (SortTuples sort_slice rs) | None \<Rightarrow> None)"
    unfolding buildModelMappings_def map_of_map_snd
    using map_of_filter_snd [OF assms, of "\<lambda>rs. length rs \<noteq> 0" m]
    by (auto split: option.splits)
  then show ?thesis by (auto simp: GetModelMappings_def split: option.splits)
qed

lemma validateRules_agree:
  "validateRules rules = (Inr (cl, be), rules') \<longleftrightarrow>
     rules \<noteq> [] \<and> agree cl be rules \<and> rules' = map normalise rules"
proof (cases rules)
  case (Cons r rs)
  have first: "agree cl be rules \<Longrightarrow> cl = r_Cluster r \<and> be = effective_backend r" for cl be
    by (simp add: Cons agree_def)
  let ?v = "validate_loop (r_Cluster r) (effective_backend r) rules"
  have "validateRules rules = (case fst ?v of Some err \<Rightarrow> (Inl err, snd ?v)
      | None \<Rightarrow> (Inr (r_Cluster r, effective_backend r), snd ?v))"
    by (simp add: validateRules_def Cons Let_def effective_backend_def split: prod.splits option.splits
        del: validate_loop.simps)
  note val = this
  note loop = validate_loop_None [of "r_Cluster r" "effective_backend r" rules]
  show ?thesis
  proof (cases "fst ?v")
    case None
    then have "validateRules rules = (Inr (r_Cluster r, effective_backend r), map normalise rules)"
      and "agree (r_Cluster r) (effective_backend r) rules"
      using val loop by simp_all
    then show ?thesis using first [of cl be] Cons by auto
  next
    case (Some err)
    then have "\<not> agree cl be rules" using loop(1) first [of cl be] by auto
    then show ?thesis using val Some by simp
  qed
qed (simp add: validateRules_def)

lemma validateRules_Inl:
  "(\<exists>e rules'. validateRules rules = (Inl e, rules')) \<longleftrightarrow> \<not> (rules \<noteq> [] \<and> (\<exists>cl be. agree cl be rules))"
proof -
  obtain res rules' where v: "validateRules rules = (res, rules')" by (cases "validateRules rules")
  show ?thesis
  proof (cases res)
    case (Inl e)
    then have "\<And>cl be r. validateRules rules \<noteq> (Inr (cl, be), r)" using v by simp
    then show ?thesis using v Inl validateRules_agree by blast
  next
    case (Inr x)
    then obtain cl be where "validateRules rules = (Inr (cl, be), rules')" using v by (cases x) auto
    then show ?thesis using validateRules_agree [of rules cl be rules'] by auto
  qed
qed

lemma parse_loop_result:
  "fst (parse_loop ms) = None \<longleftrightarrow> (\<forall>(m, rules) \<in> set ms. rules \<noteq> [] \<and> (\<exists>cl be. agree cl be rules))"
  "fst (parse_loop ms) = None \<Longrightarrow> snd (parse_loop ms) = map (\<lambda>(m, rules). (m, map normalise rules)) ms"
proof (induction ms)
  case (Cons x ms)
  obtain key rules where x: "x = (key, rules)" by (cases x)
  obtain res rules' where v: "validateRules rules = (res, rules')" by (cases "validateRules rules")
  show "fst (parse_loop (x # ms)) = None \<longleftrightarrow>
      (\<forall>(m, rules) \<in> set (x # ms). rules \<noteq> [] \<and> (\<exists>cl be. agree cl be rules))"
  proof (cases res)
    case (Inl e)
    then show ?thesis using validateRules_Inl [of rules] v by (auto simp: x Let_def split: prod.splits)
  next
    case (Inr y)
    then show ?thesis
      using validateRules_Inl [of rules] v Cons.IH(1) by (auto simp: x Let_def split: prod.splits)
  qed
  show "snd (parse_loop (x # ms)) = map (\<lambda>(m, rules). (m, map normalise rules)) (x # ms)"
    if "fst (parse_loop (x # ms)) = None"
  proof (cases res)
    case (Inl e)
    then show ?thesis using that v by (simp add: x Let_def)
  next
    case (Inr y)
    then have "rules' = map normalise rules" using v validateRules_agree by (cases y) auto
    then show ?thesis using that v Inr Cons.IH(2) by (auto simp: x Let_def split: prod.splits)
  qed
qed simp_all

subsection \<open>Properties\<close>


definition sample_rule :: "string \<Rightarrow> header_value list \<Rightarrow> rule" where
  "sample_rule name hs =
     \<lparr>r_Weight = 0, r_SceneName = name, r_ChainName = [], r_Backend = [], r_RouteName = [],
      r_Headers = hs, r_Subset = [], r_Cluster = ''c''\<rparr>"

definition sample_llm_config :: llm_config where
  "sample_llm_config =
     \<lparr>plugin_conf = \<lparr>Protocol = ''openai'', Algorithm = ''InferenceLB'',
        ModelMappingRule = [(''m'', [sample_rule ''base'' []])], LogConf = None, LbMappingRule = []\<rparr>,
      ModelMappings = [], LbMappingConfigs = None, AsyncLogPath = None, RuleTotal = 0, LbConfigTotal = 0\<rparr>"


lemma GetCandidateRule_best:
  assumes "slice_sorter sort_slice" and "distinct (map fst mappingRules)"
    and "map_of mappingRules m = Some rules"
  shows "case GetCandidateRule (GetModelMappings (buildModelMappings sort_slice mappingRules) m) get of
      Some r \<Rightarrow> r \<in> set rules \<and> matches get r \<and>
        (\<forall>r' \<in> set rules. matches get r' \<longrightarrow> length (r_Headers r') \<le> length (r_Headers r))
    | None \<Rightarrow> \<forall>r \<in> set rules. \<not> matches get r"
proof -
  have ms: "GetModelMappings (buildModelMappings sort_slice mappingRules) m =
      (if rules = [] then [] else sort_slice more_headers rules)"
    using mappings_of [OF assms(2), of sort_slice m] assms(3) by (simp add: SortTuples_def)
  show ?thesis
  proof (cases "find (matches get) (sort_slice more_headers rules)")
    case None
    then have "\<forall>r \<in> set rules. \<not> matches get r"
      using slice_sorter.same_set [OF assms(1), of more_headers rules] by (auto simp: find_None_iff)
    then show ?thesis using None ms by (auto simp: GetCandidateRule_find)
  next
    case (Some r)
    have "rules \<noteq> []"
      using Some slice_sorter.same_length [OF assms(1), of more_headers rules] by auto
    moreover have "r \<in> set rules \<and> matches get r \<and> (\<forall>y \<in> set rules. matches get y \<longrightarrow> \<not> more_headers y r)"
      by (rule slice_sorter.first_is_best [OF assms(1) strict_weak_headers Some])
    ultimately show ?thesis using Some ms by (simp add: GetCandidateRule_find more_headers_def not_less)
  qed
qed

text \<open>
  C17. The rule chosen for a request is the most specific one that matches: it is a rule of the
  request's model whose headers all have the required values, and no other matching rule of the
  model asks for more headers; when no rule is chosen, none matches.  This holds for every sorting
  routine that keeps the contract of \<^verbatim>\<open>sort.Slice\<close>.
\<close>

theorem candidate_rule_most_specific:
  assumes "slice_sorter sort_slice" and "distinct (map fst mappingRules)"
    and "map_of mappingRules m = Some rules"
  shows "case GetCandidateRule (GetModelMappings (buildModelMappings sort_slice mappingRules) m) get of
      Some r \<Rightarrow> r \<in> set rules \<and> matches get r \<and>
        (\<forall>r' \<in> set rules. matches get r' \<longrightarrow> length (r_Headers r') \<le> length (r_Headers r))
    | None \<Rightarrow> \<forall>r \<in> set rules. \<not> matches get r"
  using assms by (rule GetCandidateRule_best)

theorem candidate_rule_most_specific_witness:
  "(case GetCandidateRule (GetModelMappings (buildModelMappings insertion_sort
       [(''m'', [sample_rule ''base'' [], sample_rule ''gray'' [\<lparr>hv_Key = ''k'', hv_Value = ''v''\<rparr>]])]) ''m'')
       (\<lambda>_. Some ''v'') of
      Some r \<Rightarrow> 1 \<le> length (r_Headers r)
    | None \<Rightarrow> False)"
  using candidate_rule_most_specific [OF insertion.slice_sorter_axioms, of
      "[(''m'', [sample_rule ''base'' [], sample_rule ''gray'' [\<lparr>hv_Key = ''k'', hv_Value = ''v''\<rparr>]])]" "''m''"
      "[sample_rule ''base'' [], sample_rule ''gray'' [\<lparr>hv_Key = ''k'', hv_Value = ''v''\<rparr>]]" "\<lambda>_. Some ''v''"]
  by (simp add: matches_def sample_rule_def split: option.splits)

end
