(* ===== verification/Request.thy ===== *)
theory Request
  imports Common
begin

text \<open>
  \<^verbatim>\<open>pkg/request\<close>: the access log fields a request collects while it is handled, and the
  rewriting of its path.  The fields live in the plugin state of the request, which is absent
  until the first field is set; request headers are a partial map with lower case names.
\<close>

type_synonym access_log_field = "string \<rightharpoonup> any"

record plugin_state =
  ps_access_log :: "access_log_field option"
  ps_trace_id :: "any option"

definition newAccessLogField :: access_log_field where
  "newAccessLogField = Map.empty"

definition Set :: "access_log_field \<Rightarrow> string \<Rightarrow> any \<Rightarrow> access_log_field" where
  "Set f key v = f(key \<mapsto> v)"

definition GetAll :: "access_log_field \<Rightarrow> access_log_field" where
  "GetAll f = f"

definition SetLogField :: "plugin_state \<Rightarrow> string \<Rightarrow> any \<Rightarrow> plugin_state" where
  "SetLogField ps key v =
     (let fieldmap = (case ps_access_log ps of Some l \<Rightarrow> l | None \<Rightarrow> newAccessLogField)
      in ps\<lparr>ps_access_log := Some (Set fieldmap key v)\<rparr>)"

definition GetLogField :: "plugin_state \<Rightarrow> access_log_field option" where
  "GetLogField ps = (case ps_access_log ps of Some fs \<Rightarrow> Some (GetAll fs) | None \<Rightarrow> None)"

text \<open>\<^verbatim>\<open>pkg/trace/trace.go\<close>: a trace id that is not a string fails the type assertion.\<close>

definition GetTraceID :: "plugin_state \<Rightarrow> string run" where
  "GetTraceID ps =
     (case ps_trace_id ps of
        Some i \<Rightarrow> (case as_string i of Some s \<Rightarrow> Ret s | None \<Rightarrow> Panic)
      | None \<Rightarrow> Ret [])"

lemma SetLogField_get [simp]:
  "GetLogField (SetLogField ps key v) =
     Some ((case GetLogField ps of Some l \<Rightarrow> l | None \<Rightarrow> Map.empty)(key \<mapsto> v))"
  by (simp add: SetLogField_def GetLogField_def GetAll_def Set_def newAccessLogField_def
      split: option.splits)

subsection \<open>The path\<close>

type_synonym request_headers = "string \<rightharpoonup> string"

definition originalPathHeaderName :: string where
  "originalPathHeaderName = ''x-envoy-original-path''"

definition header_path :: "request_headers \<Rightarrow> string" where
  "header_path h = (case h '':path'' of Some p \<Rightarrow> p | None \<Rightarrow> [])"

definition SetPath :: "request_headers \<Rightarrow> string \<Rightarrow> request_headers" where
  "SetPath headers newPath =
     (let headers = (case headers originalPathHeaderName of
            None \<Rightarrow> headers(originalPathHeaderName \<mapsto> header_path headers)
          | Some _ \<Rightarrow> headers)
      in headers('':path'' \<mapsto> newPath))"

text \<open>
  However often the path of a request is rewritten, the path is the last one set, the original
  path header keeps the path the client sent (or what the client put there itself), and no other
  header changes.
\<close>

theorem path_rewrites_keep_original:
  "(let h' = foldl SetPath h (ps @ [p]) in
     h' '':path'' = Some p \<and>
     h' originalPathHeaderName =
       (case h originalPathHeaderName of Some x \<Rightarrow> Some x | None \<Rightarrow> Some (header_path h)) \<and>
     h' |` (- {'':path'', originalPathHeaderName}) = h |` (- {'':path'', originalPathHeaderName}))"
proof -
  let ?orig = "case h originalPathHeaderName of Some x \<Rightarrow> Some x | None \<Rightarrow> Some (header_path h)"
  have diff: "originalPathHeaderName \<noteq> '':path''" by (simp add: originalPathHeaderName_def)
  have step: "(SetPath g q) '':path'' = Some q"
    "(SetPath g q) originalPathHeaderName =
       (case g originalPathHeaderName of Some x \<Rightarrow> Some x | None \<Rightarrow> Some (header_path g))"
    "(SetPath g q) |` (- {'':path'', originalPathHeaderName}) =
       g |` (- {'':path'', originalPathHeaderName})" for g q
    using diff by (auto simp: SetPath_def Let_def restrict_map_def split: option.splits)
  have "(foldl SetPath h (qs @ [q])) originalPathHeaderName = ?orig \<and>
      (foldl SetPath h (qs @ [q])) |` (- {'':path'', originalPathHeaderName}) =
      h |` (- {'':path'', originalPathHeaderName})" for qs q
  proof (induction qs arbitrary: q rule: rev_induct)
    case Nil
    show ?case using step [of h q] by simp
  next
    case (snoc x xs)
    then show ?case using step [of "foldl SetPath h (xs @ [x])" q] by (auto split: option.splits)
  qed
  then show ?thesis using step(1) by (simp add: Let_def)
qed

end
