(* ===== verification/LbHost.thy ===== *)
theory LbHost
  imports LlmConfig Common
begin

text \<open>
  The small parts a load balancer is made of: a host
  (\<^verbatim>\<open>loadbalancer/host/host.go\<close>), the options of a route
  (\<^verbatim>\<open>loadbalancer/lboptions/lb_options.go\<close>) and the registry of load balancer types
  (\<^verbatim>\<open>loadbalancer/manager/manager.go\<close>).  Ports and weights are \<open>uint32\<close>.
\<close>

record host =
  h_ip :: string
  h_port :: "32 word"
  h_weight :: "32 word"
  h_labels :: "string go_map"

definition BuildHost :: "string \<Rightarrow> string \<Rightarrow> 32 word \<Rightarrow> 32 word \<Rightarrow> host" where
  "BuildHost clusterName ip port weight = \<lparr>h_ip = ip, h_port = port, h_weight = weight, h_labels = []\<rparr>"

definition Address :: "host \<Rightarrow> string" where
  "Address h = h_ip h @ '':'' @ itoa (uint (h_port h))"

definition SetLabels :: "host \<Rightarrow> string go_map \<Rightarrow> host" where
  "SetLabels h labels = h\<lparr>h_labels := labels\<rparr>"

subsection \<open>Options\<close>

record lb_options =
  o_RouteName :: string
  o_Headers :: "header_value list"
  o_Subset :: "subset list"

definition NewLoadBalancerOptions ::
  "string \<Rightarrow> header_value list \<Rightarrow> subset list \<Rightarrow> lb_options option" where
  "NewLoadBalancerOptions routeName headers subsets =
     (if length headers = 0 \<and> length subsets = 0 then None
      else Some \<lparr>o_RouteName = routeName, o_Headers = headers, o_Subset = subsets\<rparr>)"

definition GetLoraID :: "lb_options option \<Rightarrow> string" where
  "GetLoraID opts =
     (case opts of Some opt \<Rightarrow> (if length (o_Subset opt) \<noteq> 0 then s_Lora (o_Subset opt ! 0) else [])
      | None \<Rightarrow> [])"

definition GetSubsetLabels :: "lb_options option \<Rightarrow> string go_map option" where
  "GetSubsetLabels opts =
     (case opts of Some opt \<Rightarrow> (if length (o_Subset opt) \<noteq> 0 then Some (s_Labels (o_Subset opt ! 0)) else None)
      | None \<Rightarrow> None)"

text \<open>The encoded options, as JSON values; empty members are left out.\<close>

definition nonempty_str :: "string \<Rightarrow> string \<Rightarrow> (string \<times> json) list" where
  "nonempty_str k v = (if v = [] then [] else [(k, JStr v)])"

definition marshal_header :: "header_value \<Rightarrow> json" where
  "marshal_header h = JObj (nonempty_str ''key'' (hv_Key h) @ nonempty_str ''value'' (hv_Value h))"

definition marshal_subset :: "subset \<Rightarrow> json" where
  "marshal_subset s =
     JObj (nonempty_str ''name'' (s_Name s)
       @ (if s_Labels s = [] then [] else [(''labels'', JObj (map (\<lambda>(k, v). (k, JStr v)) (s_Labels s)))])
       @ nonempty_str ''lora'' (s_Lora s)
       @ (if s_Weight s = 0 then [] else [(''weight'', JInt (s_Weight s))]))"

definition GetHeaderString :: "lb_options option \<Rightarrow> json option" where
  "GetHeaderString opts =
     (case opts of Some opt \<Rightarrow> (if length (o_Headers opt) \<noteq> 0
          then Some (JArr (map marshal_header (o_Headers opt))) else None)
      | None \<Rightarrow> None)"

definition GetSubsetString :: "lb_options option \<Rightarrow> json option" where
  "GetSubsetString opts =
     (case opts of Some opt \<Rightarrow> (if length (o_Subset opt) \<noteq> 0
          then Some (marshal_subset (o_Subset opt ! 0)) else None)
      | None \<Rightarrow> None)"

subsection \<open>Registry\<close>

definition lb_RoundRobin :: string where
  "lb_RoundRobin = ''RoundRobin''"

type_synonym 'lb lb_factories = "string \<rightharpoonup> (ctx \<Rightarrow> host list \<Rightarrow> 'lb)"

definition RegisterLbType ::
  "string \<Rightarrow> (ctx \<Rightarrow> host list \<Rightarrow> 'lb) \<Rightarrow> 'lb lb_factories \<Rightarrow> 'lb lb_factories" where
  "RegisterLbType lbType f lbFactories = lbFactories(lbType \<mapsto> f)"

definition CreateLbByType ::
  "'lb lb_factories \<Rightarrow> string \<Rightarrow> ctx \<Rightarrow> host list \<Rightarrow> 'lb option" where
  "CreateLbByType lbFactories lbType context hosts =
     (case lbFactories lbType of
        Some f \<Rightarrow> Some (f context hosts)
      | None \<Rightarrow>
          (case lbFactories lb_RoundRobin of
             Some f \<Rightarrow> Some (f context hosts)
           | None \<Rightarrow> None))"

subsection \<open>Properties\<close>

lemma split_at_first:
  "c \<notin> set xs \<Longrightarrow> c \<notin> set ys \<Longrightarrow> xs @ c # as = ys @ c # bs \<longleftrightarrow> xs = ys \<and> as = bs"
proof (induction xs arbitrary: ys)
  case Nil
  then show ?case by (cases ys) auto
next
  case (Cons x xs)
  then show ?case by (cases ys) auto
qed

text \<open>
  Addresses identify hosts: two hosts have the same \<open>ip:port\<close> text exactly when they have the
  same address and the same port, whatever characters the address has.
\<close>

theorem Address_injective:
  "Address h = Address h' \<longleftrightarrow> h_ip h = h_ip h' \<and> h_port h = h_port h'"
proof
  assume eq: "Address h = Address h'"
  have digits: "CHR '':'' \<notin> set (itoa (uint w))" for w :: "32 word"
    using show_nat_digits [of "nat (uint w)"] is_digit_sign
    by (auto simp: itoa_def list_all_iff)
  have "rev (itoa (uint (h_port h))) @ CHR '':'' # rev (h_ip h) =
      rev (itoa (uint (h_port h'))) @ CHR '':'' # rev (h_ip h')"
    using arg_cong [OF eq, of rev] by (simp add: Address_def)
  then have "h_ip h = h_ip h'" "itoa (uint (h_port h)) = itoa (uint (h_port h'))"
    using split_at_first [of "CHR '':''"] digits by (metis rev_rev_ident set_rev)+
  moreover have "uint (h_port h) = uint (h_port h')"
  proof -
    have "atoi (itoa (uint w)) = Some (uint w)" for w :: "32 word"
    proof (rule atoi_itoa)
      have "- (2 ^ 63) \<le> (0 :: int)" by simp
      then show "- (2 ^ 63) \<le> uint w" using uint_ge_0 [of w] by (rule order_trans)
      show "uint w < 2 ^ 63" using uint_lt2p [of w] by simp
    qed
    then show ?thesis using calculation(2) by (metis option.inject)
  qed
  ultimately show "h_ip h = h_ip h' \<and> h_port h = h_port h'" by (simp add: word_uint_eq_iff)
qed (simp add: Address_def)

end
