(* ===== verification/InferenceLb.thy ===== *)
theory InferenceLb
  imports LbHost GoSort Request MetadataTypes "HOL-Library.AList"
begin

text \<open>
  \<^verbatim>\<open>pkg/aigateway/loadbalancer/inferencelb\<close>: the choice of an inference server by the load
  and the cached prefixes the metadata center reports.

  \<open>float64\<close> is an exact rational; \<open>minQueueSize\<close> starts at the largest float, modelled by
  \<open>None\<close>.  Arguments of the definitions: the sorting routine (\<open>sort_slice\<close>), the random
  number \<^verbatim>\<open>rand.Intn\<close> (\<open>intn\<close>), the metadata center's two queries with the time
  they take in microseconds, and the process-wide switches and percentage (\<open>lb_globals\<close>).
  The access log fields of the request are threaded through as \<open>plugin_state\<close>.
\<close>

definition KeyFilterCallback :: string where "KeyFilterCallback = ''lb.filterCallback''"
definition KeyClusterName :: string where "KeyClusterName = ''lb.clusterName''"
definition KeyTraceId :: string where "KeyTraceId = ''lb.traceId''"
definition KeyPromptHash :: string where "KeyPromptHash = ''lb.promptHash''"
definition KeyHostMatchInfo :: string where "KeyHostMatchInfo = ''lb.hostMatchInfo''"
definition KeyLbSelector :: string where "KeyLbSelector = ''lb.selector''"
definition KeyLoadAwareEnable :: string where "KeyLoadAwareEnable = ''lb.load_aware_enable''"
definition KeyCacheAwareEnable :: string where "KeyCacheAwareEnable = ''lb.cache_aware_enable''"
definition KeyCandidatePercent :: string where "KeyCandidatePercent = ''lb.candidate_percent''"
definition KeyCacheRatioWeight :: string where "KeyCacheRatioWeight = ''lb.cache_ratio_weight''"
definition KeyLoadRequestWeight :: string where "KeyLoadRequestWeight = ''lb.request_load_weight''"
definition KeyLoadPrefillWeight :: string where "KeyLoadPrefillWeight = ''lb.prefill_load_weight''"
definition KeyMetaTraceId :: string where "KeyMetaTraceId = ''metacenter.traceId''"

definition InferLbCacheRatioWeight :: int where "InferLbCacheRatioWeight = 2"
definition InferLbRequestLoadWeight :: int where "InferLbRequestLoadWeight = 1"
definition InferLbPrefillLoadWeight :: int where "InferLbPrefillLoadWeight = 3"

record endpoint_cache_stats =
  CacheHitLength :: int
  CacheHitScore :: rat
  NodeIP :: string

record endpoint_stats_wrapper =
  w_EndpointStats :: "endpoint_stats option"
  w_CacheStats :: "endpoint_cache_stats option"
  w_Host :: host
  RequestLoad :: rat
  PrefillLoad :: rat
  CacheHitRate :: rat
  Score :: rat

record inference_lb =
  lb_hosts :: "host list"

definition InferenceLoadBalancerFactory :: "ctx \<Rightarrow> host list \<Rightarrow> inference_lb" where
  "InferenceLoadBalancerFactory context hosts = \<lparr>lb_hosts = hosts\<rparr>"

text \<open>
  The global switches of the metadata center, the candidate percentage the process read first, and
  the metadata center itself.
\<close>

record lb_globals =
  g_load_enable :: bool
  g_cache_enable :: bool
  g_candidate_percent :: int

record lb_queries =
  query_load :: "ctx \<Rightarrow> string \<Rightarrow> (string + (string \<rightharpoonup> endpoint_stats)) \<times> int"
  query_cache :: "ctx \<Rightarrow> string \<Rightarrow> 64 word list \<Rightarrow> int \<Rightarrow> (string + kvcache_location list) run \<times> int"

definition getCandidatePercent :: "environment \<Rightarrow> int" where
  "getCandidatePercent env =
     (let e = env ''HTNN_AIGW_INFER_LB_CANDIDATE_PERCENT'' in
      if e \<noteq> [] then (case atoi e of Some d \<Rightarrow> d | None \<Rightarrow> 5) else 5)"

subsection \<open>Settings of a request\<close>

definition setLogField :: "ctx \<Rightarrow> string \<Rightarrow> any \<Rightarrow> plugin_state \<Rightarrow> plugin_state" where
  "setLogField ctx k v ps =
     (case ctx (LBCtxKey KeyFilterCallback) of
        Some ACallbacks \<Rightarrow> SetLogField ps k v
      | _ \<Rightarrow> ps)"

definition candidateNumFromContext :: "lb_globals \<Rightarrow> ctx \<Rightarrow> host list \<Rightarrow> int" where
  "candidateNumFromContext g ctx hosts =
     (let percent = GetValueFromCtx as_int ctx KeyCandidatePercent (g_candidate_percent g);
          n = int (length hosts)
      in min (max 1 (go_quot (wrap64 (n * percent)) 100)) n)"

definition isModelLoadAwareEnable :: "lb_globals \<Rightarrow> ctx \<Rightarrow> bool" where
  "isModelLoadAwareEnable g ctx =
     (case Option.bind (ctx (LBCtxKey KeyLoadAwareEnable)) as_bool of
        Some enable \<Rightarrow> enable
      | None \<Rightarrow> g_load_enable g)"

definition isModelCacheAwareEnable :: "lb_globals \<Rightarrow> ctx \<Rightarrow> bool" where
  "isModelCacheAwareEnable g ctx =
     (case Option.bind (ctx (LBCtxKey KeyCacheAwareEnable)) as_bool of
        Some enable \<Rightarrow> enable
      | None \<Rightarrow> g_cache_enable g)"

text \<open>A label that is not there reads as the empty string.\<close>

definition label_of :: "host \<Rightarrow> string \<Rightarrow> string" where
  "label_of h k = (case map_of (h_labels h) k of Some v \<Rightarrow> v | None \<Rightarrow> [])"

fun selector_loop :: "host \<Rightarrow> (string \<times> string) list \<Rightarrow> bool" where
  "selector_loop h [] = True"
| "selector_loop h ((k, v) # ss) = (if label_of h k \<noteq> v then False else selector_loop h ss)"

definition filterHostsBySelector :: "host list \<Rightarrow> (string \<times> string) list \<Rightarrow> host list" where
  "filterHostsBySelector hosts selector = filter (\<lambda>h. selector_loop h selector) hosts"

subsection \<open>Statistics\<close>

definition three_digits :: "int \<Rightarrow> string" where
  "three_digits n = itoa (n div 100) @ itoa (n div 10 mod 10) @ itoa (n mod 10)"

definition show_ms :: "int \<Rightarrow> string" where
  "show_ms us = itoa (us div 1000) @ ''.'' @ three_digits (us mod 1000) @ ''ms''"

definition getClusterMetric ::
  "lb_globals \<Rightarrow> lb_queries \<Rightarrow> ctx \<Rightarrow> string \<Rightarrow> plugin_state
     \<Rightarrow> (string + (string \<rightharpoonup> endpoint_stats)) \<times> plugin_state" where
  "getClusterMetric g q ctx cluster ps =
     (let ps = setLogField ctx ''use_load'' (AInt 0) ps;
          fallback = Inl (''fallback to use random. cluster: '' @ cluster);
          clusterName = GetValueFromCtx as_string ctx KeyClusterName []
      in if isModelLoadAwareEnable g ctx \<and> clusterName \<noteq> [] then
           (case query_load q ctx clusterName of
              (Inl err, us) \<Rightarrow> (Inl (''get load metrics form metacenter error'' @ err), ps)
            | (Inr stats, us) \<Rightarrow>
                (Inr stats,
                 setLogField ctx ''load_duration'' (AString (show_ms us))
                   (setLogField ctx ''use_load'' (AInt 1) ps)))
         else (fallback, ps))"

definition no_load :: endpoint_stats where
  "no_load = \<lparr>PrefillReqs = 0, TotalReqs = 0, PromptLength = 0\<rparr>"

definition wrap_host :: "(string \<rightharpoonup> endpoint_stats) \<Rightarrow> host \<Rightarrow> endpoint_stats_wrapper" where
  "wrap_host epStats h =
     \<lparr>w_EndpointStats = Some (case epStats (h_ip h) of Some s \<Rightarrow> s | None \<Rightarrow> no_load),
      w_CacheStats = None, w_Host = h, RequestLoad = 0, PrefillLoad = 0, CacheHitRate = 0, Score = 0\<rparr>"

definition getEndpointStatsByClusterName ::
  "lb_globals \<Rightarrow> lb_queries \<Rightarrow> ctx \<Rightarrow> string \<Rightarrow> host list \<Rightarrow> plugin_state
     \<Rightarrow> (string + endpoint_stats_wrapper list) \<times> plugin_state" where
  "getEndpointStatsByClusterName g q ctx clusterName hosts ps =
     (case getClusterMetric g q ctx clusterName ps of
        (Inl err, ps) \<Rightarrow> (Inl err, ps)
      | (Inr epStats, ps) \<Rightarrow> (Inr (map (wrap_host epStats) hosts), ps))"

definition cache_entry :: "nat \<Rightarrow> kvcache_location \<Rightarrow> endpoint_cache_stats" where
  "cache_entry n r =
     \<lparr>CacheHitLength = loc_length r, CacheHitScore = of_int (loc_length r) / of_nat n,
      NodeIP = loc_ip r\<rparr>"

definition DefaultTopK_lb :: int where "DefaultTopK_lb = 10"

definition getEndpointCacheStats ::
  "lb_globals \<Rightarrow> lb_queries \<Rightarrow> ctx \<Rightarrow> plugin_state
     \<Rightarrow> (string + endpoint_cache_stats go_map) run \<times> plugin_state" where
  "getEndpointCacheStats g q ctx ps =
     (if isModelCacheAwareEnable g ctx then
        (let promptHash = GetValueFromCtx as_hashes ctx KeyPromptHash [];
             clusterName = GetValueFromCtx as_string ctx KeyClusterName []
         in if length promptHash = 0 \<or> clusterName = [] then (Ret (Inr []), ps)
            else
              (case query_cache q ctx clusterName promptHash DefaultTopK_lb of
                 (Panic, us) \<Rightarrow> (Panic, ps)
               | (Ret res, us) \<Rightarrow>
                   (let ps = setLogField ctx ''cache_duration'' (AString (show_ms us)) ps in
                    case res of
                      Inl err \<Rightarrow> (Ret (Inl err), ps)
                    | Inr rs \<Rightarrow>
                        (Ret (Inr (foldl (\<lambda>m r. AList.update (loc_ip r) (cache_entry (length promptHash) r) m)
                           [] rs)), ps))))
      else (Ret (Inr []), ps))"

subsection \<open>Scores\<close>

text \<open>The maximum and minimum queue sizes and the maximum prompt length of the first loop.\<close>

definition extremes_step ::
  "rat \<times> rat option \<times> int \<Rightarrow> endpoint_stats_wrapper \<Rightarrow> rat \<times> rat option \<times> int" where
  "extremes_step acc stat =
     (case acc of (maxQ, minQ, maxP) \<Rightarrow>
        (case w_EndpointStats stat of
           None \<Rightarrow> (maxQ, minQ, maxP)
         | Some s \<Rightarrow>
             (let size = of_int (TotalReqs s) in
              (max maxQ size,
               Some (case minQ of None \<Rightarrow> size | Some m \<Rightarrow> min m size),
               if PromptLength s > maxP then PromptLength s else maxP))))"

definition load_extremes :: "endpoint_stats_wrapper list \<Rightarrow> rat \<times> rat option \<times> int" where
  "load_extremes loads = foldl extremes_step (0, None, 1024) loads"

definition merge_one ::
  "(string \<rightharpoonup> endpoint_cache_stats) \<Rightarrow> rat \<Rightarrow> rat \<Rightarrow> rat \<Rightarrow> rat \<Rightarrow> rat \<Rightarrow> int
     \<Rightarrow> endpoint_stats_wrapper \<Rightarrow> endpoint_stats_wrapper" where
  "merge_one cache cacheHitWeight requestLoadWeight prefillRadioWeight delta minQueueSize maxPromptLength stat =
     (let stat = stat\<lparr>CacheHitRate := 0\<rparr>;
          stat = (case cache (h_ip (w_Host stat)) of
              None \<Rightarrow> stat
            | Some cacheStat \<Rightarrow> stat\<lparr>w_CacheStats := Some cacheStat, CacheHitRate := CacheHitScore cacheStat\<rparr>);
          stat = stat\<lparr>RequestLoad := 1, PrefillLoad := 0\<rparr>;
          stat = (case w_EndpointStats stat of
              None \<Rightarrow> stat
            | Some s \<Rightarrow>
                stat\<lparr>RequestLoad := (of_int (TotalReqs s) - minQueueSize) / delta,
                     PrefillLoad := of_int (PromptLength s) / of_int maxPromptLength\<rparr>)
      in stat\<lparr>Score := cacheHitWeight * CacheHitRate stat - requestLoadWeight * RequestLoad stat
                        - prefillRadioWeight * PrefillLoad stat\<rparr>)"

definition mergeEndpointsStatsWrapperCacheStats ::
  "ctx \<Rightarrow> endpoint_stats_wrapper list \<Rightarrow> (string \<rightharpoonup> endpoint_cache_stats) \<Rightarrow> endpoint_stats_wrapper list" where
  "mergeEndpointsStatsWrapperCacheStats ctx loads cache =
     (let (maxQueueSize, minQ, maxPromptLength) = load_extremes loads;
          minQueueSize = (case minQ of None \<Rightarrow> 0 | Some m \<Rightarrow> m);
          cacheHitWeight = of_int (GetValueFromCtx as_int ctx KeyCacheRatioWeight InferLbCacheRatioWeight);
          delta = max 2 (maxQueueSize - minQueueSize);
          configRequestLoadWeight =
            of_int (GetValueFromCtx as_int ctx KeyLoadRequestWeight InferLbRequestLoadWeight);
          requestLoadWeight = configRequestLoadWeight * of_int \<lceil>delta / 5\<rceil>;
          prefillRadioWeight =
            of_int (GetValueFromCtx as_int ctx KeyLoadPrefillWeight InferLbPrefillLoadWeight)
      in map (merge_one cache cacheHitWeight requestLoadWeight prefillRadioWeight delta minQueueSize maxPromptLength) loads)"

text \<open>The comparison of \<^verbatim>\<open>cmp.Compare\<close>, as the strict order the sort uses: higher scores first.\<close>

definition better_score :: "endpoint_stats_wrapper \<Rightarrow> endpoint_stats_wrapper \<Rightarrow> bool" where
  "better_score m other \<longleftrightarrow> Score other < Score m"

definition setHostMatchInfo :: "ctx \<Rightarrow> endpoint_stats_wrapper \<Rightarrow> ctx" where
  "setHostMatchInfo ctx stat =
     (case w_CacheStats stat of
        Some c \<Rightarrow> WithValue ctx (LBCtxKey KeyHostMatchInfo) (AMatchInfo (CacheHitScore c))
      | None \<Rightarrow> ctx)"

fun take_loop :: "endpoint_stats_wrapper list \<Rightarrow> nat \<Rightarrow> int \<Rightarrow> ctx \<Rightarrow> host list \<Rightarrow> (ctx \<times> host list) run" where
  "take_loop stats 0 i ctx res = Ret (ctx, res)"
| "take_loop stats (Suc n) i ctx res =
     run_bind (at_index stats i) (\<lambda>s. take_loop stats n (i + 1) (setHostMatchInfo ctx s) (res @ [w_Host s]))"

definition GetCandidateByStats ::
  "endpoint_stats_wrapper slice_sort \<Rightarrow> lb_globals \<Rightarrow> lb_queries \<Rightarrow> ctx \<Rightarrow> string \<Rightarrow> host list \<Rightarrow> int
     \<Rightarrow> plugin_state \<Rightarrow> host list run \<times> plugin_state" where
  "GetCandidateByStats sort_slice g q ctx clusterName hosts candNum ps =
     (case getEndpointStatsByClusterName g q ctx clusterName hosts ps of
        (Inl err, ps) \<Rightarrow> (Ret hosts, ps)
      | (Inr stats, ps) \<Rightarrow>
          (case getEndpointCacheStats g q ctx ps of
             (Panic, ps) \<Rightarrow> (Panic, ps)
           | (Ret cres, ps) \<Rightarrow>
               (let caches = (case cres of Inl err \<Rightarrow> [] | Inr m \<Rightarrow> m);
                    useCache = (if length caches > 0 then 1 else 0);
                    ps = setLogField ctx ''use_cache'' (AInt useCache) ps;
                    stats = sort_slice better_score (mergeEndpointsStatsWrapperCacheStats ctx stats (map_of caches))
                in (run_bind (take_loop stats (nat candNum) 0 ctx []) (\<lambda>(ctx, res). Ret res), ps))))"

subsection \<open>The choice\<close>

text \<open>\<^verbatim>\<open>rand.Intn\<close> panics for a non-positive bound.\<close>

definition selectHosts :: "(int \<Rightarrow> int) \<Rightarrow> host list \<Rightarrow> (int \<times> host) run" where
  "selectHosts intn hosts =
     (if int (length hosts) \<le> 0 then Panic
      else
        (let i = intn (int (length hosts)) in
         run_bind (at_index hosts i) (\<lambda>addr. Ret (i, addr))))"

definition chooseHosts :: "(int \<Rightarrow> int) \<Rightarrow> host list \<Rightarrow> host run" where
  "chooseHosts intn candidateHosts =
     run_bind (selectHosts intn candidateHosts) (\<lambda>(i, addr). at_index candidateHosts i)"

definition ChooseHost ::
  "endpoint_stats_wrapper slice_sort \<Rightarrow> (int \<Rightarrow> int) \<Rightarrow> lb_globals \<Rightarrow> lb_queries \<Rightarrow> inference_lb \<Rightarrow> ctx
     \<Rightarrow> plugin_state \<Rightarrow> host option run \<times> plugin_state" where
  "ChooseHost sort_slice intn g q lb ctx ps =
     (let selector = GetValueFromCtx as_selector ctx KeyLbSelector [];
          candidateHosts = (if length selector > 0 then filterHostsBySelector (lb_hosts lb) selector
                            else lb_hosts lb)
      in if length candidateHosts = 0 then (Ret None, ps)
         else
           (case MustGetValueFromCtx as_string ctx KeyClusterName of
              Panic \<Rightarrow> (Panic, ps)
            | Ret clusterName \<Rightarrow>
                (let traceId = GetValueFromCtx as_string ctx KeyTraceId [];
                     ctx = WithValue ctx (LBCtxKey KeyMetaTraceId) (AString traceId);
                     (hosts, ps) =
                       (if isModelLoadAwareEnable g ctx then
                          GetCandidateByStats sort_slice g q ctx clusterName candidateHosts
                            (candidateNumFromContext g ctx candidateHosts) ps
                        else (Ret candidateHosts, ps))
                 in (run_bind hosts (\<lambda>hs. run_bind (chooseHosts intn hs) (\<lambda>h. Ret (Some h))), ps))))"

subsection \<open>Candidates\<close>

lemma candidateNum_bounds:
  "hosts \<noteq> [] \<Longrightarrow> 1 \<le> candidateNumFromContext g ctx hosts \<and>
     candidateNumFromContext g ctx hosts \<le> int (length hosts)"
proof -
  assume "hosts \<noteq> []"
  then have "1 \<le> int (length hosts)" by (cases hosts) simp_all
  then show ?thesis by (simp add: candidateNumFromContext_def Let_def)
qed

lemma selector_loop_all: "selector_loop h ss \<longleftrightarrow> (\<forall>(k, v) \<in> set ss. label_of h k = v)"
  by (induction ss) (auto split: if_splits)

text \<open>The hosts a request may go to.\<close>

definition eligible :: "inference_lb \<Rightarrow> ctx \<Rightarrow> host list" where
  "eligible lb ctx =
     filter (\<lambda>h. \<forall>(k, v) \<in> set (GetValueFromCtx as_selector ctx KeyLbSelector []). label_of h k = v)
       (lb_hosts lb)"

lemma candidate_hosts_eligible:
  "(if length (GetValueFromCtx as_selector ctx KeyLbSelector []) > 0
    then filterHostsBySelector (lb_hosts lb) (GetValueFromCtx as_selector ctx KeyLbSelector [])
    else lb_hosts lb) = eligible lb ctx"
  by (simp add: eligible_def filterHostsBySelector_def selector_loop_all)

lemma merge_one_host [simp]: "w_Host (merge_one cache a b c d m p stat) = w_Host stat"
  by (simp add: merge_one_def Let_def split: option.splits)

lemma merge_hosts: "map w_Host (mergeEndpointsStatsWrapperCacheStats ctx loads cache) = map w_Host loads"
  by (simp add: mergeEndpointsStatsWrapperCacheStats_def Let_def split: prod.splits)

lemma wrap_host_host [simp]: "w_Host (wrap_host st h) = h"
  by (simp add: wrap_host_def)

lemma take_loop_result:
  "0 \<le> i \<Longrightarrow> nat i + n \<le> length stats \<Longrightarrow>
    \<exists>ctx'. take_loop stats n i ctx res = Ret (ctx', res @ map w_Host (take n (drop (nat i) stats)))"
proof (induction n arbitrary: i ctx res)
  case (Suc n)
  have "at_index stats i = Ret (stats ! nat i)" using Suc.prems by simp
  moreover have "nat (i + 1) = Suc (nat i)" using Suc.prems by simp
  moreover have "take (Suc n) (drop (nat i) stats) = stats ! nat i # take n (drop (Suc (nat i)) stats)"
    using Suc.prems by (subst Cons_nth_drop_Suc [symmetric]) simp_all
  ultimately show ?case
    using Suc.IH [of "i + 1" "setHostMatchInfo ctx (stats ! nat i)" "res @ [w_Host (stats ! nat i)]"] Suc.prems
    by auto
qed simp

text \<open>The scored hosts: the wrappers of the eligible hosts with the answers of the two queries.\<close>

definition fresh_state :: plugin_state where
  "fresh_state = \<lparr>ps_access_log = None, ps_trace_id = None\<rparr>"

definition scored ::
  "lb_globals \<Rightarrow> lb_queries \<Rightarrow> ctx \<Rightarrow> (string \<rightharpoonup> endpoint_stats) \<Rightarrow> host list \<Rightarrow> endpoint_stats_wrapper list" where
  "scored g q ctx stats hosts =
     mergeEndpointsStatsWrapperCacheStats ctx (map (wrap_host stats) hosts)
       (map_of (case fst (getEndpointCacheStats g q ctx fresh_state) of
          Ret (Inr m) \<Rightarrow> m | _ \<Rightarrow> []))"

lemma cache_stats_state: "fst (getEndpointCacheStats g q ctx ps) = fst (getEndpointCacheStats g q ctx ps')"
  by (simp add: getEndpointCacheStats_def Let_def split: prod.splits run.splits sum.splits)

lemma mset_filter_length: "mset xs = mset ys \<Longrightarrow> length (filter p xs) = length (filter p ys)"
  by (metis mset_filter size_mset)

lemma sorted_better_before:
  assumes "sorted_wrt (\<lambda>x y. \<not> lt y x) ss" "strict_weak lt" "i < length ss"
  shows "length (filter (\<lambda>w. lt w (ss ! i)) ss) \<le> i"
proof -
  have "\<not> lt w (ss ! i)" if w: "w \<in> set (drop i ss)" for w
  proof -
    obtain j where j: "i + j < length ss" "w = ss ! (i + j)"
      using w assms(3) by (auto simp: in_set_conv_nth) (metis less_diff_conv add.commute)
    show ?thesis
    proof (cases j)
      case 0
      then show ?thesis using j strict_weakD(1) [OF assms(2)] by simp
    next
      case (Suc k)
      then show ?thesis using assms(1) j by (simp add: sorted_wrt_iff_nth_less)
    qed
  qed
  then have "filter (\<lambda>w. lt w (ss ! i)) (drop i ss) = []" by (simp add: filter_empty_conv)
  then have "filter (\<lambda>w. lt w (ss ! i)) ss = filter (\<lambda>w. lt w (ss ! i)) (take i ss)"
    by (metis append_Nil2 append_take_drop_id filter_append)
  also have "length \<dots> \<le> length (take i ss)" by (rule length_filter_le)
  finally show ?thesis by simp
qed

lemma strict_weak_score: "strict_weak better_score"
  by (auto simp: strict_weak_def better_score_def)

definition valid_random :: "(int \<Rightarrow> int) \<Rightarrow> bool" where
  "valid_random intn \<longleftrightarrow> (\<forall>n>0. 0 \<le> intn n \<and> intn n < n)"

definition calm_queries :: "lb_queries \<Rightarrow> bool" where
  "calm_queries q \<longleftrightarrow> (\<forall>ctx c hs k. fst (query_cache q ctx c hs k) \<noteq> Panic)"

lemma chooseHosts_result:
  assumes "valid_random intn" "hs \<noteq> []"
  shows "\<exists>i < length hs. chooseHosts intn hs = Ret (hs ! i)"
proof -
  let ?i = "intn (int (length hs))"
  have i: "0 \<le> ?i" "?i < int (length hs)" using assms by (simp_all add: valid_random_def)
  then have "chooseHosts intn hs = Ret (hs ! nat ?i)"
    using assms(2) by (simp add: chooseHosts_def selectHosts_def Let_def)
  then show ?thesis using i by (intro exI [of _ "nat ?i"]) (simp add: nat_less_iff)
qed

lemma getEndpointCacheStats_calm:
  "calm_queries q \<Longrightarrow> \<exists>res ps'. getEndpointCacheStats g q ctx ps = (Ret res, ps')"
  by (auto simp: getEndpointCacheStats_def Let_def calm_queries_def split: prod.splits run.splits sum.splits)
    (metis fst_conv)

text \<open>The ranked candidates: the first hosts of a sorted permutation of the scored hosts.\<close>

lemma ranked_when_answered:
  assumes "slice_sorter sort_slice" "calm_queries q" "0 \<le> candNum" "candNum \<le> int (length hosts)"
    and cm: "getClusterMetric g q ctx cl ps = (Inr stats, ps1)"
  shows "\<exists>ps' ss. mset ss = mset (scored g q ctx stats hosts) \<and>
    sorted_wrt (\<lambda>x y. \<not> better_score y x) ss \<and>
    GetCandidateByStats sort_slice g q ctx cl hosts candNum ps = (Ret (map w_Host (take (nat candNum) ss)), ps')"
proof -
  obtain res ps2 where cs: "getEndpointCacheStats g q ctx ps1 = (Ret res, ps2)"
    using getEndpointCacheStats_calm [OF assms(2)] by blast
  define caches where "caches = (case res of Inl err \<Rightarrow> [] | Inr m \<Rightarrow> m)"
  have "fst (getEndpointCacheStats g q ctx fresh_state) = Ret res"
    using cache_stats_state [of g q ctx fresh_state ps1] cs by simp
  then have sc: "scored g q ctx stats hosts =
      mergeEndpointsStatsWrapperCacheStats ctx (map (wrap_host stats) hosts) (map_of caches)"
    by (simp add: scored_def caches_def split: sum.splits)
  define ss where "ss = sort_slice better_score (scored g q ctx stats hosts)"
  have len: "length ss = length hosts"
    using slice_sorter.same_length [OF assms(1)] merge_hosts
    by (simp add: ss_def sc) (metis length_map)
  obtain ctx' where "take_loop ss (nat candNum) 0 ctx [] = Ret (ctx', map w_Host (take (nat candNum) ss))"
    using take_loop_result [of 0 "nat candNum" ss ctx "[]"] assms(4) len
    by (auto simp: nat_le_iff)
  then have "\<exists>ps'. GetCandidateByStats sort_slice g q ctx cl hosts candNum ps =
      (Ret (map w_Host (take (nat candNum) ss)), ps')"
    by (simp add: GetCandidateByStats_def getEndpointStatsByClusterName_def cm cs Let_def
        caches_def [symmetric] sc [symmetric] ss_def [symmetric])
  moreover have "mset ss = mset (scored g q ctx stats hosts)"
    unfolding ss_def by (rule slice_sorter.permutes [OF assms(1)])
  moreover have "sorted_wrt (\<lambda>x y. \<not> better_score y x) ss"
    unfolding ss_def by (rule slice_sorter.orders [OF assms(1) strict_weak_score])
  ultimately show ?thesis by blast
qed

lemma unranked_when_failed:
  "getClusterMetric g q ctx cl ps = (Inl e, ps1) \<Longrightarrow>
    GetCandidateByStats sort_slice g q ctx cl hosts candNum ps = (Ret hosts, ps1)"
  by (simp add: GetCandidateByStats_def getEndpointStatsByClusterName_def)

lemma scored_hosts: "map w_Host (scored g q ctx stats hosts) = hosts"
  by (simp add: scored_def merge_hosts comp_def)

subsection \<open>Properties of the choice\<close>

lemma ChooseHost_eligible:
  "ChooseHost sort_slice intn g q lb ctx ps =
     (if eligible lb ctx = [] then (Ret None, ps)
      else
        (case MustGetValueFromCtx as_string ctx KeyClusterName of
           Panic \<Rightarrow> (Panic, ps)
         | Ret cl \<Rightarrow>
             (let ctx' = WithValue ctx (LBCtxKey KeyMetaTraceId)
                     (AString (GetValueFromCtx as_string ctx KeyTraceId []));
                  (hosts, ps) =
                    (if isModelLoadAwareEnable g ctx' then
                       GetCandidateByStats sort_slice g q ctx' cl (eligible lb ctx)
                         (candidateNumFromContext g ctx' (eligible lb ctx)) ps
                     else (Ret (eligible lb ctx), ps))
              in (run_bind hosts (\<lambda>hs. run_bind (chooseHosts intn hs) (\<lambda>h. Ret (Some h))), ps))))"
  unfolding ChooseHost_def Let_def candidate_hosts_eligible by simp

lemma ChooseHost_in:
  assumes "slice_sorter sort_slice" and "valid_random intn" and "calm_queries q"
    and "ctx (LBCtxKey KeyClusterName) = Some (AString cl)"
  shows "case fst (ChooseHost sort_slice intn g q lb ctx ps) of
      Panic \<Rightarrow> False
    | Ret None \<Rightarrow> eligible lb ctx = []
    | Ret (Some h) \<Rightarrow> h \<in> set (eligible lb ctx)"
proof (cases "eligible lb ctx = []")
  case True
  then show ?thesis by (simp add: ChooseHost_eligible)
next
  case False
  let ?hs = "eligible lb ctx"
  let ?ctx = "WithValue ctx (LBCtxKey KeyMetaTraceId) (AString (GetValueFromCtx as_string ctx KeyTraceId []))"
  let ?n = "candidateNumFromContext g ?ctx ?hs"
  have n: "1 \<le> ?n" "?n \<le> int (length ?hs)" using candidateNum_bounds [OF False] by auto
  have cl: "MustGetValueFromCtx as_string ctx KeyClusterName = Ret cl"
    using assms(4) by (simp add: MustGetValueFromCtx_def)
  have hosts: "\<exists>cs ps'. (if isModelLoadAwareEnable g ?ctx
        then GetCandidateByStats sort_slice g q ?ctx cl ?hs ?n ps else (Ret ?hs, ps)) = (Ret cs, ps') \<and>
      cs \<noteq> [] \<and> set cs \<subseteq> set ?hs"
  proof (cases "isModelLoadAwareEnable g ?ctx")
    case True
    have "0 \<le> ?n" using n(1) by simp
    obtain r ps1 where cm: "getClusterMetric g q ?ctx cl ps = (r, ps1)"
      by (cases "getClusterMetric g q ?ctx cl ps")
    show ?thesis
    proof (cases r)
      case (Inl e)
      then show ?thesis using True False unranked_when_failed cm by auto
    next
      case (Inr stats)
      obtain ps' ss where ss: "mset ss = mset (scored g q ?ctx stats ?hs)"
          "GetCandidateByStats sort_slice g q ?ctx cl ?hs ?n ps = (Ret (map w_Host (take (nat ?n) ss)), ps')"
        using ranked_when_answered [OF assms(1,3) \<open>0 \<le> ?n\<close> n(2) cm [unfolded Inr]] by blast
      have "w_Host ` set ss = set ?hs"
        using mset_eq_setD [OF ss(1)] scored_hosts [of g q ?ctx stats ?hs] by (metis list.set_map)
      then have "set (map w_Host (take (nat ?n) ss)) \<subseteq> set ?hs"
        by (metis image_mono list.set_map set_take_subset)
      moreover have "length ss = length ?hs"
        using mset_eq_length [OF ss(1)] scored_hosts [of g q ?ctx stats ?hs] by (metis length_map)
      then have "map w_Host (take (nat ?n) ss) \<noteq> []" using False n(1) by auto
      ultimately show ?thesis using True ss(2) by auto
    qed
  qed (use False in auto)
  then obtain cs ps' where cs: "cs \<noteq> []" "set cs \<subseteq> set ?hs" and eq: "(if isModelLoadAwareEnable g ?ctx
        then GetCandidateByStats sort_slice g q ?ctx cl ?hs ?n ps else (Ret ?hs, ps)) = (Ret cs, ps')"
    by blast
  obtain i where "i < length cs" "chooseHosts intn cs = Ret (cs ! i)"
    using chooseHosts_result [OF assms(2) cs(1)] by blast
  then have "fst (ChooseHost sort_slice intn g q lb ctx ps) = Ret (Some (cs ! i))" "cs ! i \<in> set ?hs"
    using False cl eq cs(2) by (auto simp: ChooseHost_eligible Let_def)
  then show ?thesis by simp
qed


definition sample_host :: "string \<Rightarrow> host" where
  "sample_host ip = \<lparr>h_ip = ip, h_port = 80, h_weight = 0, h_labels = []\<rparr>"

definition sample_globals :: lb_globals where
  "sample_globals = \<lparr>g_load_enable = True, g_cache_enable = False, g_candidate_percent = 5\<rparr>"

definition sample_queries :: lb_queries where
  "sample_queries =
     \<lparr>query_load = (\<lambda>ctx cl. (Inr [''a'' \<mapsto> \<lparr>PrefillReqs = 0, TotalReqs = 9, PromptLength = 0\<rparr>], 0)),
      query_cache = (\<lambda>ctx cl hs k. (Ret (Inr []), 0))\<rparr>"

definition sample_ctx :: ctx where
  "sample_ctx = WithValue background (LBCtxKey KeyClusterName) (AString ''c'')"

definition sample_lb :: inference_lb where
  "sample_lb = \<lparr>lb_hosts = [sample_host ''a'', sample_host ''b'']\<rparr>"

lemma sample_calm: "calm_queries sample_queries"
  by (simp add: calm_queries_def sample_queries_def)

lemma sample_eligible: "eligible sample_lb sample_ctx = [sample_host ''a'', sample_host ''b'']"
  by (simp add: eligible_def sample_lb_def sample_ctx_def GetValueFromCtx_def KeyLbSelector_def
      KeyClusterName_def background_def)


text \<open>
  C6. Load-aware choice picks among the best.  When load awareness is on and the metadata center
  answers the load query, fewer than \<open>n\<close> of the eligible hosts have a strictly higher score
  than the host chosen, where \<open>n\<close> is the configured percentage of the eligible hosts, at least
  one and at most all.  With one candidate the choice is a host of maximal score.
\<close>

theorem ChooseHost_among_best:
  assumes "slice_sorter sort_slice" and "valid_random intn" and "calm_queries q"
    and "ctx (LBCtxKey KeyClusterName) = Some (AString cl)"
    and "fst (ChooseHost sort_slice intn g q lb ctx ps) = Ret (Some h)"
    and "isModelLoadAwareEnable g ctx"
    and "ctx' = WithValue ctx (LBCtxKey KeyMetaTraceId) (AString (GetValueFromCtx as_string ctx KeyTraceId []))"
    and "fst (getClusterMetric g q ctx' cl ps) = Inr stats"
  shows "\<exists>w \<in> set (scored g q ctx' stats (eligible lb ctx)). w_Host w = h \<and>
    int (length (filter (\<lambda>v. Score w < Score v) (scored g q ctx' stats (eligible lb ctx))))
      < candidateNumFromContext g ctx' (eligible lb ctx)"
proof -
  let ?hs = "eligible lb ctx" and ?n = "candidateNumFromContext g ctx' (eligible lb ctx)"
  have ne: "?hs \<noteq> []" using assms(5) by (auto simp: ChooseHost_eligible)
  have n: "0 \<le> ?n" "?n \<le> int (length ?hs)" "1 \<le> ?n" using candidateNum_bounds [OF ne, of g ctx'] by auto
  have cl: "MustGetValueFromCtx as_string ctx KeyClusterName = Ret cl"
    using assms(4) by (simp add: MustGetValueFromCtx_def)
  have on: "isModelLoadAwareEnable g ctx'"
    using assms(6,7) by (simp add: isModelLoadAwareEnable_def KeyLoadAwareEnable_def KeyMetaTraceId_def)
  obtain ps1 where cm: "getClusterMetric g q ctx' cl ps = (Inr stats, ps1)"
    using assms(8) by (metis prod.collapse)
  obtain ps' ss where ss: "mset ss = mset (scored g q ctx' stats ?hs)"
      "sorted_wrt (\<lambda>x y. \<not> better_score y x) ss"
      "GetCandidateByStats sort_slice g q ctx' cl ?hs ?n ps = (Ret (map w_Host (take (nat ?n) ss)), ps')"
    using ranked_when_answered [OF assms(1,3) n(1,2) cm] by blast
  have len: "length ss = length ?hs"
    using mset_eq_length [OF ss(1)] scored_hosts [of g q ctx' stats ?hs] by (metis length_map)
  let ?cs = "map w_Host (take (nat ?n) ss)"
  have "?cs \<noteq> []" using len ne n(3) by auto
  then obtain i where i: "i < length ?cs" "chooseHosts intn ?cs = Ret (?cs ! i)"
    using chooseHosts_result [OF assms(2)] by blast
  have "h = ?cs ! i"
    using assms(5,7) on ne cl ss(3) i(2) by (simp add: ChooseHost_eligible Let_def)
  moreover have i': "i < nat ?n" "i < length ss" using i(1) by simp_all
  ultimately have h: "w_Host (ss ! i) = h" using i(1) by simp
  have "length (filter (\<lambda>v. better_score v (ss ! i)) (scored g q ctx' stats ?hs)) \<le> i"
    using sorted_better_before [OF ss(2) strict_weak_score i'(2)] mset_filter_length [OF ss(1)] by metis
  moreover have "ss ! i \<in> set (scored g q ctx' stats ?hs)"
    using nth_mem [OF i'(2)] mset_eq_setD [OF ss(1)] by simp
  ultimately show ?thesis using h i'(1) by (intro bexI [of _ "ss ! i"]) (simp_all add: better_score_def)
qed

lemma sample_choice:
  "fst (ChooseHost insertion_sort (\<lambda>_. 0) sample_globals sample_queries sample_lb sample_ctx fresh_state) =
     Ret (Some (sample_host ''b''))"
  by code_simp

theorem ChooseHost_among_best_witness:
  "\<exists>ctx' stats. fst (getClusterMetric sample_globals sample_queries ctx' ''c'' fresh_state) = Inr stats \<and>
     (\<exists>w \<in> set (scored sample_globals sample_queries ctx' stats (eligible sample_lb sample_ctx)).
        w_Host w = sample_host ''b'' \<and>
        filter (\<lambda>v. Score w < Score v)
          (scored sample_globals sample_queries ctx' stats (eligible sample_lb sample_ctx)) = [])"
proof -
  let ?ctx = "WithValue sample_ctx (LBCtxKey KeyMetaTraceId)
      (AString (GetValueFromCtx as_string sample_ctx KeyTraceId []))"
  let ?stats = "[''a'' \<mapsto> \<lparr>PrefillReqs = 0, TotalReqs = 9, PromptLength = 0\<rparr>] :: string \<rightharpoonup> endpoint_stats"
  have on: "isModelLoadAwareEnable sample_globals sample_ctx"
    by (simp add: isModelLoadAwareEnable_def sample_ctx_def KeyLoadAwareEnable_def KeyClusterName_def
        background_def sample_globals_def)
  have cl: "sample_ctx (LBCtxKey KeyClusterName) = Some (AString ''c'')"
    by (simp add: sample_ctx_def)
  have cm: "fst (getClusterMetric sample_globals sample_queries ?ctx ''c'' fresh_state) = Inr ?stats"
    by (simp add: getClusterMetric_def Let_def isModelLoadAwareEnable_def sample_ctx_def KeyLoadAwareEnable_def
        KeyClusterName_def KeyMetaTraceId_def background_def sample_globals_def sample_queries_def
        GetValueFromCtx_def)
  have "valid_random (\<lambda>_. 0)" by (simp add: valid_random_def)
  from ChooseHost_among_best [OF insertion.slice_sorter_axioms this sample_calm cl sample_choice on refl cm]
  obtain w where w: "w \<in> set (scored sample_globals sample_queries ?ctx ?stats (eligible sample_lb sample_ctx))"
      "w_Host w = sample_host ''b''"
      "int (length (filter (\<lambda>v. Score w < Score v)
         (scored sample_globals sample_queries ?ctx ?stats (eligible sample_lb sample_ctx))))
       < candidateNumFromContext sample_globals ?ctx (eligible sample_lb sample_ctx)"
    by blast
  have "candidateNumFromContext sample_globals ?ctx (eligible sample_lb sample_ctx) = 1"
    unfolding sample_eligible by code_simp
  with w cm show ?thesis by (intro exI [of _ ?ctx] exI [of _ ?stats]) auto
qed

subsection \<open>Scores\<close>

lemma load_extremes_step:
  assumes "\<forall>w \<in> set loads. w_EndpointStats w \<noteq> None"
    and "foldl extremes_step (maxQ, minQ, maxP) loads = (maxQ', minQ', maxP')"
  shows "maxQ \<le> maxQ' \<and> maxP \<le> maxP' \<and>
       (\<forall>m. minQ = Some m \<longrightarrow> (\<exists>m'. minQ' = Some m' \<and> m' \<le> m)) \<and>
       (\<forall>w s. w \<in> set loads \<longrightarrow> w_EndpointStats w = Some s \<longrightarrow>
          of_int (TotalReqs s) \<le> maxQ' \<and> PromptLength s \<le> maxP' \<and>
          (\<exists>m'. minQ' = Some m' \<and> m' \<le> of_int (TotalReqs s)))"
  using assms
proof (induction loads arbitrary: maxQ minQ maxP)
  case (Cons w ws)
  obtain s where s: "w_EndpointStats w = Some s" using Cons.prems by auto
  let ?q = "of_int (TotalReqs s) :: rat"
  let ?m = "case minQ of None \<Rightarrow> ?q | Some m \<Rightarrow> min m ?q"
  let ?p = "if PromptLength s > maxP then PromptLength s else maxP"
  have m: "?m \<le> ?q" "\<And>m. minQ = Some m \<Longrightarrow> ?m \<le> m" by (auto split: option.splits)
  have p: "PromptLength s \<le> ?p" "maxP \<le> ?p" by auto
  have "extremes_step (maxQ, minQ, maxP) w = (max maxQ ?q, Some ?m, ?p)"
    by (simp add: extremes_step_def s Let_def)
  then have "foldl extremes_step (max maxQ ?q, Some ?m, ?p) ws = (maxQ', minQ', maxP')"
    using Cons.prems(2) by (simp only: foldl_Cons)
  from Cons.IH [OF _ this] Cons.prems(1)
  have IH: "max maxQ ?q \<le> maxQ'" "?p \<le> maxP'" "\<exists>m'. minQ' = Some m' \<and> m' \<le> ?m"
    "\<forall>w s. w \<in> set ws \<longrightarrow> w_EndpointStats w = Some s \<longrightarrow>
          of_int (TotalReqs s) \<le> maxQ' \<and> PromptLength s \<le> maxP' \<and>
          (\<exists>m'. minQ' = Some m' \<and> m' \<le> of_int (TotalReqs s))"
    by simp_all
  have "maxQ \<le> maxQ'" "?q \<le> maxQ'" using IH(1) by simp_all
  moreover have "maxP \<le> maxP'" "PromptLength s \<le> maxP'" using IH(2) p by linarith+
  moreover obtain m' where m': "minQ' = Some m'" "m' \<le> ?m" using IH(3) by blast
  moreover have "m' \<le> ?q" using m' m(1) by linarith
  moreover have "\<And>m. minQ = Some m \<Longrightarrow> m' \<le> m" using m' m(2) by fastforce
  ultimately show ?case using IH(4) s by auto
qed auto

lemma load_extremes_bounds:
  assumes "\<forall>w \<in> set loads. w_EndpointStats w \<noteq> None" "load_extremes loads = (maxQ, minQ, maxP)"
    "w \<in> set loads" "w_EndpointStats w = Some s"
  shows "1024 \<le> maxP" "PromptLength s \<le> maxP" "of_int (TotalReqs s) \<le> maxQ"
    "\<exists>m. minQ = Some m \<and> m \<le> of_int (TotalReqs s)"
  using load_extremes_step [OF assms(1) assms(2) [unfolded load_extremes_def]] assms(3,4) by auto

text \<open>The parts of a score, for wrappers that carry statistics.\<close>

definition hit_rate :: "(string \<rightharpoonup> endpoint_cache_stats) \<Rightarrow> endpoint_stats_wrapper \<Rightarrow> rat" where
  "hit_rate cache w = (case cache (h_ip (w_Host w)) of Some c \<Rightarrow> CacheHitScore c | None \<Rightarrow> 0)"

definition weight_of :: "ctx \<Rightarrow> string \<Rightarrow> int \<Rightarrow> int" where
  "weight_of ctx key dflt = GetValueFromCtx as_int ctx key dflt"

lemma merge_one_parts:
  assumes "w_EndpointStats w = Some s"
  shows "CacheHitRate (merge_one cache c r p d m mp w) = hit_rate cache w"
    "RequestLoad (merge_one cache c r p d m mp w) = (of_int (TotalReqs s) - m) / d"
    "PrefillLoad (merge_one cache c r p d m mp w) = of_int (PromptLength s) / of_int mp"
    "Score (merge_one cache c r p d m mp w) =
       c * hit_rate cache w - r * ((of_int (TotalReqs s) - m) / d) - p * (of_int (PromptLength s) / of_int mp)"
  using assms by (simp_all add: merge_one_def hit_rate_def Let_def split: option.splits)

lemma merge_parameters:
  assumes "\<forall>w \<in> set loads. w_EndpointStats w \<noteq> None" "loads \<noteq> []"
  shows "\<exists>d m mp. 2 \<le> d \<and> 1024 \<le> mp \<and>
    (\<forall>w s. w \<in> set loads \<longrightarrow> w_EndpointStats w = Some s \<longrightarrow>
       m \<le> of_int (TotalReqs s) \<and> of_int (TotalReqs s) - m \<le> d \<and> PromptLength s \<le> mp) \<and>
    mergeEndpointsStatsWrapperCacheStats ctx loads cache =
      map (merge_one cache (of_int (weight_of ctx KeyCacheRatioWeight InferLbCacheRatioWeight))
             (of_int (weight_of ctx KeyLoadRequestWeight InferLbRequestLoadWeight) * of_int \<lceil>d / 5\<rceil>)
             (of_int (weight_of ctx KeyLoadPrefillWeight InferLbPrefillLoadWeight)) d m mp) loads"
proof -
  obtain maxQ minQ mp where ex: "load_extremes loads = (maxQ, minQ, mp)" by (metis prod.exhaust)
  note b = load_extremes_bounds [OF assms(1) ex]
  obtain w s where w: "w \<in> set loads" "w_EndpointStats w = Some s"
    using assms by (cases loads) auto
  obtain m where m: "minQ = Some m" using b(4) [OF w] by blast
  let ?d = "max 2 (maxQ - m)"
  have "m \<le> of_int (TotalReqs s) \<and> of_int (TotalReqs s) - m \<le> ?d \<and> PromptLength s \<le> mp"
    if "w \<in> set loads" "w_EndpointStats w = Some s" for w s
    using b(2,3,4) [OF that] m by (auto simp: le_max_iff_disj)
  then show ?thesis
    using b(1) [OF w]
    by (intro exI [of _ ?d] exI [of _ m] exI [of _ mp])
      (simp add: mergeEndpointsStatsWrapperCacheStats_def ex m Let_def weight_of_def)
qed

text \<open>
  The three factors are ratios: for hosts with statistics that are not negative, every merged
  request load and prefill load lies between zero and one, whatever the spread of the queues, and
  the cache hit rate is the one reported for the host; and the score is their weighted difference,
  the weight of the request load multiplied by one whole number \<open>k \<ge> 1\<close> for all hosts.
\<close>

theorem score_factors_are_ratios:
  assumes "\<forall>w \<in> set loads. \<exists>s. w_EndpointStats w = Some s \<and> 0 \<le> TotalReqs s \<and> 0 \<le> PromptLength s"
  shows "\<exists>k::int \<ge> 1. \<forall>w' \<in> set (mergeEndpointsStatsWrapperCacheStats ctx loads cache).
    0 \<le> RequestLoad w' \<and> RequestLoad w' \<le> 1 \<and> 0 \<le> PrefillLoad w' \<and> PrefillLoad w' \<le> 1 \<and>
    CacheHitRate w' = hit_rate cache w' \<and>
    Score w' = of_int (weight_of ctx KeyCacheRatioWeight InferLbCacheRatioWeight) * CacheHitRate w'
      - of_int (weight_of ctx KeyLoadRequestWeight InferLbRequestLoadWeight) * of_int k * RequestLoad w'
      - of_int (weight_of ctx KeyLoadPrefillWeight InferLbPrefillLoadWeight) * PrefillLoad w'"
proof (cases "loads = []")
  case True
  then show ?thesis
    by (intro exI [of _ 1]) (simp add: mergeEndpointsStatsWrapperCacheStats_def Let_def split: prod.splits)
next
  case ne: False
  have some: "\<forall>w \<in> set loads. w_EndpointStats w \<noteq> None" using assms(1) by auto
  obtain d m mp where d: "2 \<le> d" "1024 \<le> mp" and b: "\<And>w s. w \<in> set loads \<Longrightarrow> w_EndpointStats w = Some s \<Longrightarrow>
       m \<le> of_int (TotalReqs s) \<and> of_int (TotalReqs s) - m \<le> d \<and> PromptLength s \<le> mp"
    and eq: "mergeEndpointsStatsWrapperCacheStats ctx loads cache =
      map (merge_one cache (of_int (weight_of ctx KeyCacheRatioWeight InferLbCacheRatioWeight))
             (of_int (weight_of ctx KeyLoadRequestWeight InferLbRequestLoadWeight) * of_int \<lceil>d / 5\<rceil>)
             (of_int (weight_of ctx KeyLoadPrefillWeight InferLbPrefillLoadWeight)) d m mp) loads"
    using merge_parameters [OF some ne, of ctx cache] by blast
  show ?thesis
  proof (intro exI [of _ "\<lceil>d / 5\<rceil>"] conjI ballI)
    show "1 \<le> \<lceil>d / 5\<rceil>" using d(1) by linarith
    fix w' assume "w' \<in> set (mergeEndpointsStatsWrapperCacheStats ctx loads cache)"
    then obtain w where w: "w \<in> set loads"
      "w' = merge_one cache (of_int (weight_of ctx KeyCacheRatioWeight InferLbCacheRatioWeight))
             (of_int (weight_of ctx KeyLoadRequestWeight InferLbRequestLoadWeight) * of_int \<lceil>d / 5\<rceil>)
             (of_int (weight_of ctx KeyLoadPrefillWeight InferLbPrefillLoadWeight)) d m mp w"
      unfolding eq by auto
    obtain s where s: "w_EndpointStats w = Some s" "0 \<le> TotalReqs s" "0 \<le> PromptLength s"
      using assms(1) w(1) by blast
    note parts = merge_one_parts [OF s(1)]
    show "0 \<le> RequestLoad w'" "RequestLoad w' \<le> 1"
      using b [OF w(1) s(1)] d(1) by (simp_all add: w(2) parts divide_le_eq)
    show "0 \<le> PrefillLoad w'" "PrefillLoad w' \<le> 1"
      using b [OF w(1) s(1)] d(2) s(3) by (simp_all add: w(2) parts divide_le_eq)
    show "CacheHitRate w' = hit_rate cache w'"
      by (simp add: w(2) parts) (simp add: hit_rate_def w(2))
    show "Score w' = of_int (weight_of ctx KeyCacheRatioWeight InferLbCacheRatioWeight) * CacheHitRate w'
      - of_int (weight_of ctx KeyLoadRequestWeight InferLbRequestLoadWeight) * of_int \<lceil>d / 5\<rceil> * RequestLoad w'
      - of_int (weight_of ctx KeyLoadPrefillWeight InferLbPrefillLoadWeight) * PrefillLoad w'"
      by (simp add: w(2) parts)
  qed
qed

text \<open>
  Less load never hurts: of two hosts of one cluster, the one with no more queued requests, no
  longer prompts and no smaller cache hit rate has at least the other's score, for non-negative
  weights.  So a host is passed over only for one that is better in some respect.
\<close>

theorem score_monotone:
  assumes "\<forall>w \<in> set loads. w_EndpointStats w \<noteq> None"
    and "i < length loads" and "j < length loads"
    and "w_EndpointStats (loads ! i) = Some a" and "w_EndpointStats (loads ! j) = Some b"
    and "TotalReqs a \<le> TotalReqs b" and "PromptLength a \<le> PromptLength b"
    and "hit_rate cache (loads ! j) \<le> hit_rate cache (loads ! i)"
    and "0 \<le> weight_of ctx KeyCacheRatioWeight InferLbCacheRatioWeight"
    and "0 \<le> weight_of ctx KeyLoadRequestWeight InferLbRequestLoadWeight"
    and "0 \<le> weight_of ctx KeyLoadPrefillWeight InferLbPrefillLoadWeight"
  shows "Score (mergeEndpointsStatsWrapperCacheStats ctx loads cache ! j)
    \<le> Score (mergeEndpointsStatsWrapperCacheStats ctx loads cache ! i)"
proof -
  have "loads \<noteq> []" using assms(2) by auto
  from merge_parameters [OF assms(1) this, of ctx cache] obtain d m mp where
    d: "2 \<le> d" "1024 \<le> mp" and
    eq: "mergeEndpointsStatsWrapperCacheStats ctx loads cache =
      map (merge_one cache (of_int (weight_of ctx KeyCacheRatioWeight InferLbCacheRatioWeight))
             (of_int (weight_of ctx KeyLoadRequestWeight InferLbRequestLoadWeight) * of_int \<lceil>d / 5\<rceil>)
             (of_int (weight_of ctx KeyLoadPrefillWeight InferLbPrefillLoadWeight)) d m mp) loads"
    by blast
  have "(of_int (TotalReqs a) - m) / d \<le> (of_int (TotalReqs b) - m) / d"
    using assms(6) d(1) by (intro divide_right_mono) simp_all
  moreover have "(of_int (PromptLength a) :: rat) / of_int mp \<le> of_int (PromptLength b) / of_int mp"
    using assms(7) d(2) by (intro divide_right_mono) simp_all
  moreover have "(0 :: rat) \<le> of_int \<lceil>d / 5\<rceil>" using d(1) by simp
  ultimately show ?thesis
    unfolding eq nth_map [OF assms(2)] nth_map [OF assms(3)]
      merge_one_parts(4) [OF assms(4)] merge_one_parts(4) [OF assms(5)]
    using assms(8-11) by (intro diff_mono mult_left_mono) simp_all
qed

definition sample_loads :: "endpoint_stats_wrapper list" where
  "sample_loads =
     map (wrap_host [''a'' \<mapsto> \<lparr>PrefillReqs = 0, TotalReqs = 9, PromptLength = 2048\<rparr>])
       [sample_host ''a'', sample_host ''b'']"

lemma sample_weights [simp]:
  "weight_of sample_ctx KeyLoadRequestWeight d = d" "weight_of sample_ctx KeyLoadPrefillWeight d = d"
  "weight_of sample_ctx KeyCacheRatioWeight d = d"
  by (simp_all add: weight_of_def GetValueFromCtx_def sample_ctx_def background_def KeyClusterName_def
      KeyLoadRequestWeight_def KeyLoadPrefillWeight_def KeyCacheRatioWeight_def)

lemma sample_loads_merged:
  "length (mergeEndpointsStatsWrapperCacheStats ctx sample_loads cache) = 2"
  by (simp add: sample_loads_def mergeEndpointsStatsWrapperCacheStats_def Let_def split: prod.splits)

theorem score_factors_are_ratios_witness:
  "RequestLoad (mergeEndpointsStatsWrapperCacheStats sample_ctx sample_loads Map.empty ! 0) \<le> 1 \<and>
   Score (mergeEndpointsStatsWrapperCacheStats sample_ctx sample_loads Map.empty ! 0) \<le> 0"
proof -
  let ?m = "mergeEndpointsStatsWrapperCacheStats sample_ctx sample_loads Map.empty"
  have "\<forall>w \<in> set sample_loads. \<exists>s. w_EndpointStats w = Some s \<and> 0 \<le> TotalReqs s \<and> 0 \<le> PromptLength s"
    by (simp add: sample_loads_def wrap_host_def sample_host_def no_load_def)
  from score_factors_are_ratios [OF this] obtain k :: int where k: "1 \<le> k" and
    f: "\<forall>w' \<in> set ?m. 0 \<le> RequestLoad w' \<and> RequestLoad w' \<le> 1 \<and> 0 \<le> PrefillLoad w' \<and> PrefillLoad w' \<le> 1 \<and>
      CacheHitRate w' = hit_rate Map.empty w' \<and>
      Score w' = of_int (weight_of sample_ctx KeyCacheRatioWeight InferLbCacheRatioWeight) * CacheHitRate w'
        - of_int (weight_of sample_ctx KeyLoadRequestWeight InferLbRequestLoadWeight) * of_int k * RequestLoad w'
        - of_int (weight_of sample_ctx KeyLoadPrefillWeight InferLbPrefillLoadWeight) * PrefillLoad w'"
    by blast
  have "?m ! 0 \<in> set ?m" by (rule nth_mem) (simp add: sample_loads_merged)
  note g = f [rule_format, OF this]
  have "0 \<le> of_int k * RequestLoad (?m ! 0)" using g k by simp
  with g show ?thesis
    by (simp add: InferLbRequestLoadWeight_def InferLbPrefillLoadWeight_def hit_rate_def)
qed

theorem score_monotone_witness:
  "Score (mergeEndpointsStatsWrapperCacheStats sample_ctx sample_loads Map.empty ! 0)
     \<le> Score (mergeEndpointsStatsWrapperCacheStats sample_ctx sample_loads Map.empty ! 1)"
  by (rule score_monotone [where a = no_load and b = "\<lparr>PrefillReqs = 0, TotalReqs = 9, PromptLength = 2048\<rparr>"])
    (simp_all add: sample_loads_def wrap_host_def sample_host_def no_load_def hit_rate_def
      InferLbRequestLoadWeight_def InferLbPrefillLoadWeight_def InferLbCacheRatioWeight_def)

end
