(* ===== verification/ClusterManager.thy ===== *)
theory ClusterManager
  imports InferenceLb
begin

text \<open>
  \<^verbatim>\<open>pkg/aigateway/clustermanager\<close>: which load balancer serves a cluster, created on first use
  for each type and refreshed when the provider announces new endpoints
  (\<^verbatim>\<open>cluster/cluster.go\<close>, \<^verbatim>\<open>cluster.go\<close>, \<^verbatim>\<open>manager.go\<close>), and
  \<^verbatim>\<open>loadbalancer/loadbalancer.go\<close>, which sets the chosen host as the upstream.

  The load balancers are held behind the interface \<^verbatim>\<open>types.LoadBalancer\<close>: their type
  \<open>'lb\<close> and their operation (\<open>pick\<close>) are parameters, and so are the registry of factories
  and the provider of cluster information.  The maps are guarded by a lock with a second look-up
  inside, so a call that creates an entry is one step.  \<open>'s\<close> is the state of the request.
\<close>

record endpoint =
  ep_Address :: string
  ep_Port :: "32 word"
  ep_Labels :: "string go_map"

record cluster_info =
  ci_Name :: string
  ci_Endpoints :: "endpoint list"

subsection \<open>One cluster\<close>

record 'lb lb_cluster =
  c_lb :: "'lb option"
  c_hosts :: "host list"
  c_lbType :: string
  c_lbContext :: ctx

record 'lb lb_manager =
  cm_name :: string
  cm_clusters :: "string \<rightharpoonup> 'lb lb_cluster"
  cm_hosts :: "host list"

definition createClusterHosts :: "string \<Rightarrow> endpoint list \<Rightarrow> host list" where
  "createClusterHosts name endpoints =
     map (\<lambda>server. SetLabels (BuildHost name (ep_Address server) (ep_Port server) 0) (ep_Labels server))
       endpoints"

definition NewLbManager :: "string \<Rightarrow> endpoint list \<Rightarrow> 'lb lb_manager" where
  "NewLbManager name endpoints =
     \<lparr>cm_name = name, cm_clusters = Map.empty, cm_hosts = createClusterHosts name endpoints\<rparr>"

definition GetCluster ::
  "'lb lb_factories \<Rightarrow> ctx \<Rightarrow> string \<Rightarrow> 'lb lb_manager \<Rightarrow> (string + 'lb lb_cluster) \<times> 'lb lb_manager" where
  "GetCluster factories ctx lbType cm =
     (case cm_clusters cm lbType of
        Some cl \<Rightarrow> (Inr cl, cm)
      | None \<Rightarrow>
          (case CreateLbByType factories lbType ctx (cm_hosts cm) of
             None \<Rightarrow> (Inl (''fail CreateLbByType with type '' @ lbType), cm)
           | Some lb \<Rightarrow>
               (let cl = \<lparr>c_lb = Some lb, c_hosts = cm_hosts cm, c_lbType = lbType, c_lbContext = ctx\<rparr>
                in (Inr cl, cm\<lparr>cm_clusters := (cm_clusters cm)(lbType \<mapsto> cl)\<rparr>))))"

text \<open>The update visits the load balancers that exist; the manager's own host list stays.\<close>

definition UpdateCluster :: "'lb lb_factories \<Rightarrow> endpoint list \<Rightarrow> 'lb lb_manager \<Rightarrow> 'lb lb_manager" where
  "UpdateCluster factories endpoints cm =
     (let lbHosts = createClusterHosts (cm_name cm) endpoints in
      cm\<lparr>cm_clusters := (\<lambda>t. map_option (\<lambda>cl.
            cl\<lparr>c_hosts := lbHosts, c_lb := CreateLbByType factories (c_lbType cl) (c_lbContext cl) lbHosts\<rparr>)
          (cm_clusters cm t))\<rparr>)"

text \<open>Calling a nil load balancer panics.\<close>

definition ClusterChooseHost ::
  "('lb \<Rightarrow> ctx \<Rightarrow> 's \<Rightarrow> host option run \<times> 's) \<Rightarrow> 'lb lb_cluster \<Rightarrow> ctx \<Rightarrow> 's \<Rightarrow> host option run \<times> 's" where
  "ClusterChooseHost pick cl ctx s =
     (case c_lb cl of None \<Rightarrow> (Panic, s) | Some lb \<Rightarrow> pick lb ctx s)"

definition GetHostsNumber :: "'lb lb_cluster \<Rightarrow> int" where
  "GetHostsNumber cl = int (length (c_hosts cl))"

subsection \<open>The clusters of the process\<close>

record 'lb cluster =
  cl_name :: string
  cl_manager :: "'lb lb_manager"

definition newCluster :: "cluster_info \<Rightarrow> 'lb cluster" where
  "newCluster info = \<lparr>cl_name = ci_Name info, cl_manager = NewLbManager (ci_Name info) (ci_Endpoints info)\<rparr>"

definition NextServer ::
  "('lb \<Rightarrow> ctx \<Rightarrow> 's \<Rightarrow> host option run \<times> 's) \<Rightarrow> 'lb lb_factories \<Rightarrow> ctx \<Rightarrow> string \<Rightarrow> 'lb cluster \<Rightarrow> 's
     \<Rightarrow> (string + host) run \<times> 'lb cluster \<times> 's" where
  "NextServer pick factories ctx lbType c s =
     (case GetCluster factories ctx lbType (cl_manager c) of
        (Inl err, cm) \<Rightarrow> (Ret (Inl (''no cluster('' @ cl_name c @ '') for lbType, err: '' @ err)), c\<lparr>cl_manager := cm\<rparr>, s)
      | (Inr cl, cm) \<Rightarrow>
          (let (h, s') = ClusterChooseHost pick cl ctx s in
           (run_bind h (\<lambda>h. case h of
                None \<Rightarrow> Ret (Inl (''no host in cluster('' @ cl_name c @ '')''))
              | Some h \<Rightarrow> Ret (Inr h)),
            c\<lparr>cl_manager := cm\<rparr>, s')))"

definition cluster_updateServers :: "'lb lb_factories \<Rightarrow> cluster_info \<Rightarrow> 'lb cluster \<Rightarrow> 'lb cluster" where
  "cluster_updateServers factories info c =
     c\<lparr>cl_manager := UpdateCluster factories (ci_Endpoints info) (cl_manager c)\<rparr>"

text \<open>
  The provider answers a cluster's information or an error, and may call the notifier while a watch
  is being set up (\<open>watch name\<close> lists what it then announces).
\<close>

record provider =
  pr_info :: "string \<Rightarrow> string + cluster_info"
  pr_watch :: "string \<Rightarrow> cluster_info list"

record 'lb manager =
  m_clusters :: "string \<rightharpoonup> 'lb cluster"
  m_watched :: "string list"

definition NewClusterManager :: "'lb manager" where
  "NewClusterManager = \<lparr>m_clusters = Map.empty, m_watched = []\<rparr>"

definition updateServers :: "'lb lb_factories \<Rightarrow> cluster_info \<Rightarrow> 'lb manager \<Rightarrow> 'lb manager" where
  "updateServers factories info m =
     (case m_clusters m (ci_Name info) of
        Some cl \<Rightarrow> m\<lparr>m_clusters := (m_clusters m)(ci_Name info \<mapsto> cluster_updateServers factories info cl)\<rparr>
      | None \<Rightarrow> m)"

definition WatchCluster :: "'lb lb_factories \<Rightarrow> provider \<Rightarrow> string \<Rightarrow> 'lb manager \<Rightarrow> 'lb manager" where
  "WatchCluster factories p name m =
     foldl (\<lambda>m info. updateServers factories info m) (m\<lparr>m_watched := m_watched m @ [name]\<rparr>) (pr_watch p name)"

definition ManagerChooseHost ::
  "('lb \<Rightarrow> ctx \<Rightarrow> 's \<Rightarrow> host option run \<times> 's) \<Rightarrow> 'lb lb_factories \<Rightarrow> provider \<Rightarrow> ctx \<Rightarrow> string \<Rightarrow> string
     \<Rightarrow> 'lb manager \<Rightarrow> 's \<Rightarrow> (string + host) run \<times> 'lb manager \<times> 's" where
  "ManagerChooseHost pick factories p ctx clusterName lbType m s =
     (case m_clusters m clusterName of
        Some c \<Rightarrow>
          (let (r, c', s') = NextServer pick factories ctx lbType c s in
           (r, m\<lparr>m_clusters := (m_clusters m)(clusterName \<mapsto> c')\<rparr>, s'))
      | None \<Rightarrow>
          (case pr_info p clusterName of
             Inl err \<Rightarrow> (Ret (Inl (clusterName @ '': '' @ err)), m, s)
           | Inr info \<Rightarrow>
               if length (ci_Endpoints info) = 0 then (Ret (Inl (clusterName @ '': <nil>'')), m, s)
               else
                 (let cl = newCluster info;
                      m1 = WatchCluster factories p clusterName m;
                      (r, cl', s') = NextServer pick factories ctx lbType cl s
                  in (r, m1\<lparr>m_clusters := (m_clusters m1)(clusterName \<mapsto> cl')\<rparr>, s'))))"

subsection \<open>Setting the upstream\<close>

text \<open>
  The callbacks of the request: the headers, whether the route cache was refreshed, and the
  upstream override; \<open>set_upstream\<close> is what Envoy answers to the override.
\<close>

record callbacks =
  cb_headers :: "string \<rightharpoonup> string"
  cb_refreshed :: bool
  cb_override :: "string option"

definition ChooseServer ::
  "(ctx \<Rightarrow> string \<Rightarrow> string \<Rightarrow> 'g \<Rightarrow> (string + host) run \<times> 'g) \<Rightarrow> (string \<Rightarrow> string option) \<Rightarrow> ctx
     \<Rightarrow> string \<Rightarrow> string \<Rightarrow> callbacks \<Rightarrow> 'g \<Rightarrow> (string + host) run \<times> callbacks \<times> 'g" where
  "ChooseServer glb set_upstream ctx cluster lbType cb g =
     (let ctx = WithValue ctx (LBCtxKey KeyClusterName) (AString cluster) in
      case glb ctx cluster lbType g of
        (Panic, g') \<Rightarrow> (Panic, cb, g')
      | (Ret (Inl err), g') \<Rightarrow> (Ret (Inl err), cb, g')
      | (Ret (Inr h), g') \<Rightarrow>
          (let cb = cb\<lparr>cb_headers := (cb_headers cb)(''Cluster-Name'' \<mapsto> cluster), cb_refreshed := True\<rparr> in
           case set_upstream (Address h) of
             Some err \<Rightarrow> (Ret (Inl err), cb, g')
           | None \<Rightarrow> (Ret (Inr h), cb\<lparr>cb_override := Some (Address h)\<rparr>, g')))"

subsection \<open>The process in motion\<close>

text \<open>
  The managers reachable by choices of hosts and announcements of the provider; \<open>I\<close> collects the
  announcements.
\<close>

inductive manager_run ::
  "('lb \<Rightarrow> ctx \<Rightarrow> 's \<Rightarrow> host option run \<times> 's) \<Rightarrow> 'lb lb_factories \<Rightarrow> provider \<Rightarrow> cluster_info set
     \<Rightarrow> 'lb manager \<Rightarrow> bool" for pick fs p where
  fresh: "manager_run pick fs p {} NewClusterManager"
| chosen: "manager_run pick fs p I m \<Longrightarrow> ManagerChooseHost pick fs p ctx name ty m s = (r, m', s') \<Longrightarrow>
     manager_run pick fs p I m'"
| updated: "manager_run pick fs p I m \<Longrightarrow> manager_run pick fs p (insert info I) (updateServers fs info m)"

text \<open>The endpoint lists the provider has given for a cluster.\<close>

definition announced :: "provider \<Rightarrow> cluster_info set \<Rightarrow> string \<Rightarrow> endpoint list set" where
  "announced p I name =
     {ci_Endpoints i |i. pr_info p name = Inr i \<or> (ci_Name i = name \<and> (i \<in> I \<or> (\<exists>n. i \<in> set (pr_watch p n))))}"

definition host_lists :: "endpoint list set \<Rightarrow> host list set" where
  "host_lists E = createClusterHosts [] ` E"

lemma createClusterHosts_name: "createClusterHosts name eps = createClusterHosts [] eps"
  by (simp add: createClusterHosts_def BuildHost_def)

lemma announced_mono: "I \<subseteq> J \<Longrightarrow> announced p I name \<subseteq> announced p J name"
  by (auto simp: announced_def)

subsection \<open>The interface of a load balancer\<close>

text \<open>
  What the cluster manager relies on: a balancer built for a list of hosts answers only hosts of
  that list, and does not panic in an environment it can use (\<open>usable\<close>).
\<close>

locale load_balancer =
  fixes pick :: "'e \<Rightarrow> 'lb \<Rightarrow> ctx \<Rightarrow> 's \<Rightarrow> host option run \<times> 's"
    and build :: "ctx \<Rightarrow> host list \<Rightarrow> 'lb"
    and hosts_of :: "'lb \<Rightarrow> host list"
    and usable :: "'e \<Rightarrow> ctx \<Rightarrow> bool"
  assumes hosts_of_build: "hosts_of (build ctx hs) = hs"
    and pick_total: "usable e ctx \<Longrightarrow> fst (pick e lb ctx s) \<noteq> Panic"
    and pick_member: "usable e ctx \<Longrightarrow> fst (pick e lb ctx s) = Ret (Some h) \<Longrightarrow> h \<in> set (hosts_of lb)"
begin

text \<open>A registry all of whose factories build this kind of balancer.\<close>

definition registry :: "'lb lb_factories \<Rightarrow> bool" where
  "registry fs \<longleftrightarrow> (\<forall>t f. fs t = Some f \<longrightarrow> f = build)"

lemma CreateLbByType_build: "registry fs \<Longrightarrow> CreateLbByType fs t ctx hs = Some lb \<Longrightarrow> hosts_of lb = hs"
  unfolding registry_def CreateLbByType_def
  by (auto split: option.splits) (metis hosts_of_build)+

text \<open>Every balancer of a cluster serves the host list recorded for it, one of the lists \<open>L\<close>.\<close>

definition serves :: "host list set \<Rightarrow> 'lb lb_manager \<Rightarrow> bool" where
  "serves L cm \<longleftrightarrow> cm_hosts cm \<in> L \<and>
     (\<forall>t cl. cm_clusters cm t = Some cl \<longrightarrow> (\<exists>lb. c_lb cl = Some lb \<and> hosts_of lb = c_hosts cl) \<and> c_hosts cl \<in> L)"

definition creatable :: "'lb lb_factories \<Rightarrow> 'lb lb_manager \<Rightarrow> bool" where
  "creatable fs cm \<longleftrightarrow> (\<forall>t cl. cm_clusters cm t = Some cl \<longrightarrow> fs (c_lbType cl) \<noteq> None \<or> fs lb_RoundRobin \<noteq> None)"

lemma CreateLbByType_None: "CreateLbByType fs t ctx hs = None \<longleftrightarrow> fs t = None \<and> fs lb_RoundRobin = None"
  by (auto simp: CreateLbByType_def split: option.splits)

lemma serves_mono: "serves L cm \<Longrightarrow> L \<subseteq> L' \<Longrightarrow> serves L' cm"
  by (auto simp: serves_def)

lemma GetCluster_serves:
  assumes "registry fs" "serves L cm" "creatable fs cm" "GetCluster fs ctx t cm = (r, cm')"
  shows "serves L cm'" "creatable fs cm'"
    "r = Inr cl \<Longrightarrow> \<exists>lb. c_lb cl = Some lb \<and> hosts_of lb = c_hosts cl \<and> c_hosts cl \<in> L"
proof -
  have "serves L cm' \<and> creatable fs cm' \<and>
      (\<forall>cl. r = Inr cl \<longrightarrow> (\<exists>lb. c_lb cl = Some lb \<and> hosts_of lb = c_hosts cl \<and> c_hosts cl \<in> L))"
  proof (cases "cm_clusters cm t")
    case (Some cl0)
    then have "r = Inr cl0" "cm' = cm" using assms(4) by (simp_all add: GetCluster_def)
    then show ?thesis using assms(2,3) Some by (auto simp: serves_def)
  next
    case None
    note fresh = this
    show ?thesis
    proof (cases "CreateLbByType fs t ctx (cm_hosts cm)")
      case None
      then have "cm' = cm" "\<And>cl. r \<noteq> Inr cl" using assms(4) fresh by (auto simp: GetCluster_def)
      then show ?thesis using assms(2,3) by simp
    next
      case (Some lb)
      let ?cl = "\<lparr>c_lb = Some lb, c_hosts = cm_hosts cm, c_lbType = t, c_lbContext = ctx\<rparr>"
      have lb: "hosts_of lb = cm_hosts cm" by (rule CreateLbByType_build [OF assms(1) Some])
      have r: "r = Inr ?cl" "cm' = cm\<lparr>cm_clusters := (cm_clusters cm)(t \<mapsto> ?cl)\<rparr>"
        using assms(4) fresh Some by (simp_all add: GetCluster_def Let_def)
      have "fs t \<noteq> None \<or> fs lb_RoundRobin \<noteq> None"
        using Some CreateLbByType_None [of fs t ctx "cm_hosts cm"] by auto
      then have "creatable fs cm'" using assms(3) by (auto simp: creatable_def r)
      moreover have "serves L cm'" using assms(2) lb by (auto simp: serves_def r)
      moreover have "cm_hosts cm \<in> L" using assms(2) by (simp add: serves_def)
      ultimately show ?thesis using lb by (auto simp: r)
    qed
  qed
  then show "serves L cm'" "creatable fs cm'"
    "r = Inr cl \<Longrightarrow> \<exists>lb. c_lb cl = Some lb \<and> hosts_of lb = c_hosts cl \<and> c_hosts cl \<in> L"
    by blast+
qed

lemma UpdateCluster_serves:
  assumes "registry fs" "serves L cm" "creatable fs cm"
  shows "serves (insert (createClusterHosts (cm_name cm) eps) L) (UpdateCluster fs eps cm)"
    "creatable fs (UpdateCluster fs eps cm)"
proof -
  let ?hs = "createClusterHosts (cm_name cm) eps"
  have "\<exists>lb. CreateLbByType fs (c_lbType cl) (c_lbContext cl) ?hs = Some lb \<and> hosts_of lb = ?hs"
    if "cm_clusters cm t = Some cl" for t cl
  proof -
    have "CreateLbByType fs (c_lbType cl) (c_lbContext cl) ?hs \<noteq> None"
      using assms(3) that unfolding creatable_def CreateLbByType_None by blast
    then show ?thesis using CreateLbByType_build [OF assms(1)] by blast
  qed
  then show "serves (insert ?hs L) (UpdateCluster fs eps cm)"
    using assms(2) by (auto simp: serves_def UpdateCluster_def Let_def)
  show "creatable fs (UpdateCluster fs eps cm)"
    using assms(3) by (auto simp: creatable_def UpdateCluster_def Let_def)
qed

definition cluster_ok :: "'lb lb_factories \<Rightarrow> host list set \<Rightarrow> 'lb cluster \<Rightarrow> bool" where
  "cluster_ok fs L c \<longleftrightarrow> serves L (cl_manager c) \<and> creatable fs (cl_manager c)"

lemma NextServer_ok:
  assumes "registry fs" "cluster_ok fs L c" "NextServer pk fs ctx t c s = (r, c', s')"
  shows "cluster_ok fs L c'"
proof -
  obtain g cm where g: "GetCluster fs ctx t (cl_manager c) = (g, cm)" by (cases "GetCluster fs ctx t (cl_manager c)")
  have "cl_manager c' = cm"
    using assms(3) g by (auto simp: NextServer_def Let_def split: sum.splits prod.splits)
  moreover have "serves L cm" "creatable fs cm"
    using assms(2) by (auto simp: cluster_ok_def intro: GetCluster_serves(1,2) [OF assms(1) _ _ g])
  ultimately show ?thesis by (simp add: cluster_ok_def)
qed

lemma NextServer_member:
  assumes "registry fs" "cluster_ok fs L c" "usable e ctx"
    "NextServer (pick e) fs ctx t c s = (r, c', s')"
  shows "r \<noteq> Panic" "r = Ret (Inr h) \<Longrightarrow> \<exists>hs \<in> L. h \<in> set hs"
proof -
  obtain g cm where g: "GetCluster fs ctx t (cl_manager c) = (g, cm)" by (cases "GetCluster fs ctx t (cl_manager c)")
  have sv: "\<And>cl. g = Inr cl \<Longrightarrow> \<exists>lb. c_lb cl = Some lb \<and> hosts_of lb = c_hosts cl \<and> c_hosts cl \<in> L"
    using GetCluster_serves(3) [OF assms(1) _ _ g] assms(2) by (simp add: cluster_ok_def)
  show "r \<noteq> Panic" "r = Ret (Inr h) \<Longrightarrow> \<exists>hs \<in> L. h \<in> set hs"
  proof -
    show "r \<noteq> Panic"
    proof (cases g)
      case (Inr cl)
      obtain lb where lb: "c_lb cl = Some lb" using sv [OF Inr] by blast
      have "fst (pick e lb ctx s) \<noteq> Panic" by (rule pick_total [OF assms(3)])
      then show ?thesis
        using assms(4) g Inr lb
        by (cases "fst (pick e lb ctx s)")
          (auto simp: NextServer_def ClusterChooseHost_def Let_def split: prod.splits option.splits)
    qed (use assms(4) g in \<open>auto simp: NextServer_def\<close>)
    show "\<exists>hs \<in> L. h \<in> set hs" if r: "r = Ret (Inr h)"
    proof (cases g)
      case (Inr cl)
      obtain lb where lb: "c_lb cl = Some lb" "hosts_of lb = c_hosts cl" "c_hosts cl \<in> L"
        using sv [OF Inr] by blast
      have "fst (pick e lb ctx s) = Ret (Some h)"
        using assms(4) g Inr lb(1) r
        by (auto simp: NextServer_def ClusterChooseHost_def Let_def split: prod.splits option.splits)
      then have "h \<in> set (hosts_of lb)" by (rule pick_member [OF assms(3)])
      then show ?thesis using lb by auto
    qed (use assms(4) g r in \<open>auto simp: NextServer_def\<close>)
  qed
qed

definition manager_ok :: "'lb lb_factories \<Rightarrow> provider \<Rightarrow> cluster_info set \<Rightarrow> 'lb manager \<Rightarrow> bool" where
  "manager_ok fs p I m \<longleftrightarrow>
     (\<forall>name c. m_clusters m name = Some c \<longrightarrow> cluster_ok fs (host_lists (announced p I name)) c)"

lemma cluster_ok_mono: "cluster_ok fs L c \<Longrightarrow> L \<subseteq> L' \<Longrightarrow> cluster_ok fs L' c"
  using serves_mono by (auto simp: cluster_ok_def)

lemma updateServers_ok:
  assumes "registry fs" "manager_ok fs p I m" "ci_Endpoints info \<in> announced p J (ci_Name info)" "I \<subseteq> J"
  shows "manager_ok fs p J (updateServers fs info m)"
  unfolding manager_ok_def
proof (intro allI impI)
  fix name c assume c: "m_clusters (updateServers fs info m) name = Some c"
  have mono: "host_lists (announced p I name) \<subseteq> host_lists (announced p J name)"
    using announced_mono [OF assms(4)] by (auto simp: host_lists_def)
  show "cluster_ok fs (host_lists (announced p J name)) c"
  proof (cases "m_clusters m (ci_Name info) \<noteq> None \<and> name = ci_Name info")
    case True
    then obtain c0 where c0: "m_clusters m name = Some c0" "c = cluster_updateServers fs info c0"
      using c by (auto simp: updateServers_def)
    have "cluster_ok fs (host_lists (announced p J name)) c0"
      using assms(2) c0(1) cluster_ok_mono [OF _ mono] by (auto simp: manager_ok_def)
    moreover have "createClusterHosts (cm_name (cl_manager c0)) (ci_Endpoints info) \<in> host_lists (announced p J name)"
      using assms(3) True createClusterHosts_name by (auto simp: host_lists_def)
    moreover have "serves (host_lists (announced p J name)) (cl_manager c0)" "creatable fs (cl_manager c0)"
      using calculation(1) by (simp_all add: cluster_ok_def)
    note up = UpdateCluster_serves [OF assms(1) this, of "ci_Endpoints info"]
    ultimately have "cluster_ok fs (host_lists (announced p J name)) (cluster_updateServers fs info c0)"
      using up by (simp add: cluster_ok_def cluster_updateServers_def insert_absorb)
    then show ?thesis by (simp add: c0(2))
  next
    case False
    then have "m_clusters m name = Some c" using c by (auto simp: updateServers_def split: option.splits if_splits)
    then show ?thesis using assms(2) cluster_ok_mono [OF _ mono] by (auto simp: manager_ok_def)
  qed
qed

lemma WatchCluster_ok:
  assumes "registry fs" "manager_ok fs p I m"
  shows "manager_ok fs p I (WatchCluster fs p name m)"
proof -
  have start: "manager_ok fs p I (m\<lparr>m_watched := ws\<rparr>)" for ws using assms(2) by (simp add: manager_ok_def)
  show ?thesis
    unfolding WatchCluster_def
  proof (rule foldl_invariant)
    show "manager_ok fs p I (m\<lparr>m_watched := m_watched m @ [name]\<rparr>)" by (rule start)
  next
    fix m i assume m: "manager_ok fs p I m" and i: "i \<in> set (pr_watch p name)"
    have "ci_Endpoints i \<in> announced p I (ci_Name i)" using i by (auto simp: announced_def)
    then show "manager_ok fs p I (updateServers fs i m)" by (rule updateServers_ok [OF assms(1) m]) simp
  qed
qed

lemma newCluster_ok:
  assumes "pr_info p name = Inr info"
  shows "cluster_ok fs (host_lists (announced p I name)) (newCluster info)"
proof -
  have "ci_Endpoints info \<in> announced p I name" using assms by (auto simp: announced_def)
  then show ?thesis
    using createClusterHosts_name [of "ci_Name info" "ci_Endpoints info"]
    by (auto simp: cluster_ok_def serves_def creatable_def newCluster_def NewLbManager_def host_lists_def)
qed

lemma ManagerChooseHost_ok:
  assumes "registry fs" "manager_ok fs p I m" "ManagerChooseHost pk fs p ctx name ty m s = (r, m', s')"
  shows "manager_ok fs p I m'"
proof (cases "m_clusters m name")
  case (Some c)
  obtain r0 c' s0 where n: "NextServer pk fs ctx ty c s = (r0, c', s0)" by (metis prod.exhaust)
  then have m': "m' = m\<lparr>m_clusters := (m_clusters m)(name \<mapsto> c')\<rparr>"
    using assms(3) Some by (simp add: ManagerChooseHost_def)
  have "cluster_ok fs (host_lists (announced p I name)) c" using assms(2) Some by (simp add: manager_ok_def)
  then have "cluster_ok fs (host_lists (announced p I name)) c'" by (rule NextServer_ok [OF assms(1) _ n])
  then show ?thesis using assms(2) by (auto simp: manager_ok_def m')
next
  case None
  show ?thesis
  proof (cases "m' = m")
    case False
    then obtain info c' r0 s0 where info: "pr_info p name = Inr info"
        "m' = (WatchCluster fs p name m)\<lparr>m_clusters := (m_clusters (WatchCluster fs p name m))(name \<mapsto> c')\<rparr>"
        "NextServer pk fs ctx ty (newCluster info) s = (r0, c', s0)"
      using assms(3) None
      by (auto simp: ManagerChooseHost_def Let_def split: prod.splits sum.splits if_splits)
    have "cluster_ok fs (host_lists (announced p I name)) c'"
      by (rule NextServer_ok [OF assms(1) newCluster_ok [OF info(1)] info(3)])
    then show ?thesis
      using WatchCluster_ok [OF assms(1,2), of name] by (auto simp: manager_ok_def info(2))
  qed (use assms(2) in simp)
qed

lemma manager_run_ok: "manager_run pk fs p I m \<Longrightarrow> registry fs \<Longrightarrow> manager_ok fs p I m"
proof (induction rule: manager_run.induct)
  case fresh
  then show ?case by (simp add: manager_ok_def NewClusterManager_def)
next
  case (chosen I m ctx name ty s r m' s')
  show ?case by (rule ManagerChooseHost_ok [OF chosen.prems chosen.IH chosen.hyps(2)]) (rule chosen.prems)
next
  case (updated I m info)
  then show ?case
    by (intro updateServers_ok [where I = I]) (auto simp: announced_def)
qed

lemma ManagerChooseHost_member:
  assumes "registry fs" "manager_ok fs p I m" "usable e ctx"
    "ManagerChooseHost (pick e) fs p ctx name ty m s = (r, m', s')"
  shows "r \<noteq> Panic \<and> (\<forall>h. r = Ret (Inr h) \<longrightarrow> (\<exists>hs \<in> host_lists (announced p I name). h \<in> set hs))"
proof (cases "m_clusters m name")
  case (Some c)
  then obtain c' s'' where n: "NextServer (pick e) fs ctx ty c s = (r, c', s'')"
    using assms(4) by (auto simp: ManagerChooseHost_def Let_def split: prod.splits)
  have "cluster_ok fs (host_lists (announced p I name)) c" using assms(2) Some by (simp add: manager_ok_def)
  then show ?thesis using NextServer_member [OF assms(1) _ assms(3) n] by blast
next
  case None
  show ?thesis
  proof (cases "\<exists>err. r = Ret (Inl err)")
    case False
    then obtain info c' s'' where info: "pr_info p name = Inr info"
        "NextServer (pick e) fs ctx ty (newCluster info) s = (r, c', s'')"
      using assms(4) None
      by (auto simp: ManagerChooseHost_def Let_def split: prod.splits sum.splits if_splits)
    show ?thesis using NextServer_member [OF assms(1) newCluster_ok [OF info(1)] assms(3) info(2)] by blast
  qed auto
qed

end

subsection \<open>The inference load balancer behind the interface\<close>

type_synonym lb_env =
  "endpoint_stats_wrapper slice_sort \<times> (int \<Rightarrow> int) \<times> lb_globals \<times> lb_queries"

definition pick_inference ::
  "lb_env \<Rightarrow> inference_lb \<Rightarrow> ctx \<Rightarrow> plugin_state \<Rightarrow> host option run \<times> plugin_state" where
  "pick_inference e lb ctx ps =
     (case e of (sort_slice, intn, g, q) \<Rightarrow> ChooseHost sort_slice intn g q lb ctx ps)"

definition usable_inference :: "lb_env \<Rightarrow> ctx \<Rightarrow> bool" where
  "usable_inference e ctx \<longleftrightarrow>
     (case e of (sort_slice, intn, g, q) \<Rightarrow>
        slice_sorter sort_slice \<and> valid_random intn \<and> calm_queries q \<and>
        (\<exists>cl. ctx (LBCtxKey KeyClusterName) = Some (AString cl)))"

interpretation inference_balancer: load_balancer pick_inference InferenceLoadBalancerFactory lb_hosts usable_inference
proof
  show "lb_hosts (InferenceLoadBalancerFactory ctx hs) = hs" for ctx hs
    by (simp add: InferenceLoadBalancerFactory_def)
next
  fix e :: lb_env and ctx lb and s :: plugin_state and h
  assume us: "usable_inference e ctx"
  obtain srt intn g q where e: "e = (srt, intn, g, q)" by (metis prod.exhaust)
  obtain cl where cl: "ctx (LBCtxKey KeyClusterName) = Some (AString cl)"
    using us by (auto simp: usable_inference_def e)
  have "slice_sorter srt" "valid_random intn" "calm_queries q" using us by (simp_all add: usable_inference_def e)
  note total = ChooseHost_in [where ctx = ctx and cl = cl and g = g and lb = lb and ps = s, OF this cl]
  show "fst (pick_inference e lb ctx s) \<noteq> Panic" using total by (auto simp: pick_inference_def e)
  show "fst (pick_inference e lb ctx s) = Ret (Some h) \<Longrightarrow> h \<in> set (lb_hosts lb)"
    using total by (auto simp: pick_inference_def e eligible_def)
qed

text \<open>The registry as \<^verbatim>\<open>inference_lb.go\<close> fills it when it is loaded.\<close>

definition inference_factories :: "inference_lb lb_factories" where
  "inference_factories = RegisterLbType ''inference_lb'' InferenceLoadBalancerFactory Map.empty"

lemma inference_registry: "inference_balancer.registry inference_factories"
  by (simp add: inference_balancer.registry_def inference_factories_def RegisterLbType_def)

subsection \<open>Properties\<close>

lemma host_lists_endpoint:
  assumes "hs \<in> host_lists E" "h \<in> set hs"
  shows "\<exists>eps \<in> E. \<exists>ep \<in> set eps. h_ip h = ep_Address ep \<and> h_port h = ep_Port ep \<and> h_labels h = ep_Labels ep"
  using assms by (force simp: host_lists_def createClusterHosts_def SetLabels_def BuildHost_def)

lemma ManagerChooseHost_announced:
  assumes "manager_run (pick_inference e) inference_factories p I m"
    and "usable_inference e ctx"
    and "ManagerChooseHost (pick_inference e) inference_factories p ctx name ty m ps = (r, m', ps')"
  shows "r \<noteq> Panic \<and>
    (case r of
       Ret (Inr h) \<Rightarrow> (\<exists>eps \<in> announced p I name. \<exists>ep \<in> set eps.
          h_ip h = ep_Address ep \<and> h_port h = ep_Port ep \<and> h_labels h = ep_Labels ep)
     | _ \<Rightarrow> True)"
proof -
  note ok = inference_balancer.manager_run_ok [OF assms(1) inference_registry]
  note mem = inference_balancer.ManagerChooseHost_member [OF inference_registry ok assms(2,3)]
  then show ?thesis by (cases r) (auto split: sum.splits dest!: host_lists_endpoint)
qed

text \<open>
  A request is only ever sent to an endpoint the provider announced for its cluster.  In every
  state the process can reach by choosing hosts for any clusters and by announcements of the
  provider, choosing a host never panics, and a host that is answered has the address, the port
  and the labels of an endpoint in one of the lists given for that very cluster.
\<close>

theorem chosen_host_announced:
  assumes "manager_run (pick_inference e) inference_factories p I m"
    and "usable_inference e ctx"
    and "ManagerChooseHost (pick_inference e) inference_factories p ctx name ty m ps = (r, m', ps')"
  shows "r \<noteq> Panic \<and>
    (case r of
       Ret (Inr h) \<Rightarrow> (\<exists>eps \<in> announced p I name. \<exists>ep \<in> set eps.
          h_ip h = ep_Address ep \<and> h_port h = ep_Port ep \<and> h_labels h = ep_Labels ep)
     | _ \<Rightarrow> True)"
  using assms by (rule ManagerChooseHost_announced)

definition sample_endpoint :: "string \<Rightarrow> endpoint" where
  "sample_endpoint ip = \<lparr>ep_Address = ip, ep_Port = 80, ep_Labels = []\<rparr>"

definition sample_provider :: provider where
  "sample_provider =
     \<lparr>pr_info = (\<lambda>n. Inr \<lparr>ci_Name = n, ci_Endpoints = [sample_endpoint ''a'']\<rparr>), pr_watch = (\<lambda>n. [])\<rparr>"

definition sample_env :: lb_env where
  "sample_env = (insertion_sort, (\<lambda>_. 0), sample_globals, sample_queries)"

lemma sample_usable: "usable_inference sample_env sample_ctx"
  using insertion.slice_sorter_axioms sample_calm
  by (simp add: usable_inference_def sample_env_def valid_random_def sample_ctx_def)

theorem chosen_host_announced_witness:
  "case ManagerChooseHost (pick_inference sample_env) inference_factories sample_provider sample_ctx ''c''
       ''inference_lb'' NewClusterManager fresh_state of
     (Ret (Inr h), m', ps') \<Rightarrow> h_ip h = ''a''
   | (Ret (Inl err), m', ps') \<Rightarrow> True
   | (Panic, m', ps') \<Rightarrow> False"
proof -
  obtain r m' ps' where r: "ManagerChooseHost (pick_inference sample_env) inference_factories sample_provider
      sample_ctx ''c'' ''inference_lb'' NewClusterManager fresh_state = (r, m', ps')" by (metis prod.exhaust)
  have "r \<noteq> Panic \<and> (\<forall>h. r = Ret (Inr h) \<longrightarrow> h_ip h = ''a'')"
    using chosen_host_announced [OF manager_run.fresh sample_usable r]
    by (auto simp: announced_def sample_provider_def sample_endpoint_def split: run.splits sum.splits)
  then show ?thesis unfolding r by (auto split: run.splits sum.splits)
qed

text \<open>
  An announcement reaches every load balancer the cluster already has: after it, a host chosen
  by any of them is one of the endpoints just announced, even if the earlier list had others.
\<close>

theorem update_reaches_existing:
  assumes "cm_clusters cm ty = Some cl" and "c_lbType cl = ''inference_lb''"
    and "usable_inference e ctx"
    and "GetCluster inference_factories ctx' ty (UpdateCluster inference_factories eps cm) = (Inr cl', cm')"
    and "fst (ClusterChooseHost (pick_inference e) cl' ctx ps) = Ret (Some h)"
  shows "h \<in> set (createClusterHosts (cm_name cm) eps)"
proof -
  let ?hs = "createClusterHosts (cm_name cm) eps"
  have "CreateLbByType inference_factories (c_lbType cl) (c_lbContext cl) ?hs = Some \<lparr>lb_hosts = ?hs\<rparr>"
    using assms(2) by (simp add: CreateLbByType_def inference_factories_def RegisterLbType_def
        InferenceLoadBalancerFactory_def)
  then have "c_lb cl' = Some \<lparr>lb_hosts = ?hs\<rparr>"
    using assms(1,4) by (auto simp: GetCluster_def UpdateCluster_def Let_def)
  then have "fst (pick_inference e \<lparr>lb_hosts = ?hs\<rparr> ctx ps) = Ret (Some h)"
    using assms(5) by (simp add: ClusterChooseHost_def)
  from inference_balancer.pick_member [OF assms(3) this] show ?thesis by simp
qed

definition sample_cluster_lb :: "host list \<Rightarrow> inference_lb lb_cluster" where
  "sample_cluster_lb hs =
     \<lparr>c_lb = Some \<lparr>lb_hosts = hs\<rparr>, c_hosts = hs, c_lbType = ''inference_lb'', c_lbContext = sample_ctx\<rparr>"

definition sample_lb_manager :: "inference_lb lb_manager" where
  "sample_lb_manager =
     \<lparr>cm_name = ''c'', cm_clusters = [''inference_lb'' \<mapsto> sample_cluster_lb [sample_host ''old'']],
      cm_hosts = [sample_host ''old'']\<rparr>"

theorem update_reaches_existing_witness:
  "\<exists>cl' cm' h. GetCluster inference_factories sample_ctx ''inference_lb''
       (UpdateCluster inference_factories [sample_endpoint ''new''] sample_lb_manager) = (Inr cl', cm') \<and>
     fst (ClusterChooseHost (pick_inference sample_env) cl' sample_ctx fresh_state) = Ret (Some h) \<and>
     h \<in> set (createClusterHosts ''c'' [sample_endpoint ''new''])"
proof -
  let ?hs = "createClusterHosts ''c'' [sample_endpoint ''new'']"
  let ?cm = "UpdateCluster inference_factories [sample_endpoint ''new''] sample_lb_manager"
  have old: "cm_clusters sample_lb_manager ''inference_lb'' = Some (sample_cluster_lb [sample_host ''old''])"
      "c_lbType (sample_cluster_lb [sample_host ''old'']) = ''inference_lb''"
    by (simp_all add: sample_lb_manager_def sample_cluster_lb_def)
  have new: "GetCluster inference_factories sample_ctx ''inference_lb'' ?cm = (Inr (sample_cluster_lb ?hs), ?cm)"
    by (simp add: GetCluster_def UpdateCluster_def sample_lb_manager_def sample_cluster_lb_def Let_def
        CreateLbByType_def inference_factories_def RegisterLbType_def InferenceLoadBalancerFactory_def)
  have "fst (ClusterChooseHost (pick_inference sample_env) (sample_cluster_lb ?hs) sample_ctx fresh_state) =
      Ret (Some (hd ?hs))"
    by code_simp
  with update_reaches_existing [OF old sample_usable new this] new show ?thesis
    by (auto simp: sample_lb_manager_def)
qed

text \<open>
  An announcement does not reach a load balancer type used for the first time after it: the
  balancer then created serves the endpoints the cluster was created with, because the update
  leaves the manager's own host list as it was.
\<close>

theorem new_type_serves_stale_hosts:
  "\<exists>cl cm'. GetCluster inference_factories ctx ''inference_lb''
       (UpdateCluster inference_factories new_eps (NewLbManager name old_eps)) = (Inr cl, cm') \<and>
     c_hosts cl = createClusterHosts name old_eps \<and>
     c_lb cl = Some \<lparr>lb_hosts = createClusterHosts name old_eps\<rparr>"
  by (simp add: GetCluster_def UpdateCluster_def NewLbManager_def CreateLbByType_def
      inference_factories_def RegisterLbType_def InferenceLoadBalancerFactory_def Let_def)

end
