(* ===== verification/Discovery.thy ===== *)
theory Discovery
  imports ClusterManager
begin

text \<open>
  \<^verbatim>\<open>pkg/aigateway/discovery\<close>: the static provider of clusters, the cluster messages it
  announces to Envoy, and the classification of stream errors.

  The provider's map is a partial map filled in the order of the configuration; \<open>GetAllClusters\<close>
  ranges over it in an order Go leaves open, so the order of the names is an argument.  The
  protobuf messages of Envoy's API are records of the fields the code sets.
\<close>

subsection \<open>The provider\<close>

record static_endpoint =
  se_Address :: string
  se_Port :: "32 word"

record static_cluster =
  sc_Name :: string
  sc_Endpoints :: "static_endpoint list"

type_synonym static_provider = "string \<rightharpoonup> cluster_info"

definition static_info :: "static_cluster \<Rightarrow> cluster_info" where
  "static_info c =
     \<lparr>ci_Name = sc_Name c,
      ci_Endpoints = map (\<lambda>ep. \<lparr>ep_Address = se_Address ep, ep_Port = se_Port ep, ep_Labels = []\<rparr>)
        (sc_Endpoints c)\<rparr>"

definition NewStaticClusterProvider :: "static_cluster list \<Rightarrow> static_provider" where
  "NewStaticClusterProvider clusters =
     foldl (\<lambda>p c. p(sc_Name c \<mapsto> static_info c)) Map.empty clusters"

definition GetAllClusters :: "string list \<Rightarrow> static_provider \<Rightarrow> cluster_info list" where
  "GetAllClusters order p = List.map_filter p order"

definition getCluster :: "static_provider \<Rightarrow> string \<Rightarrow> cluster_info option" where
  "getCluster p name = p name"

definition GetClusterInfo :: "static_provider \<Rightarrow> string \<Rightarrow> string + cluster_info" where
  "GetClusterInfo p name =
     (case getCluster p name of Some c \<Rightarrow> Inr c | None \<Rightarrow> Inl ''cluster not found'')"

text \<open>A watch notifies at once and never again.\<close>

definition static_watch :: "static_provider \<Rightarrow> string \<Rightarrow> cluster_info list" where
  "static_watch p name = (case getCluster p name of Some c \<Rightarrow> [c] | None \<Rightarrow> [])"

definition provider_of :: "static_provider \<Rightarrow> provider" where
  "provider_of p = \<lparr>pr_info = GetClusterInfo p, pr_watch = static_watch p\<rparr>"

subsection \<open>Messages to Envoy\<close>

record lb_endpoint =
  le_Address :: string
  le_Port :: "32 word"
  le_Metadata :: "(string \<times> (string \<times> string) list) list"

record cds_cluster =
  cds_Name :: string
  cds_ConnectTimeout :: duration
  cds_Http2 :: bool
  cds_MaxConnections :: "32 word"
  cds_MaxRequests :: "32 word"
  cds_AssignmentName :: string
  cds_Endpoints :: "lb_endpoint list"
  cds_FallbackAnyEndpoint :: bool
  cds_SelectorKeys :: "string list list"

definition GenerateCluster :: "string \<Rightarrow> endpoint list \<Rightarrow> bool \<Rightarrow> cds_cluster" where
  "GenerateCluster name endpoints grpc =
     \<lparr>cds_Name = name, cds_ConnectTimeout = 2 * 10 ^ 9, cds_Http2 = grpc,
      cds_MaxConnections = 1024 * 1024, cds_MaxRequests = 1024 * 1024, cds_AssignmentName = name,
      cds_Endpoints = map (\<lambda>e. \<lparr>le_Address = ep_Address e, le_Port = ep_Port e,
          le_Metadata = [(''envoy.lb'', [(''address'', ep_Address e)])]\<rparr>) endpoints,
      cds_FallbackAnyEndpoint = True, cds_SelectorKeys = [[''address'']]\<rparr>"

record cds_resource =
  res_Name :: string
  res_Cluster :: cds_cluster

record delta_response =
  dr_TypeUrl :: string
  dr_Nonce :: string
  dr_Resources :: "cds_resource list"
  dr_Removed :: "string list"

definition MakeResource :: "string \<Rightarrow> cds_cluster \<Rightarrow> cds_resource" where
  "MakeResource clusterName cl = \<lparr>res_Name = clusterName, res_Cluster = cl\<rparr>"

definition GenerateDeltaDiscoveryResponseWithRemovedResources ::
  "string \<Rightarrow> string \<Rightarrow> cds_resource list \<Rightarrow> string list \<Rightarrow> delta_response" where
  "GenerateDeltaDiscoveryResponseWithRemovedResources typeURL nonce input removed =
     (let resp = \<lparr>dr_TypeUrl = typeURL, dr_Nonce = nonce, dr_Resources = [], dr_Removed = []\<rparr>;
          resp = (if length input > 0 then resp\<lparr>dr_Resources := input\<rparr> else resp)
      in if length removed > 0 then resp\<lparr>dr_Removed := removed\<rparr> else resp)"

definition GenerateDeltaDiscoveryResponse :: "string \<Rightarrow> string \<Rightarrow> cds_resource list \<Rightarrow> delta_response" where
  "GenerateDeltaDiscoveryResponse typeURL nonce input =
     \<lparr>dr_TypeUrl = typeURL, dr_Nonce = nonce, dr_Resources = input, dr_Removed = []\<rparr>"

text \<open>The response queued for a new stream: none without clusters.\<close>

definition processAllClusters :: "string \<Rightarrow> string \<Rightarrow> string list \<Rightarrow> static_provider \<Rightarrow> delta_response option" where
  "processAllClusters clusterType nonce order p =
     (let clusters = GetAllClusters order p in
      if length clusters = 0 then None
      else
        (let resources = map (\<lambda>c. MakeResource (ci_Name c) (GenerateCluster (ci_Name c) (ci_Endpoints c) False)) clusters
         in Some (GenerateDeltaDiscoveryResponseWithRemovedResources clusterType nonce resources [])))"

subsection \<open>Stream errors\<close>

text \<open>An error: its text, whether it is \<^verbatim>\<open>io.EOF\<close>, and its gRPC status if it has one.\<close>

datatype grpc_code = Canceled | DeadlineExceeded | Unavailable | OtherCode

record stream_error =
  err_eof :: bool
  err_text :: string
  err_status :: "(grpc_code \<times> string) option"

definition contains :: "string \<Rightarrow> string \<Rightarrow> bool" where
  "contains s p \<longleftrightarrow> str_index s p \<noteq> None"

definition expectedGrpcFailureMessages :: "string list" where
  "expectedGrpcFailureMessages =
     [''client disconnected'', ''error reading from server: EOF'', ''transport is closing'']"

definition containsExpectedMessage :: "string \<Rightarrow> bool" where
  "containsExpectedMessage msg \<longleftrightarrow> list_ex (contains msg) expectedGrpcFailureMessages"

definition IsExpectedGRPCError :: "stream_error \<Rightarrow> bool" where
  "IsExpectedGRPCError err \<longleftrightarrow>
     (if err_eof err then True
      else if (case err_status err of
                 Some (code, msg) \<Rightarrow> code = Canceled \<or> code = DeadlineExceeded \<or>
                   (code = Unavailable \<and> containsExpectedMessage msg)
               | None \<Rightarrow> False) then True
      else contains (err_text err) ''stream terminated by RST_STREAM with error code: NO_ERROR'')"

subsection \<open>Properties\<close>

lemma NewStaticClusterProvider_last:
  "NewStaticClusterProvider cs name =
     map_option static_info (find (\<lambda>c. sc_Name c = name) (rev cs))"
proof -
  have "foldl (\<lambda>p c. p(sc_Name c \<mapsto> static_info c)) p cs name =
      (case find (\<lambda>c. sc_Name c = name) (rev cs) of Some c \<Rightarrow> Some (static_info c) | None \<Rightarrow> p name)" for p
    by (induction cs arbitrary: p rule: rev_induct) auto
  then show ?thesis by (simp add: NewStaticClusterProvider_def split: option.splits)
qed

lemma provider_name: "NewStaticClusterProvider cs name = Some i \<Longrightarrow> ci_Name i = name"
  by (auto simp: NewStaticClusterProvider_last static_info_def find_Some_iff)

text \<open>
  C40. What the gateway chooses, Envoy knows: with the static provider, in every state the process can
  reach, a host chosen for a cluster is an endpoint of the cluster resource of that name in the
  message sent to every new stream, in whatever order the clusters are listed.  So the upstream
  override the gateway sets always names a member of the cluster Envoy routes to.
\<close>

theorem chosen_host_known_to_envoy:
  assumes "manager_run (pick_inference e) inference_factories (provider_of (NewStaticClusterProvider cs)) {} m"
    and "usable_inference e ctx"
    and "ManagerChooseHost (pick_inference e) inference_factories (provider_of (NewStaticClusterProvider cs))
      ctx name ty m ps = (Ret (Inr h), m', ps')"
    and "set order = dom (NewStaticClusterProvider cs)"
  shows "\<exists>resp. processAllClusters clusterType nonce order (NewStaticClusterProvider cs) = Some resp \<and>
    (\<exists>r \<in> set (dr_Resources resp). res_Name r = name \<and>
      (\<exists>le \<in> set (cds_Endpoints (res_Cluster r)). le_Address le = h_ip h \<and> le_Port le = h_port h))"
proof -
  let ?p = "NewStaticClusterProvider cs"
  note ok = inference_balancer.manager_run_ok [OF assms(1) inference_registry]
  obtain eps where eps: "eps \<in> announced (provider_of ?p) {} name" "h \<in> set (createClusterHosts [] eps)"
    using inference_balancer.ManagerChooseHost_member [OF inference_registry ok assms(2,3)]
    unfolding host_lists_def by blast
  obtain i where i: "?p name = Some i" "ci_Endpoints i = eps"
    using eps(1) provider_name [of cs]
    by (auto simp: announced_def provider_of_def GetClusterInfo_def static_watch_def getCluster_def
        split: option.splits)
  have mem: "i \<in> set (GetAllClusters order ?p)"
    using i(1) assms(4)
    by (auto simp: GetAllClusters_def List.map_filter_def intro!: image_eqI [of _ _ name])
  then have "length (GetAllClusters order ?p) \<noteq> 0" by auto
  moreover obtain ep where ep: "ep \<in> set eps" "ep_Address ep = h_ip h" "ep_Port ep = h_port h"
    using eps(2) by (auto simp: createClusterHosts_def SetLabels_def BuildHost_def)
  let ?r = "MakeResource (ci_Name i) (GenerateCluster (ci_Name i) (ci_Endpoints i) False)"
  let ?le = "\<lparr>le_Address = ep_Address ep, le_Port = ep_Port ep,
      le_Metadata = [(''envoy.lb'', [(''address'', ep_Address ep)])]\<rparr>"
  have "res_Name ?r = name" "?le \<in> set (cds_Endpoints (res_Cluster ?r))"
    using provider_name [OF i(1)] ep(1) i(2) by (simp_all add: MakeResource_def GenerateCluster_def)
  ultimately show ?thesis
    using mem ep(2,3)
    by (auto simp: processAllClusters_def GenerateDeltaDiscoveryResponseWithRemovedResources_def Let_def
        intro!: bexI [of _ i] bexI [of _ ?le])
qed

definition sample_static :: "static_cluster list" where
  "sample_static = [\<lparr>sc_Name = ''c'', sc_Endpoints = [\<lparr>se_Address = ''10.0.0.1'', se_Port = 80\<rparr>]\<rparr>]"

definition sample_upstream :: host where
  "sample_upstream = \<lparr>h_ip = ''10.0.0.1'', h_port = 80, h_weight = 0, h_labels = []\<rparr>"

theorem chosen_host_known_to_envoy_witness:
  "\<exists>m' ps' resp. ManagerChooseHost (pick_inference sample_env) inference_factories
       (provider_of (NewStaticClusterProvider sample_static)) sample_ctx ''c'' ''inference_lb''
       NewClusterManager fresh_state = (Ret (Inr sample_upstream), m', ps') \<and>
     processAllClusters [] [] [''c''] (NewStaticClusterProvider sample_static) = Some resp \<and>
     (\<exists>r \<in> set (dr_Resources resp). res_Name r = ''c'')"
proof -
  obtain r m' ps' where c: "ManagerChooseHost (pick_inference sample_env) inference_factories
       (provider_of (NewStaticClusterProvider sample_static)) sample_ctx ''c'' ''inference_lb''
       NewClusterManager fresh_state = (r, m', ps')" by (metis prod.exhaust)
  have "fst (ManagerChooseHost (pick_inference sample_env) inference_factories
       (provider_of (NewStaticClusterProvider sample_static)) sample_ctx ''c'' ''inference_lb''
       NewClusterManager fresh_state) = Ret (Inr sample_upstream)"
    by code_simp
  then have r: "r = Ret (Inr sample_upstream)" by (simp add: c)
  have "set [''c''] = dom (NewStaticClusterProvider sample_static)"
    by (auto simp: NewStaticClusterProvider_def sample_static_def)
  from chosen_host_known_to_envoy [OF manager_run.fresh sample_usable c [unfolded r] this, of "[]" "[]"]
  show ?thesis using c r by blast
qed

end
