(* ===== verification/ConfigValidator.thy ===== *)
theory ConfigValidator
  imports InferenceLb
begin

text \<open>
  \<^verbatim>\<open>plugins/llmproxy/config/config.pb.validate.go\<close> and
  \<^verbatim>\<open>plugins/api/v1/header.pb.validate.go\<close>: the constraints a plugin configuration must meet
  before it is parsed.  The framework calls \<open>Validate\<close>, which answers the first violation;
  \<open>ValidateAll\<close> collects them all.

  Each message has a type of errors with the same five fields; \<open>VError\<close> carries the name of the
  message instead, and no \<open>key\<close>, which no validator sets.  \<open>VMulti\<close> is the message's list
  of errors.  A nil message is valid; a map entry without a value is nil.
\<close>

subsection \<open>Runes\<close>

text \<open>
  \<^verbatim>\<open>utf8.RuneCountInString\<close>: a byte that starts no well-formed sequence counts as one rune.
  \<open>rune_start\<close> gives the length of the sequence and the range of its second byte.
\<close>

definition rune_start :: "nat \<Rightarrow> (nat \<times> nat \<times> nat) option" where
  "rune_start b =
     (if 0xC2 \<le> b \<and> b \<le> 0xDF then Some (2, 0x80, 0xBF)
      else if b = 0xE0 then Some (3, 0xA0, 0xBF)
      else if b = 0xED then Some (3, 0x80, 0x9F)
      else if 0xE1 \<le> b \<and> b \<le> 0xEF then Some (3, 0x80, 0xBF)
      else if b = 0xF0 then Some (4, 0x90, 0xBF)
      else if 0xF1 \<le> b \<and> b \<le> 0xF3 then Some (4, 0x80, 0xBF)
      else if b = 0xF4 then Some (4, 0x80, 0x8F)
      else None)"

definition rune_len :: "nat list \<Rightarrow> nat" where
  "rune_len bs =
     (case rune_start (hd bs) of
        None \<Rightarrow> 1
      | Some (n, lo, hi) \<Rightarrow>
          (if n \<le> length bs \<and> lo \<le> bs ! 1 \<and> bs ! 1 \<le> hi \<and>
              list_all (\<lambda>c. 0x80 \<le> c \<and> c \<le> 0xBF) (take (n - 2) (drop 2 bs))
           then n else 1))"

lemma rune_len_pos: "1 \<le> rune_len bs"
  by (auto simp: rune_len_def rune_start_def split: option.split)

function runes :: "nat list \<Rightarrow> nat" where
  "runes bs = (if bs = [] then 0 else 1 + runes (drop (rune_len bs) bs))"
  by pat_completeness auto
termination
proof (relation "measure length")
  show "bs \<noteq> [] \<Longrightarrow> (drop (rune_len bs) bs, bs) \<in> measure length" for bs
    using rune_len_pos [of bs] by (cases bs) auto
qed simp

declare runes.simps [simp del]

definition RuneCountInString :: "string \<Rightarrow> nat" where
  "RuneCountInString s = runes (map of_char s)"

lemma runes_Nil [simp]: "runes [] = 0"
  by (subst runes.simps) simp

lemma runes_bound: "runes bs \<le> length bs"
proof (induction bs rule: runes.induct)
  case (1 bs)
  show ?case
  proof (cases bs)
    case (Cons b cs)
    with 1 have "runes (drop (rune_len bs) bs) \<le> length bs - rune_len bs" by simp
    with Cons rune_len_pos [of bs] show ?thesis by (subst runes.simps) simp
  qed simp
qed

lemma RuneCount_bound: "RuneCountInString s \<le> length s"
  using runes_bound [of "map of_char s"] by (simp add: RuneCountInString_def)

lemma RuneCount_zero [simp]: "RuneCountInString s = 0 \<longleftrightarrow> s = []"
  by (cases s) (simp_all add: RuneCountInString_def runes.simps [of "_ # _"])

subsection \<open>Errors\<close>

datatype validation_error =
    VError string string string "validation_error option"
  | VMulti string "validation_error list"

fun join :: "string \<Rightarrow> string list \<Rightarrow> string" where
  "join sep [] = []"
| "join sep [s] = s"
| "join sep (s # t # ss) = s @ sep @ join sep (t # ss)"

fun validation_text :: "validation_error \<Rightarrow> string" where
  "validation_text (VError name field reason cause) =
     ''invalid '' @ name @ ''.'' @ field @ '': '' @ reason @
       (case cause of None \<Rightarrow> [] | Some c \<Rightarrow> '' | caused by: '' @ validation_text c)"
| "validation_text (VMulti name es) = join ''; '' (map validation_text es)"

text \<open>
  The shape of every check: it returns at once, or it adds its error to those collected in
  \<open>errors\<close> and goes on.
\<close>

definition report :: "bool \<Rightarrow> bool \<Rightarrow> validation_error \<Rightarrow> validation_error list \<Rightarrow> validation_error + validation_error list" where
  "report full bad err errors =
     (if bad then (if \<not> full then Inl err else Inr (errors @ [err])) else Inr errors)"

definition and_then ::
  "validation_error + validation_error list \<Rightarrow> (validation_error list \<Rightarrow> validation_error + validation_error list)
     \<Rightarrow> validation_error + validation_error list" where
  "and_then r k = (case r of Inl e \<Rightarrow> Inl e | Inr errors \<Rightarrow> k errors)"

definition embedded ::
  "bool \<Rightarrow> string \<Rightarrow> string \<Rightarrow> validation_error option \<Rightarrow> validation_error list \<Rightarrow> validation_error + validation_error list" where
  "embedded full name field result errors =
     (case result of
        None \<Rightarrow> Inr errors
      | Some err \<Rightarrow> report full True (VError name field ''embedded message failed validation'' (Some err)) errors)"

definition indexed :: "string \<Rightarrow> string \<Rightarrow> string" where
  "indexed field i = field @ ''['' @ i @ '']''"

fun embedded_items ::
  "bool \<Rightarrow> string \<Rightarrow> string \<Rightarrow> ('a \<Rightarrow> validation_error option) \<Rightarrow> int \<Rightarrow> 'a list \<Rightarrow> validation_error list
     \<Rightarrow> validation_error + validation_error list" where
  "embedded_items full name field v idx [] errors = Inr errors"
| "embedded_items full name field v idx (item # items) errors =
     and_then (embedded full name (indexed field (itoa idx)) (v item) errors)
       (embedded_items full name field v (idx + 1) items)"

fun embedded_keys ::
  "bool \<Rightarrow> string \<Rightarrow> string \<Rightarrow> ('a \<Rightarrow> validation_error option) \<Rightarrow> 'a go_map \<Rightarrow> string list \<Rightarrow> validation_error list
     \<Rightarrow> validation_error + validation_error list" where
  "embedded_keys full name field v m [] errors = Inr errors"
| "embedded_keys full name field v m (key # ks) errors =
     and_then (embedded full name (indexed field key) (Option.bind (map_of m key) v) errors)
       (embedded_keys full name field v m ks)"

definition finish :: "string \<Rightarrow> validation_error + validation_error list \<Rightarrow> validation_error option" where
  "finish name r = (case r of Inl err \<Rightarrow> Some err | Inr errors \<Rightarrow> (if length errors > 0 then Some (VMulti name errors) else None))"

subsection \<open>The validators\<close>

text \<open>The pattern \<^verbatim>\<open>^[^\x00\n\r]*$\<close>.\<close>

definition header_pattern :: "string \<Rightarrow> bool" where
  "header_pattern s \<longleftrightarrow> list_all (\<lambda>c. byte_of c \<noteq> 0 \<and> byte_of c \<noteq> 10 \<and> byte_of c \<noteq> 13) s"

definition pattern_reason :: string where
  "pattern_reason = ''value does not match regex pattern '' @ [CHR 0x22] @ ''^[^'' @ [CHR 0x5C] @ ''x00'' @
     [CHR 0x5C] @ ''n'' @ [CHR 0x5C] @ ''r]*$'' @ [CHR 0x22]"

definition validate_header :: "bool \<Rightarrow> header_value \<Rightarrow> validation_error option" where
  "validate_header full m =
     (let e = (\<lambda>field reason. VError ''HeaderValue'' field reason None) in
      finish ''HeaderValue''
        (and_then (report full (RuneCountInString (hv_Key m) < 1)
             (e ''Key'' ''value length must be at least 1 runes'') []) (\<lambda>errors.
         and_then (report full (length (hv_Key m) > 16384)
             (e ''Key'' ''value length must be at most 16384 bytes'') errors) (\<lambda>errors.
         and_then (report full (\<not> header_pattern (hv_Key m)) (e ''Key'' pattern_reason) errors) (\<lambda>errors.
         and_then (report full (length (hv_Value m) > 16384)
             (e ''Value'' ''value length must be at most 16384 bytes'') errors) (\<lambda>errors.
         report full (\<not> header_pattern (hv_Value m)) (e ''Value'' pattern_reason) errors))))))"

text \<open>No field of a subset or of the log configuration has a rule.\<close>

definition validate_subset :: "bool \<Rightarrow> subset \<Rightarrow> validation_error option" where
  "validate_subset full m = finish ''Subset'' (Inr [])"

definition validate_log :: "bool \<Rightarrow> log_config \<Rightarrow> validation_error option" where
  "validate_log full m = finish ''LogConfig'' (Inr [])"

definition validate_rule :: "bool \<Rightarrow> rule \<Rightarrow> validation_error option" where
  "validate_rule full m =
     (let e = (\<lambda>field reason. VError ''Rule'' field reason None) in
      finish ''Rule''
        (and_then (report full (RuneCountInString (r_SceneName m) > 128)
             (e ''SceneName'' ''value length must be at most 128 runes'') []) (\<lambda>errors.
         and_then (report full (RuneCountInString (r_ChainName m) > 128)
             (e ''ChainName'' ''value length must be at most 128 runes'') errors) (\<lambda>errors.
         and_then (let l = RuneCountInString (r_Backend m) in report full (l < 1 \<or> l > 256)
             (e ''Backend'' ''value length must be between 1 and 256 runes, inclusive'') errors) (\<lambda>errors.
         and_then (report full (RuneCountInString (r_RouteName m) > 512)
             (e ''RouteName'' ''value length must be at most 512 runes'') errors) (\<lambda>errors.
         and_then (embedded_items full ''Rule'' ''Headers'' (validate_header full) 0 (r_Headers m) errors) (\<lambda>errors.
         and_then (embedded_items full ''Rule'' ''Subset'' (validate_subset full) 0 (r_Subset m) errors) (\<lambda>errors.
         let l = RuneCountInString (r_Cluster m) in report full (l < 1 \<or> l > 256)
             (e ''Cluster'' ''value length must be between 1 and 256 runes, inclusive'') errors))))))))"

definition validate_rules :: "bool \<Rightarrow> rule list \<Rightarrow> validation_error option" where
  "validate_rules full m =
     finish ''Rules''
       (and_then (report full (length m < 1)
            (VError ''Rules'' ''Rules'' ''value must contain at least 1 item(s)'' None) [])
          (embedded_items full ''Rules'' ''Rules'' (validate_rule full) 0 m))"

definition validate_lb_config :: "bool \<Rightarrow> lb_config \<Rightarrow> validation_error option" where
  "validate_lb_config full m =
     finish ''LBConfig''
       (let val = CandidatePercent m in
        report full (val < 0 \<or> val > 100)
          (VError ''LBConfig'' ''CandidatePercent'' ''value must be inside range [0, 100]'' None) [])"

definition validate_config :: "string slice_sort \<Rightarrow> bool \<Rightarrow> plugin_config \<Rightarrow> validation_error option" where
  "validate_config sort_slice full m =
     (let e = (\<lambda>field reason. VError ''Config'' field reason None);
          sorted_keys = (\<lambda>keys. sort_slice (\<lambda>x y. x < y) keys) in
      finish ''Config''
        (and_then (report full (RuneCountInString (Protocol m) < 1)
             (e ''Protocol'' ''value length must be at least 1 runes'') []) (\<lambda>errors.
         and_then (report full (RuneCountInString (Algorithm m) < 1)
             (e ''Algorithm'' ''value length must be at least 1 runes'') errors) (\<lambda>errors.
         and_then (embedded_keys full ''Config'' ''ModelMappingRule'' (validate_rules full) (ModelMappingRule m)
             (sorted_keys (map fst (ModelMappingRule m))) errors) (\<lambda>errors.
         and_then (embedded full ''Config'' ''Log'' (Option.bind (LogConf m) (validate_log full)) errors) (\<lambda>errors.
         embedded_keys full ''Config'' ''LbMappingRule'' (validate_lb_config full) (LbMappingRule m)
             (sorted_keys (map fst (LbMappingRule m))) errors))))))"

definition Validate :: "string slice_sort \<Rightarrow> plugin_config \<Rightarrow> validation_error option" where
  "Validate sort_slice m = validate_config sort_slice False m"

definition ValidateAll :: "string slice_sort \<Rightarrow> plugin_config \<Rightarrow> validation_error option" where
  "ValidateAll sort_slice m = validate_config sort_slice True m"

subsection \<open>The first of all violations\<close>

text \<open>What fail-fast validation would have answered, read off the complete list.\<close>

fun headline :: "validation_error \<Rightarrow> validation_error" where
  "headline (VError name field reason cause) = VError name field reason (map_option headline cause)"
| "headline (VMulti name (err # es)) = headline err"
| "headline (VMulti name []) = VMulti name []"

text \<open>
  A run of checks that returns at once agrees with one that collects: the errors collected so far are
  untouched, and the first one that the collecting run adds is the one the other returns.
\<close>

definition agrees ::
  "(validation_error list \<Rightarrow> validation_error + validation_error list)
     \<Rightarrow> (validation_error list \<Rightarrow> validation_error + validation_error list) \<Rightarrow> bool" where
  "agrees fast full \<longleftrightarrow>
     (\<exists>new. (\<forall>es. full es = Inr (es @ new)) \<and>
        (\<forall>es. fast es = (case new of [] \<Rightarrow> Inr es | err # _ \<Rightarrow> Inl (headline err))))"

lemma agrees_then: "agrees f f' \<Longrightarrow> agrees g g' \<Longrightarrow> agrees (\<lambda>es. and_then (f es) g) (\<lambda>es. and_then (f' es) g')"
  unfolding agrees_def
  by (elim exE conjE, rule_tac x = "new @ newa" in exI) (auto simp: and_then_def split: list.split)

lemma agrees_report: "headline err = err \<Longrightarrow> agrees (report False bad err) (report True bad err)"
  unfolding agrees_def by (rule exI [of _ "if bad then [err] else []"]) (simp add: report_def)

lemma agrees_skip: "agrees Inr Inr"
  unfolding agrees_def by (rule exI [of _ "[]"]) simp

lemma agrees_embedded:
  "fast = map_option headline full \<Longrightarrow> agrees (embedded False name field fast) (embedded True name field full)"
  unfolding agrees_def
  by (rule exI [of _ "case full of None \<Rightarrow> [] | Some c \<Rightarrow> [VError name field ''embedded message failed validation'' (Some c)]"])
    (auto simp: embedded_def report_def split: option.splits)

lemma agrees_items:
  assumes "\<And>x. v x = map_option headline (v' x)"
  shows "agrees (embedded_items False name field v i xs) (embedded_items True name field v' i xs)"
proof (induction xs arbitrary: i)
  case Nil
  show ?case using agrees_skip by (simp add: agrees_def)
next
  case (Cons x xs)
  have "agrees (embedded False name (indexed field (itoa i)) (v x)) (embedded True name (indexed field (itoa i)) (v' x))"
    by (rule agrees_embedded [OF assms])
  from agrees_then [OF this Cons.IH [of "i + 1"]] show ?case by (simp add: agrees_def)
qed

lemma agrees_keys:
  assumes "\<And>x. v x = map_option headline (v' x)"
  shows "agrees (embedded_keys False name field v m ks) (embedded_keys True name field v' m ks)"
proof (induction ks)
  case Nil
  show ?case using agrees_skip by (simp add: agrees_def)
next
  case (Cons k ks)
  have "Option.bind (map_of m k) v = map_option headline (Option.bind (map_of m k) v')"
    by (cases "map_of m k") (simp_all add: assms)
  from agrees_then [OF agrees_embedded [OF this] Cons.IH] show ?case by (simp add: agrees_def)
qed

lemma agrees_finish:
  assumes "agrees fast full"
  shows "finish name (fast []) = map_option headline (finish name (full []))"
proof -
  from assms obtain new where "\<And>es. full es = Inr (es @ new)"
    "\<And>es. fast es = (case new of [] \<Rightarrow> Inr es | err # _ \<Rightarrow> Inl (headline err))"
    unfolding agrees_def by blast
  then show ?thesis by (cases new) (simp_all add: finish_def)
qed

lemma agrees_finish_report:
  assumes "headline err = err" "agrees g g'"
  shows "finish name (and_then (report False bad err []) g) =
    map_option headline (finish name (and_then (report True bad err []) g'))"
  using agrees_finish [OF agrees_then [OF agrees_report [OF assms(1)] assms(2)]] .

lemmas agrees_rules = agrees_finish_report agrees_then agrees_report agrees_items agrees_keys agrees_embedded

lemma validate_header_fast: "validate_header False m = map_option headline (validate_header True m)"
  unfolding validate_header_def Let_def by (intro agrees_rules) simp_all

lemma validate_subset_fast: "validate_subset False m = map_option headline (validate_subset True m)"
  by (simp add: validate_subset_def finish_def)

lemma validate_log_fast: "validate_log False m = map_option headline (validate_log True m)"
  by (simp add: validate_log_def finish_def)

lemma validate_rule_fast: "validate_rule False m = map_option headline (validate_rule True m)"
  unfolding validate_rule_def Let_def
  by (intro agrees_rules validate_header_fast validate_subset_fast) simp_all

lemma validate_rules_fast: "validate_rules False m = map_option headline (validate_rules True m)"
  unfolding validate_rules_def by (intro agrees_rules validate_rule_fast) simp_all

lemma validate_lb_config_fast: "validate_lb_config False m = map_option headline (validate_lb_config True m)"
  by (simp add: validate_lb_config_def report_def finish_def Let_def)

lemma bind_fast: "(\<And>x. v x = map_option headline (v' x)) \<Longrightarrow> Option.bind opt v = map_option headline (Option.bind opt v')"
  by (cases opt) simp_all

text \<open>
  C33. Fail-fast validation answers the first of all violations: for every configuration \<open>Validate\<close>
  accepts exactly what \<open>ValidateAll\<close> accepts, and otherwise its error is the one at the head of
  the list \<open>ValidateAll\<close> collects, down through the embedded messages.
\<close>

theorem validate_reports_first:
  "Validate sort_slice c = map_option headline (ValidateAll sort_slice c)"
  unfolding Validate_def ValidateAll_def validate_config_def Let_def
  by (intro agrees_rules validate_rules_fast validate_lb_config_fast bind_fast validate_log_fast) simp_all

subsection \<open>What is accepted\<close>

definition valid_header :: "header_value \<Rightarrow> bool" where
  "valid_header m \<longleftrightarrow> hv_Key m \<noteq> [] \<and> length (hv_Key m) \<le> 16384 \<and> header_pattern (hv_Key m) \<and>
     length (hv_Value m) \<le> 16384 \<and> header_pattern (hv_Value m)"

definition valid_rule :: "rule \<Rightarrow> bool" where
  "valid_rule m \<longleftrightarrow> RuneCountInString (r_SceneName m) \<le> 128 \<and> RuneCountInString (r_ChainName m) \<le> 128 \<and>
     r_Backend m \<noteq> [] \<and> RuneCountInString (r_Backend m) \<le> 256 \<and> RuneCountInString (r_RouteName m) \<le> 512 \<and>
     list_all valid_header (r_Headers m) \<and> r_Cluster m \<noteq> [] \<and> RuneCountInString (r_Cluster m) \<le> 256"

definition valid_config :: "plugin_config \<Rightarrow> bool" where
  "valid_config m \<longleftrightarrow> Protocol m \<noteq> [] \<and> Algorithm m \<noteq> [] \<and>
     (\<forall>(k, rules) \<in> set (ModelMappingRule m). rules \<noteq> [] \<and> list_all valid_rule rules) \<and>
     (\<forall>(k, lb) \<in> set (LbMappingRule m). 0 \<le> CandidatePercent lb \<and> CandidatePercent lb \<le> 100)"

text \<open>A validator accepts when no check has added an error.\<close>

lemma clean_report [simp]: "report full bad err errors = Inr [] \<longleftrightarrow> errors = [] \<and> \<not> bad"
  by (auto simp: report_def)

lemma clean_then: "and_then r k = Inr [] \<longleftrightarrow> (\<exists>errors. r = Inr errors \<and> k errors = Inr [])"
  by (auto simp: and_then_def split: sum.split)

lemma clean_embedded [simp]: "embedded full name field result errors = Inr [] \<longleftrightarrow> errors = [] \<and> result = None"
  by (auto simp: embedded_def split: option.split)

lemma clean_items [simp]:
  "embedded_items full name field v i xs errors = Inr [] \<longleftrightarrow> errors = [] \<and> list_all (\<lambda>x. v x = None) xs"
  by (induction xs arbitrary: i errors) (auto simp: clean_then)

lemma clean_keys [simp]:
  "embedded_keys full name field v m ks errors = Inr [] \<longleftrightarrow>
     errors = [] \<and> (\<forall>k \<in> set ks. Option.bind (map_of m k) v = None)"
  by (induction ks arbitrary: errors) (auto simp: clean_then)

lemma finish_None [simp]: "finish name r = None \<longleftrightarrow> r = Inr []"
  by (auto simp: finish_def split: sum.split)

lemma validate_header_ok: "validate_header full m = None \<longleftrightarrow> valid_header m"
  by (auto simp: validate_header_def Let_def clean_then valid_header_def)

lemma validate_rule_ok: "validate_rule full m = None \<longleftrightarrow> valid_rule m"
  by (auto simp: validate_rule_def Let_def clean_then valid_rule_def validate_header_ok validate_subset_def
      list_all_iff not_less Suc_le_eq)

lemma validate_rules_ok: "validate_rules full m = None \<longleftrightarrow> m \<noteq> [] \<and> list_all valid_rule m"
  by (auto simp: validate_rules_def clean_then validate_rule_ok)

lemma validate_lb_config_ok: "validate_lb_config full m = None \<longleftrightarrow> 0 \<le> CandidatePercent m \<and> CandidatePercent m \<le> 100"
  by (auto simp: validate_lb_config_def Let_def)

lemma keys_ok:
  assumes "slice_sorter srt" "distinct (map fst m)"
  shows "(\<forall>k \<in> set (srt lt (map fst m)). Option.bind (map_of m k) v = None) \<longleftrightarrow> (\<forall>(k, x) \<in> set m. v x = None)"
proof -
  have "set (srt lt (map fst m)) = fst ` set m"
    using slice_sorter.same_set [OF assms(1), of lt "map fst m"] by simp
  then show ?thesis using assms(2) by (auto simp: map_of_is_SomeI)
qed

lemma validate_log_ok: "Option.bind opt (validate_log full) = None"
  by (cases opt) (simp_all add: validate_log_def)

lemma Validate_iff:
  assumes "slice_sorter sort_slice" "distinct (map fst (ModelMappingRule c))" "distinct (map fst (LbMappingRule c))"
  shows "Validate sort_slice c = None \<longleftrightarrow> valid_config c"
  by (auto simp: Validate_def validate_config_def Let_def clean_then keys_ok [OF assms(1,2)] keys_ok [OF assms(1,3)]
      valid_config_def validate_rules_ok validate_lb_config_ok validate_log_ok)



end
