(* ===== verification/CdsStreams.thy ===== *)
theory CdsStreams
  imports Discovery
begin

text \<open>
  \<^verbatim>\<open>pkg/aigateway/discovery/staticdemo/cds_server.go\<close>: the streams Envoy opens to the cluster
  discovery service.

  A call of \<open>DeltaClusters\<close> starts a goroutine that sends what it takes from the server's channel,
  puts one response with all clusters into that channel, and then reads requests, which it only logs,
  until there is an error or the stream's context ends.  The channel belongs to the server, not to the
  stream.  Each rule of the step relation is one action of one goroutine; where a \<open>select\<close> has
  several ready cases each of them is a step.  \<open>queued\<close> and \<open>lost\<close> are history variables: the
  responses put into the channel, and those taken from it whose sending failed.
\<close>

datatype stream_phase = Opening | Listening | Returned "stream_error option"

record cds_stream =
  st_phase :: stream_phase
  st_sender :: bool
  st_sent :: "delta_response list"
  st_errs :: "stream_error list"
  st_done :: bool

record cds_server =
  responseChan :: "delta_response list"
  streams :: "cds_stream list"
  queued :: "delta_response list"
  lost :: "delta_response list"

definition NewCDSServer :: cds_server where
  "NewCDSServer = \<lparr>responseChan = [], streams = [], queued = [], lost = []\<rparr>"

definition upd_stream :: "nat \<Rightarrow> (cds_stream \<Rightarrow> cds_stream) \<Rightarrow> cds_server \<Rightarrow> cds_server" where
  "upd_stream i f s = s\<lparr>streams := (streams s)[i := f (streams s ! i)]\<rparr>"

subsection \<open>The actions\<close>

definition DeltaClusters_start :: "cds_server \<Rightarrow> cds_server" where
  "DeltaClusters_start s =
     s\<lparr>streams := streams s @ [\<lparr>st_phase = Opening, st_sender = True, st_sent = [], st_errs = [], st_done = False\<rparr>]\<rparr>"

definition announce_all :: "nat \<Rightarrow> delta_response option \<Rightarrow> cds_server \<Rightarrow> cds_server" where
  "announce_all i resp s =
     (let s = upd_stream i (\<lambda>st. st\<lparr>st_phase := Listening\<rparr>) s in
      case resp of None \<Rightarrow> s | Some r \<Rightarrow> s\<lparr>responseChan := responseChan s @ [r], queued := queued s @ [r]\<rparr>)"

text \<open>The goroutine takes a response and sends it; a failed send ends it.\<close>

definition deliver :: "nat \<Rightarrow> stream_error option \<Rightarrow> delta_response \<Rightarrow> delta_response list \<Rightarrow> cds_server \<Rightarrow> cds_server" where
  "deliver i err r rest s =
     (let s = s\<lparr>responseChan := rest\<rparr> in
      case err of
        None \<Rightarrow> upd_stream i (\<lambda>st. st\<lparr>st_sent := st_sent st @ [r]\<rparr>) s
      | Some e \<Rightarrow> (upd_stream i (\<lambda>st. st\<lparr>st_errs := st_errs st @ [e], st_sender := False\<rparr>) s)\<lparr>lost := lost s @ [r]\<rparr>)"

definition sender_leaves :: "nat \<Rightarrow> cds_server \<Rightarrow> cds_server" where
  "sender_leaves i = upd_stream i (\<lambda>st. st\<lparr>st_sender := False\<rparr>)"

definition context_ends :: "nat \<Rightarrow> cds_server \<Rightarrow> cds_server" where
  "context_ends i = upd_stream i (\<lambda>st. st\<lparr>st_done := True\<rparr>)"

text \<open>
  What ends the loop of the handler: an error of the sender, the end of the context, an error of
  \<open>Recv\<close>, which may have been waiting when one of the others came.  A request it reads -
  acknowledgement, rejection or subscription - is only logged.
\<close>

definition DeltaClusters_result :: "cds_stream \<Rightarrow> stream_error option \<Rightarrow> stream_error option \<Rightarrow> bool" where
  "DeltaClusters_result st recv_err result \<longleftrightarrow>
     (case st_errs st of err # _ \<Rightarrow> result = Some err | [] \<Rightarrow> False) \<or>
     (st_done st \<and> result = None) \<or>
     (recv_err \<noteq> None \<and> result = recv_err)"

definition DeltaClusters_return :: "nat \<Rightarrow> stream_error option \<Rightarrow> cds_server \<Rightarrow> cds_server" where
  "DeltaClusters_return i result = upd_stream i (\<lambda>st. st\<lparr>st_phase := Returned result\<rparr>)"

definition chan_capacity :: nat where "chan_capacity = 100"

inductive cds_step :: "string \<Rightarrow> static_provider \<Rightarrow> cds_server \<Rightarrow> cds_server \<Rightarrow> bool" for ty p where
  opened: "cds_step ty p s (DeltaClusters_start s)"
| announced: "i < length (streams s) \<Longrightarrow> st_phase (streams s ! i) = Opening \<Longrightarrow> set order = dom p \<Longrightarrow> distinct order \<Longrightarrow>
     length (responseChan s) < chan_capacity \<Longrightarrow>
     cds_step ty p s (announce_all i (processAllClusters ty nonce order p) s)"
| delivered: "i < length (streams s) \<Longrightarrow> st_sender (streams s ! i) \<Longrightarrow> responseChan s = r # rest \<Longrightarrow>
     cds_step ty p s (deliver i err r rest s)"
| left: "i < length (streams s) \<Longrightarrow> st_sender (streams s ! i) \<Longrightarrow> st_done (streams s ! i) \<Longrightarrow>
     cds_step ty p s (sender_leaves i s)"
| ended: "i < length (streams s) \<Longrightarrow> cds_step ty p s (context_ends i s)"
| returned: "i < length (streams s) \<Longrightarrow> st_phase (streams s ! i) = Listening \<Longrightarrow>
     DeltaClusters_result (streams s ! i) recv_err result \<Longrightarrow> cds_step ty p s (DeltaClusters_return i result s)"

inductive cds_reachable :: "string \<Rightarrow> static_provider \<Rightarrow> cds_server \<Rightarrow> bool" for ty p where
  start: "cds_reachable ty p NewCDSServer"
| step: "cds_reachable ty p s \<Longrightarrow> cds_step ty p s s' \<Longrightarrow> cds_reachable ty p s'"

subsection \<open>Every response is accounted for\<close>

definition all_sent :: "cds_server \<Rightarrow> delta_response multiset" where
  "all_sent s = (\<Sum>st \<leftarrow> streams s. mset (st_sent st))"

text \<open>A response that lists every cluster of the provider once.\<close>

definition snapshot :: "string \<Rightarrow> static_provider \<Rightarrow> delta_response \<Rightarrow> bool" where
  "snapshot ty p r \<longleftrightarrow>
     (\<exists>nonce order. set order = dom p \<and> distinct order \<and> processAllClusters ty nonce order p = Some r)"

lemma sum_list_update_mset:
  "i < length xs \<Longrightarrow>
   (\<Sum>st \<leftarrow> xs[i := y]. mset (st_sent st)) + mset (st_sent (xs ! i)) = (\<Sum>st \<leftarrow> xs. mset (st_sent st)) + mset (st_sent y)"
proof (induction xs arbitrary: i)
  case (Cons x xs)
  then show ?case by (cases i) (auto simp: ac_simps)
qed simp

lemma all_sent_upd:
  assumes "i < length (streams s)" "st_sent (f (streams s ! i)) = st_sent (streams s ! i) @ new"
  shows "all_sent (upd_stream i f s) = all_sent s + mset new"
proof -
  have "all_sent (upd_stream i f s) + mset (st_sent (streams s ! i)) =
      all_sent s + mset (st_sent (f (streams s ! i)))"
    using sum_list_update_mset [OF assms(1), of "f (streams s ! i)"] by (simp add: all_sent_def upd_stream_def)
  then show ?thesis using assms(2) by (simp add: ac_simps)
qed

definition cds_inv :: "string \<Rightarrow> static_provider \<Rightarrow> cds_server \<Rightarrow> bool" where
  "cds_inv ty p s \<longleftrightarrow> mset (queued s) = mset (responseChan s) + all_sent s + mset (lost s) \<and>
     list_all (snapshot ty p) (queued s) \<and> length (responseChan s) \<le> chan_capacity"

lemma upd_stream_keeps [simp]:
  "responseChan (upd_stream i f s) = responseChan s" "queued (upd_stream i f s) = queued s"
  "lost (upd_stream i f s) = lost s"
  by (simp_all add: upd_stream_def)

lemma all_sent_fields [simp]:
  "all_sent (s\<lparr>responseChan := c\<rparr>) = all_sent s" "all_sent (s\<lparr>queued := c\<rparr>) = all_sent s"
  "all_sent (s\<lparr>lost := c\<rparr>) = all_sent s"
  by (simp_all add: all_sent_def)

lemma all_sent_same:
  "i < length (streams s) \<Longrightarrow> (\<And>st. st_sent (f st) = st_sent st) \<Longrightarrow> all_sent (upd_stream i f s) = all_sent s"
  using all_sent_upd [of i s f "[]"] by simp

lemma cds_inv_step: "cds_step ty p s s' \<Longrightarrow> cds_inv ty p s \<Longrightarrow> cds_inv ty p s'"
proof (induction rule: cds_step.induct)
  case (opened s)
  then show ?case by (simp add: cds_inv_def DeltaClusters_start_def all_sent_def)
next
  case (announced i s order nonce)
  have sent: "all_sent (upd_stream i (\<lambda>st. st\<lparr>st_phase := Listening\<rparr>) s) = all_sent s"
    using announced(1) by (rule all_sent_same) simp
  show ?case
  proof (cases "processAllClusters ty nonce order p")
    case (Some r)
    then have "snapshot ty p r" using announced(3,4) unfolding snapshot_def by blast
    with Some sent announced(5,6) show ?thesis by (simp add: announce_all_def cds_inv_def Let_def)
  qed (use sent announced(6) in \<open>simp add: announce_all_def cds_inv_def Let_def\<close>)
next
  case (delivered i s r rest err)
  let ?s = "s\<lparr>responseChan := rest\<rparr>"
  have i: "i < length (streams ?s)" using delivered(1) by simp
  show ?case
  proof (cases err)
    case None
    have "all_sent (upd_stream i (\<lambda>st. st\<lparr>st_sent := st_sent st @ [r]\<rparr>) ?s) = all_sent s + {#r#}"
      using all_sent_upd [OF i, of _ "[r]"] by simp
    with None delivered(3,4) show ?thesis by (simp add: deliver_def cds_inv_def Let_def)
  next
    case (Some e)
    have "all_sent (upd_stream i (\<lambda>st. st\<lparr>st_errs := st_errs st @ [e], st_sender := False\<rparr>) ?s) = all_sent s"
      using all_sent_same [OF i] by simp
    with Some delivered(3,4) show ?thesis by (simp add: deliver_def cds_inv_def Let_def)
  qed
qed (simp_all add: cds_inv_def sender_leaves_def context_ends_def DeltaClusters_return_def all_sent_same)


subsection \<open>A stream can stay without the clusters\<close>

definition one_cluster :: static_provider where
  "one_cluster = [''c'' \<mapsto> \<lparr>ci_Name = ''c'', ci_Endpoints = []\<rparr>]"

definition one_response :: delta_response where
  "one_response = the (processAllClusters ''t'' ''n'' [''c''] one_cluster)"

lemma one_response_eq: "processAllClusters ''t'' ''n'' [''c''] one_cluster = Some one_response"
  by (simp add: one_response_def processAllClusters_def GetAllClusters_def one_cluster_def List.map_filter_def Let_def)

text \<open>
  Two streams share the channel: the goroutine of the first can take both responses, and the second
  stream, opened, listening and without an error, is never told of any cluster.
\<close>

lemma snapshot_stolen:
  "\<exists>s. cds_reachable ''t'' one_cluster s \<and> responseChan s = [] \<and>
     map (\<lambda>st. length (st_sent st)) (streams s) = [2, 0] \<and>
     list_all (\<lambda>st. st_phase st = Listening \<and> st_sender st \<and> st_errs st = []) (streams s)"
proof -
  let ?r = "Some one_response"
  let ?s1 = "DeltaClusters_start (DeltaClusters_start NewCDSServer)"
  let ?s2 = "announce_all 0 ?r ?s1" let ?s3 = "announce_all 1 ?r ?s2"
  let ?s4 = "deliver 0 None one_response [one_response] ?s3" let ?s5 = "deliver 0 None one_response [] ?s4"
  note defs = NewCDSServer_def DeltaClusters_start_def announce_all_def deliver_def upd_stream_def
    chan_capacity_def Let_def
  have order: "set [''c''] = dom one_cluster" "distinct [''c'']" by (simp_all add: one_cluster_def)
  have "cds_reachable ''t'' one_cluster ?s1"
    by (rule cds_reachable.step [OF cds_reachable.step [OF cds_reachable.start cds_step.opened] cds_step.opened])
  then have "cds_reachable ''t'' one_cluster ?s2"
    by (rule cds_reachable.step) (use cds_step.announced [of 0 ?s1, OF _ _ order, of "''t''" "''n''"] one_response_eq in \<open>simp add: defs\<close>)
  then have "cds_reachable ''t'' one_cluster ?s3"
    by (rule cds_reachable.step) (use cds_step.announced [of 1 ?s2, OF _ _ order, of "''t''" "''n''"] one_response_eq in \<open>simp add: defs\<close>)
  then have "cds_reachable ''t'' one_cluster ?s4"
    by (rule cds_reachable.step) (rule cds_step.delivered; simp add: defs)
  then have "cds_reachable ''t'' one_cluster ?s5"
    by (rule cds_reachable.step) (rule cds_step.delivered; simp add: defs)
  then show ?thesis by (rule exI [of _ ?s5, OF conjI]) (simp add: defs)
qed


end
