(* ===== verification/LlmLog.thy ===== *)
theory LlmLog
  imports Prelude
begin

text \<open>
  \<^verbatim>\<open>pkg/aigateway/openai/openai.go\<close>: the response messages of the OpenAI protocol, whole
  and as stream chunks, and \<^verbatim>\<open>plugins/llmproxy/log/log_content.go\<close>: the items collected
  for the LLM log of a request.

  Pointers are options.  Of the usage type of the OpenAI SDK the fields the code reads are kept.
  A buffer that was never written is \<open>None\<close>.  \<^verbatim>\<open>json.Compact\<close> is the argument
  \<open>json_compact\<close>, \<open>None\<close> for an invalid text.
\<close>

subsection \<open>Messages\<close>

record call_function =
  cf_Name :: string
  cf_Arguments :: string

record call_tool =
  ct_Id :: string
  ct_Type :: string
  ct_Function :: call_function

record log_probs_content =
  lp_Token :: string
  lp_Lobprobs :: rat
  lp_Bytes :: "int list"

record log_probs =
  lp_Content :: "log_probs_content list"

record completion_usage =
  u_PromptTokens :: int
  u_CompletionTokens :: int
  u_TotalTokens :: int
  u_PromptTokensDetails :: "int option"

record chat_message =
  m_Content :: string
  m_ReasoningContent :: string
  m_Role :: string
  m_ToolCalls :: "call_tool list"
  m_Refusal :: string

record chat_choice =
  ch_FinishReason :: string
  ch_Index :: int
  ch_Message :: chat_message
  ch_Logprobs :: log_probs

record chat_completion =
  cc_Id :: string
  cc_Choices :: "chat_choice list"
  cc_Created :: int
  cc_Model :: string
  cc_Object :: string
  cc_Usage :: completion_usage

record chunk_delta =
  d_Content :: "string option"
  d_ReasoningContent :: "string option"
  d_Role :: string
  d_ToolCalls :: "call_tool list"
  d_Refusal :: string

record chunk_choice =
  kc_FinishReason :: string
  kc_Index :: int
  kc_Delta :: chunk_delta
  kc_Logprobs :: log_probs

record chat_chunk =
  k_Id :: string
  k_Choices :: "chunk_choice list"
  k_Created :: int
  k_Model :: string
  k_Object :: string
  k_Usage :: completion_usage

subsection \<open>Log items\<close>

record token_usage =
  PromptTokens :: int
  CompletionTokens :: int
  TotalTokens :: int
  CachedTokens :: int

record log_items =
  RawRequest :: bytes
  RawResponse :: "bytes option"
  ThinkingContent :: "bytes option"
  ErrorMessage :: string
  usage :: token_usage
  li_Env :: string
  li_ModelName :: string

definition no_usage :: token_usage where
  "no_usage = \<lparr>PromptTokens = 0, CompletionTokens = 0, TotalTokens = 0, CachedTokens = 0\<rparr>"

definition empty_log :: log_items where
  "empty_log = \<lparr>RawRequest = [], RawResponse = None, ThinkingContent = None, ErrorMessage = [],
     usage = no_usage, li_Env = [], li_ModelName = []\<rparr>"

definition SetRequest :: "(bytes \<Rightarrow> bytes option) \<Rightarrow> bytes \<Rightarrow> log_items \<Rightarrow> log_items" where
  "SetRequest json_compact req l =
     (case json_compact req of None \<Rightarrow> l\<lparr>RawRequest := req\<rparr> | Some c \<Rightarrow> l\<lparr>RawRequest := c\<rparr>)"

definition GetRequest :: "log_items \<Rightarrow> string" where
  "GetRequest l = RawRequest l"

definition GetResponse :: "log_items \<Rightarrow> string" where
  "GetResponse l = (case RawResponse l of None \<Rightarrow> [] | Some b \<Rightarrow> b)"

definition GetThinkingResponse :: "log_items \<Rightarrow> string" where
  "GetThinkingResponse l = (case ThinkingContent l of None \<Rightarrow> [] | Some b \<Rightarrow> b)"

definition SetErrorMessage :: "string \<Rightarrow> log_items \<Rightarrow> log_items" where
  "SetErrorMessage msg l = l\<lparr>ErrorMessage := msg\<rparr>"

text \<open>A write to a buffer that may not exist yet.\<close>

definition buffer_write :: "bytes \<Rightarrow> bytes option \<Rightarrow> bytes option" where
  "buffer_write b old = (case old of None \<Rightarrow> Some b | Some o' \<Rightarrow> Some (o' @ b))"

definition appendUsage :: "completion_usage \<Rightarrow> log_items \<Rightarrow> log_items" where
  "appendUsage u l =
     (if u_TotalTokens u > TotalTokens (usage l) then
        l\<lparr>usage := \<lparr>PromptTokens = u_PromptTokens u, CompletionTokens = u_CompletionTokens u,
            TotalTokens = u_TotalTokens u,
            CachedTokens = (case u_PromptTokensDetails u of
                None \<Rightarrow> CachedTokens (usage l)
              | Some c \<Rightarrow> if c \<noteq> 0 then c else CachedTokens (usage l))\<rparr>\<rparr>
      else l)"

text \<open>The SDK's plain completion: the texts of its choices and its usage.\<close>

definition AppendOpenAIResponse :: "(string list \<times> completion_usage) option \<Rightarrow> log_items \<Rightarrow> log_items" where
  "AppendOpenAIResponse res l =
     (case res of
        None \<Rightarrow> l
      | Some (texts, u) \<Rightarrow>
          appendUsage u (foldl (\<lambda>l t. l\<lparr>RawResponse := buffer_write t (RawResponse l)\<rparr>) l texts))"

definition append_chunk_choice :: "log_items \<Rightarrow> chunk_choice \<Rightarrow> log_items" where
  "append_chunk_choice l choice =
     (let l = (case d_Content (kc_Delta choice) of
                 None \<Rightarrow> l
               | Some content \<Rightarrow> l\<lparr>RawResponse := buffer_write content (RawResponse l)\<rparr>)
      in (case d_ReasoningContent (kc_Delta choice) of
            None \<Rightarrow> l
          | Some reasoning \<Rightarrow> l\<lparr>ThinkingContent := buffer_write reasoning (ThinkingContent l)\<rparr>))"

definition AppendManualOpenAIChunkResponse :: "chat_chunk option \<Rightarrow> log_items \<Rightarrow> log_items" where
  "AppendManualOpenAIChunkResponse chunk l =
     (case chunk of
        None \<Rightarrow> l
      | Some c \<Rightarrow> appendUsage (k_Usage c) (foldl append_chunk_choice l (k_Choices c)))"

definition append_choice :: "log_items \<Rightarrow> chat_choice \<Rightarrow> log_items" where
  "append_choice l choice =
     (let l = l\<lparr>RawResponse := buffer_write (m_Content (ch_Message choice)) (RawResponse l)\<rparr>
      in l\<lparr>ThinkingContent := buffer_write (m_ReasoningContent (ch_Message choice)) (ThinkingContent l)\<rparr>)"

definition AppendManualOpenAIResponse :: "chat_completion option \<Rightarrow> log_items \<Rightarrow> log_items" where
  "AppendManualOpenAIResponse res l =
     (case res of
        None \<Rightarrow> l
      | Some r \<Rightarrow> appendUsage (cc_Usage r) (foldl append_choice l (cc_Choices r)))"

subsection \<open>What is collected\<close>

definition choice_text :: "chunk_choice \<Rightarrow> string" where
  "choice_text c = (case d_Content (kc_Delta c) of None \<Rightarrow> [] | Some t \<Rightarrow> t)"

definition choice_thought :: "chunk_choice \<Rightarrow> string" where
  "choice_thought c = (case d_ReasoningContent (kc_Delta c) of None \<Rightarrow> [] | Some t \<Rightarrow> t)"

definition append_chunks :: "chat_chunk list \<Rightarrow> log_items \<Rightarrow> log_items" where
  "append_chunks ks l = foldl (\<lambda>l k. AppendManualOpenAIChunkResponse (Some k) l) l ks"

lemma buffer_write_read [simp]:
  "(case buffer_write b old of None \<Rightarrow> [] | Some x \<Rightarrow> x) = (case old of None \<Rightarrow> [] | Some x \<Rightarrow> x) @ b"
  by (simp add: buffer_write_def split: option.splits)

lemma append_chunk_choice_reads [simp]:
  "GetResponse (append_chunk_choice l c) = GetResponse l @ choice_text c"
  "GetThinkingResponse (append_chunk_choice l c) = GetThinkingResponse l @ choice_thought c"
  "usage (append_chunk_choice l c) = usage l"
  "ErrorMessage (append_chunk_choice l c) = ErrorMessage l"
  by (simp_all add: append_chunk_choice_def GetResponse_def GetThinkingResponse_def choice_text_def
      choice_thought_def buffer_write_def Let_def split: option.splits)

lemma append_chunk_choices_reads [simp]:
  "GetResponse (foldl append_chunk_choice l cs) = GetResponse l @ concat (map choice_text cs)"
  "GetThinkingResponse (foldl append_chunk_choice l cs) = GetThinkingResponse l @ concat (map choice_thought cs)"
  "usage (foldl append_chunk_choice l cs) = usage l"
  "ErrorMessage (foldl append_chunk_choice l cs) = ErrorMessage l"
  by (induction cs arbitrary: l) simp_all

lemma appendUsage_reads [simp]:
  "GetResponse (appendUsage u l) = GetResponse l"
  "GetThinkingResponse (appendUsage u l) = GetThinkingResponse l"
  "ErrorMessage (appendUsage u l) = ErrorMessage l"
  "TotalTokens (usage (appendUsage u l)) = max (u_TotalTokens u) (TotalTokens (usage l))"
  by (simp_all add: appendUsage_def GetResponse_def GetThinkingResponse_def)

lemma AppendChunk_reads [simp]:
  "GetResponse (AppendManualOpenAIChunkResponse (Some k) l) = GetResponse l @ concat (map choice_text (k_Choices k))"
  "GetThinkingResponse (AppendManualOpenAIChunkResponse (Some k) l) =
     GetThinkingResponse l @ concat (map choice_thought (k_Choices k))"
  "ErrorMessage (AppendManualOpenAIChunkResponse (Some k) l) = ErrorMessage l"
  "TotalTokens (usage (AppendManualOpenAIChunkResponse (Some k) l)) =
     max (u_TotalTokens (k_Usage k)) (TotalTokens (usage l))"
  by (simp_all add: AppendManualOpenAIChunkResponse_def)

lemma AppendChunk_usage:
  "usage (AppendManualOpenAIChunkResponse (Some k) l) =
     (if u_TotalTokens (k_Usage k) > TotalTokens (usage l) then
        \<lparr>PromptTokens = u_PromptTokens (k_Usage k), CompletionTokens = u_CompletionTokens (k_Usage k),
         TotalTokens = u_TotalTokens (k_Usage k),
         CachedTokens = (case u_PromptTokensDetails (k_Usage k) of
             None \<Rightarrow> CachedTokens (usage l)
           | Some c \<Rightarrow> if c \<noteq> 0 then c else CachedTokens (usage l))\<rparr>
      else usage l)"
  by (simp add: AppendManualOpenAIChunkResponse_def appendUsage_def split: option.splits)

lemma append_chunks_snoc [simp]:
  "append_chunks [] l = l"
  "append_chunks (ks @ [k]) l = AppendManualOpenAIChunkResponse (Some k) (append_chunks ks l)"
  by (simp_all add: append_chunks_def)

lemma append_chunks_reads:
  "GetResponse (append_chunks ks l) = GetResponse l @ concat (map choice_text (concat (map k_Choices ks)))"
  "GetThinkingResponse (append_chunks ks l) =
     GetThinkingResponse l @ concat (map choice_thought (concat (map k_Choices ks)))"
  by (induction ks rule: rev_induct) simp_all

text \<open>The usage kept is that of the first chunk with the greatest total.\<close>

definition reports_usage :: "token_usage \<Rightarrow> chat_chunk list \<Rightarrow> nat \<Rightarrow> bool" where
  "reports_usage t ks i \<longleftrightarrow>
     i < length ks \<and> TotalTokens t = u_TotalTokens (k_Usage (ks ! i)) \<and>
     PromptTokens t = u_PromptTokens (k_Usage (ks ! i)) \<and>
     CompletionTokens t = u_CompletionTokens (k_Usage (ks ! i)) \<and>
     (\<forall>j < i. u_TotalTokens (k_Usage (ks ! j)) < TotalTokens t) \<and>
     (\<forall>j < length ks. u_TotalTokens (k_Usage (ks ! j)) \<le> TotalTokens t)"

lemma reports_usage_snoc:
  assumes "reports_usage t ks i" "u_TotalTokens (k_Usage k) \<le> TotalTokens t"
  shows "reports_usage t (ks @ [k]) i"
  using assms by (auto simp: reports_usage_def nth_append less_Suc_eq)

lemma append_chunks_usage:
  "usage (append_chunks ks l) = usage l \<and> (\<forall>k \<in> set ks. u_TotalTokens (k_Usage k) \<le> TotalTokens (usage l)) \<or>
   TotalTokens (usage l) < TotalTokens (usage (append_chunks ks l)) \<and>
     (\<exists>i. reports_usage (usage (append_chunks ks l)) ks i)"
proof (induction ks rule: rev_induct)
  case (snoc k ks)
  let ?l = "append_chunks ks l"
  show ?case
  proof (cases "u_TotalTokens (k_Usage k) > TotalTokens (usage ?l)")
    case True
    have old: "\<forall>j < length ks. u_TotalTokens (k_Usage (ks ! j)) \<le> TotalTokens (usage ?l)"
      using snoc by (auto simp: reports_usage_def)
    have "reports_usage (usage (append_chunks (ks @ [k]) l)) (ks @ [k]) (length ks)"
      using True old by (fastforce simp: reports_usage_def AppendChunk_usage nth_append less_Suc_eq)
    moreover have "TotalTokens (usage l) < TotalTokens (usage (append_chunks (ks @ [k]) l))"
      using True snoc by auto
    ultimately show ?thesis by blast
  next
    case False
    then have same: "usage (append_chunks (ks @ [k]) l) = usage ?l" by (simp add: AppendChunk_usage)
    show ?thesis
      using snoc False reports_usage_snoc [of "usage ?l" ks _ k] unfolding same by auto
  qed
qed simp

text \<open>
  The log of a streamed answer is complete: after any chunks its response is the contents of
  all choices of all chunks in order, its thinking text likewise the reasoning contents, and its
  token usage is that of the first chunk whose total is greatest, or nothing if no total is
  positive.
\<close>

theorem log_collects_chunks:
  "GetResponse (append_chunks ks empty_log) = concat (map choice_text (concat (map k_Choices ks))) \<and>
   GetThinkingResponse (append_chunks ks empty_log) = concat (map choice_thought (concat (map k_Choices ks))) \<and>
   (if \<exists>k \<in> set ks. 0 < u_TotalTokens (k_Usage k)
    then \<exists>i. reports_usage (usage (append_chunks ks empty_log)) ks i
    else usage (append_chunks ks empty_log) = no_usage)"
proof -
  have e: "GetResponse empty_log = []" "GetThinkingResponse empty_log = []" "usage empty_log = no_usage"
    "TotalTokens no_usage = 0"
    by (simp_all add: empty_log_def GetResponse_def GetThinkingResponse_def no_usage_def)
  show ?thesis
    using append_chunks_usage [of ks empty_log]
    by (auto simp: e append_chunks_reads reports_usage_def in_set_conv_nth) fastforce+
qed

end
