(* ===== verification/AsyncLog.thy ===== *)
theory AsyncLog
  imports Common
begin

text \<open>
  \<^verbatim>\<open>pkg/async_log/async_logger.go\<close>: log texts go through a bounded channel to one writer
  goroutine.

  The channel is a list with the capacity \<open>logQueueCap\<close>; \<open>lg_busy\<close> is the text the goroutine
  is writing, \<open>lg_written\<close> what it has handed to the rotating writer.  A send to the waiting
  goroutine is an append followed by a receive, which is the same for the positive capacity the
  only caller asks for.  Nothing in the repository closes \<open>stopChan\<close>.  \<open>lg_accepted\<close> is a
  ghost field: the texts whose send succeeded.
\<close>

record lumberjack =
  Filename :: string
  MaxSize :: int
  MaxBackups :: int
  MaxAge :: int
  Compress :: bool

record async_logger =
  logQueue :: "bytes list"
  logQueueCap :: int
  logger_out :: lumberjack
  lg_busy :: "bytes option"
  lg_written :: "bytes list"
  lg_accepted :: "bytes list"

definition DefaultLogPath :: string where "DefaultLogPath = ''/home/admin/logs/llm.log''"

definition getEnvInt :: "environment \<Rightarrow> string \<Rightarrow> int \<Rightarrow> int" where
  "getEnvInt env key defaultValue =
     (let v = env key in
      if v \<noteq> [] then (case atoi v of Some n \<Rightarrow> n | None \<Rightarrow> defaultValue) else defaultValue)"

definition getEnvBool :: "environment \<Rightarrow> string \<Rightarrow> bool \<Rightarrow> bool" where
  "getEnvBool env key defaultValue =
     (let v = env key in
      if v \<noteq> [] then (case parse_bool v of Some b \<Rightarrow> b | None \<Rightarrow> defaultValue) else defaultValue)"

definition getLogger :: "environment \<Rightarrow> string \<Rightarrow> lumberjack" where
  "getLogger env path =
     \<lparr>Filename = path, MaxSize = getEnvInt env ''AIGW_LLM_LOGSIZE'' 100,
      MaxBackups = getEnvInt env ''AIGW_LLM_LOGBACKUPS'' 100, MaxAge = getEnvInt env ''AIGW_LLM_MAXAGE'' 7,
      Compress = getEnvBool env ''AIGW_LLM_COMPRESS'' False\<rparr>"

text \<open>\<open>make(chan)\<close> panics for a negative size.\<close>

definition createAsyncLogger :: "environment \<Rightarrow> string \<Rightarrow> int \<Rightarrow> async_logger run" where
  "createAsyncLogger env path queueSize =
     (let l = getLogger env path in
      if queueSize < 0 then Panic
      else Ret \<lparr>logQueue = [], logQueueCap = queueSize, logger_out = l, lg_busy = None,
                lg_written = [], lg_accepted = []\<rparr>)"

text \<open>
  The process-wide logger and its \<^verbatim>\<open>sync.Once\<close>, which counts as done even if the function
  panicked; a logger that was not created is nil.
\<close>

record logger_once =
  lo_done :: bool
  lo_logger :: "async_logger option"

definition GetAsyncLoggerInstance ::
  "environment \<Rightarrow> string \<Rightarrow> int \<Rightarrow> logger_once \<Rightarrow> async_logger option run \<times> logger_once" where
  "GetAsyncLoggerInstance env path queueSize o1 =
     (if lo_done o1 then (Ret (lo_logger o1), o1)
      else
        (case createAsyncLogger env (if path = [] then DefaultLogPath else path) queueSize of
           Panic \<Rightarrow> (Panic, o1\<lparr>lo_done := True\<rparr>)
         | Ret l \<Rightarrow> (Ret (Some l), \<lparr>lo_done = True, lo_logger = Some l\<rparr>)))"

definition LogWrite :: "bytes \<Rightarrow> async_logger \<Rightarrow> async_logger" where
  "LogWrite p al =
     (if int (length (logQueue al)) < logQueueCap al
      then al\<lparr>logQueue := logQueue al @ [p], lg_accepted := lg_accepted al @ [p]\<rparr>
      else al)"

text \<open>The two halves of an iteration of \<open>run\<close>: the receive and the write.\<close>

definition log_receive :: "async_logger \<Rightarrow> async_logger" where
  "log_receive al =
     (case (lg_busy al, logQueue al) of
        (None, p # q) \<Rightarrow> al\<lparr>logQueue := q, lg_busy := Some p\<rparr>
      | _ \<Rightarrow> al)"

definition log_flush :: "async_logger \<Rightarrow> async_logger" where
  "log_flush al =
     (case lg_busy al of
        Some p \<Rightarrow> al\<lparr>lg_busy := None, lg_written := lg_written al @ [p]\<rparr>
      | None \<Rightarrow> al)"

text \<open>The loggers reachable from a new one, with the texts callers asked to write so far.\<close>

inductive log_run :: "async_logger \<Rightarrow> async_logger \<Rightarrow> bytes list \<Rightarrow> bool" for al0 where
  log_init: "log_run al0 al0 []"
| log_write: "log_run al0 al ws \<Longrightarrow> log_run al0 (LogWrite p al) (ws @ [p])"
| log_take: "log_run al0 al ws \<Longrightarrow> log_run al0 (log_receive al) ws"
| log_done: "log_run al0 al ws \<Longrightarrow> log_run al0 (log_flush al) ws"

definition in_order :: "async_logger \<Rightarrow> bool" where
  "in_order al \<longleftrightarrow>
     lg_written al @ (case lg_busy al of None \<Rightarrow> [] | Some p \<Rightarrow> [p]) @ logQueue al = lg_accepted al \<and>
     int (length (logQueue al)) \<le> logQueueCap al"

lemma in_order_steps:
  "in_order al \<Longrightarrow> in_order (LogWrite p al)" "in_order al \<Longrightarrow> in_order (log_receive al)"
  "in_order al \<Longrightarrow> in_order (log_flush al)"
  by (auto simp: in_order_def LogWrite_def log_receive_def log_flush_def split: option.splits list.splits)

lemma cap_steps [simp]:
  "logQueueCap (LogWrite p al) = logQueueCap al" "logQueueCap (log_receive al) = logQueueCap al"
  "logQueueCap (log_flush al) = logQueueCap al"
  "lg_accepted (log_receive al) = lg_accepted al" "lg_accepted (log_flush al) = lg_accepted al"
  by (simp_all add: LogWrite_def log_receive_def log_flush_def split: option.splits list.splits)

lemma log_run_inv:
  assumes "log_run al0 al ws" "createAsyncLogger env path n = Ret al0"
  shows "in_order al \<and> logQueueCap al = n \<and> subseq (lg_accepted al) ws \<and>
    (int (length ws) \<le> n \<longrightarrow> lg_accepted al = ws)"
  using assms
proof induction
  case log_init
  then show ?case by (auto simp: createAsyncLogger_def in_order_def Let_def split: if_splits)
next
  case (log_write al ws p)
  then have IH: "in_order al" "logQueueCap al = n" "subseq (lg_accepted al) ws"
    "int (length ws) \<le> n \<Longrightarrow> lg_accepted al = ws" by auto
  have "length (logQueue al) \<le> length (lg_accepted al)"
    using IH(1) unfolding in_order_def by (metis length_append le_add2 trans_le_add2)
  with IH show ?case
    by (auto simp: in_order_steps(1)) (auto simp: LogWrite_def subseq_append_iff)
next
  case (log_take al ws)
  then show ?case by (simp add: in_order_steps(2))
next
  case (log_done al ws)
  then show ?case by (simp add: in_order_steps(3))
qed

text \<open>
  C32. The log is written in order and only ever thinned by a full queue: whatever the
  interleaving of writers and the writer goroutine, what was written out, what is being written
  and what waits are, in this order, the texts accepted, these are a subsequence of the texts the
  callers wrote, at most a queueful waits, and as long as no more texts were written than the queue
  holds none is dropped.
\<close>

theorem async_log_in_order:
  assumes "createAsyncLogger env path n = Ret al0" "log_run al0 al ws"
  shows "lg_written al @ (case lg_busy al of None \<Rightarrow> [] | Some p \<Rightarrow> [p]) @ logQueue al = lg_accepted al \<and>
    subseq (lg_accepted al) ws \<and> int (length (logQueue al)) \<le> n \<and>
    (int (length ws) \<le> n \<longrightarrow> lg_accepted al = ws)"
  using log_run_inv [OF assms(2,1)] by (auto simp: in_order_def)

definition sample_logger :: "int \<Rightarrow> async_logger" where
  "sample_logger n = \<lparr>logQueue = [], logQueueCap = n, logger_out = getLogger (\<lambda>_. []) ''log'',
     lg_busy = None, lg_written = [], lg_accepted = []\<rparr>"

theorem async_log_in_order_witness:
  "lg_written (log_flush (log_receive (LogWrite ''b'' (LogWrite ''a'' (sample_logger 1))))) = [''a''] \<and>
   lg_accepted (log_flush (log_receive (LogWrite ''b'' (LogWrite ''a'' (sample_logger 1))))) = [''a'']"
proof -
  let ?al = "log_flush (log_receive (LogWrite ''b'' (LogWrite ''a'' (sample_logger 1))))"
  have "log_run (sample_logger 1) ?al (([] @ [''a'']) @ [''b''])"
    by (intro log_run.intros)
  from async_log_in_order [OF _ this, of "\<lambda>_. []" "''log''" 1]
  have "lg_written ?al @ (case lg_busy ?al of None \<Rightarrow> [] | Some p \<Rightarrow> [p]) @ logQueue ?al = lg_accepted ?al"
    by (simp add: createAsyncLogger_def sample_logger_def)
  then show ?thesis by (simp add: LogWrite_def log_receive_def log_flush_def sample_logger_def)
qed

end
