(* ===== verification/CacheHash.thy ===== *)
theory CacheHash
  imports Prelude
begin

text \<open>
  \<^verbatim>\<open>plugins/llmproxy/cache_hash.go\<close>: the hashes of the prefixes of a prompt, the keys of
  the cache index.

  A \<^verbatim>\<open>hash.Hash64\<close> is a running hash: \<open>Write\<close> adds bytes, \<open>Sum64\<close> is the hash of
  all bytes written so far and does not change the state.  Its state here is what was written and
  the hash function (murmur3) is the argument \<open>sum64\<close>.  A slice \<open>prompt[start:end]\<close> with
  \<open>end < start\<close> panics, and so do a division by zero and a negative capacity.
\<close>

definition DefaultTextChunkLen :: int where "DefaultTextChunkLen = 512"

record hash_config =
  ChunkLen :: int

definition NewHash :: "hash_config \<Rightarrow> hash_config" where
  "NewHash config = config"

text \<open>
  The loop over the chunks.  An empty or negative chunk length never gets here with a non-empty
  step; the guard \<open>end \<le> start\<close> is the panic of the slice expression.
\<close>

function hash_loop ::
  "(bytes \<Rightarrow> 64 word) \<Rightarrow> int \<Rightarrow> bytes \<Rightarrow> int \<Rightarrow> bytes \<Rightarrow> 64 word list \<Rightarrow> 64 word list run" where
  "hash_loop sum64 c prompt start written buf =
     (if start < int (length prompt) then
        (let end = (if start + c > int (length prompt) then int (length prompt) else start + c) in
         if end \<le> start then Panic
         else
           (let written = written @ take (nat (end - start)) (drop (nat start) prompt)
            in hash_loop sum64 c prompt (start + c) written (buf @ [sum64 written])))
      else Ret buf)"
  by pat_completeness auto
termination
  by (relation "measure (\<lambda>(s, c, p, start, w, b). nat (int (length p) - start))")
    (auto split: if_splits)

declare hash_loop.simps [simp del]

definition PromptToHash :: "(bytes \<Rightarrow> 64 word) \<Rightarrow> hash_config \<Rightarrow> bytes \<Rightarrow> 64 word list run" where
  "PromptToHash sum64 h prompt =
     (let plen = int (length prompt); c = ChunkLen h in
      if plen = 0 then Ret []
      else if c = 0 then Panic
      else if go_quot (wrap64 (plen + c - 1)) c < 0 then Panic
      else if plen \<le> c then Ret [sum64 prompt]
      else hash_loop sum64 c prompt 0 [] [])"

text \<open>The prefixes of a prompt that end at a chunk boundary or at its end.\<close>

definition prefix_hashes :: "(bytes \<Rightarrow> 64 word) \<Rightarrow> nat \<Rightarrow> bytes \<Rightarrow> 64 word list" where
  "prefix_hashes sum64 c prompt =
     map (\<lambda>i. sum64 (take ((i + 1) * c) prompt)) [0 ..< (length prompt + c - 1) div c]"

lemma chunks_left:
  assumes "k * c < n" "0 < (c::nat)"
  shows "k < (n + c - 1) div c"
proof -
  have "(k * c + c) div c \<le> (n + c - 1) div c" using assms by (intro div_le_mono) simp
  then show ?thesis using assms(2) by simp
qed

lemma chunks_done:
  assumes "n \<le> k * c" "0 < (c::nat)"
  shows "(n + c - 1) div c \<le> k"
proof -
  have "(n + c - 1) div c \<le> (k * c + (c - 1)) div c" using assms by (intro div_le_mono) simp
  also have "\<dots> = k + (c - 1) div c" using assms(2) by (simp only: div_mult_self3)
  finally show ?thesis using assms(2) by simp
qed

lemma hash_loop_prefixes:
  assumes "0 < c"
  shows "hash_loop sum64 (int c) prompt (int (k * c)) (take (k * c) prompt) buf =
     Ret (buf @ map (\<lambda>i. sum64 (take ((i + 1) * c) prompt)) [k ..< (length prompt + c - 1) div c])"
proof (induction "length prompt - k * c" arbitrary: k buf rule: less_induct)
  case less
  show ?case
  proof (cases "k * c < length prompt")
    case False
    have none: "[k ..< (length prompt + c - 1) div c] = []"
      using chunks_done [of "length prompt" k c] assms False by simp
    have "\<not> int (k * c) < int (length prompt)" using False by (simp only: of_nat_less_iff not_False_eq_True)
    then show ?thesis by (subst hash_loop.simps) (simp only: if_False none list.map append_Nil2)
  next
    case True
    define K where "K = k * c"
    have K: "(k + 1) * c = K + c" "K < length prompt" using True by (simp_all add: K_def)
    let ?e = "if int K + int c > int (length prompt) then int (length prompt) else int K + int c"
    have e: "?e = int (min (length prompt) (K + c))" by (simp add: min_def)
    have w: "take K prompt @ take (nat (?e - int K)) (drop K prompt) = take (K + c) prompt"
    proof -
      have r: "nat (?e - int K) = min (length prompt) (K + c) - K" unfolding e by simp
      have "K + (min (length prompt) (K + c) - K) = min (length prompt) (K + c)"
        using K(2) by (simp add: min_def)
      then show ?thesis unfolding r take_add [symmetric] by (simp add: min_def)
    qed
    have pos: "\<not> ?e \<le> int K" using K(2) assms unfolding e by (simp add: min_def)
    have IH: "hash_loop sum64 (int c) prompt (int ((k + 1) * c)) (take ((k + 1) * c) prompt) b =
        Ret (b @ map (\<lambda>i. sum64 (take ((i + 1) * c) prompt)) [k + 1 ..< (length prompt + c - 1) div c])" for b
      by (rule less) (use True assms in simp)
    have "hash_loop sum64 (int c) prompt (int K) (take K prompt) buf =
        hash_loop sum64 (int c) prompt (int (K + c)) (take (K + c) prompt) (buf @ [sum64 (take (K + c) prompt)])"
      using K(2) pos w by (subst hash_loop.simps) (simp only: Let_def nat_int of_nat_less_iff if_True if_False of_nat_add)
    then have "hash_loop sum64 (int c) prompt (int (k * c)) (take (k * c) prompt) buf =
        hash_loop sum64 (int c) prompt (int ((k + 1) * c)) (take ((k + 1) * c) prompt)
          (buf @ [sum64 (take ((k + 1) * c) prompt)])"
      unfolding K(1) K_def .
    also have "\<dots> = Ret (buf @ map (\<lambda>i. sum64 (take ((i + 1) * c) prompt)) [k ..< (length prompt + c - 1) div c])"
      unfolding IH using upt_conv_Cons [OF chunks_left [OF True assms]] by simp
    finally show ?thesis .
  qed
qed

lemma PromptToHash_prefixes:
  assumes "0 < c" "int (length prompt) + int c < 2 ^ 63"
  shows "PromptToHash sum64 \<lparr>ChunkLen = int c\<rparr> prompt = Ret (prefix_hashes sum64 c prompt)"
proof (cases "prompt = []")
  case True
  with assms(1) show ?thesis by (simp add: PromptToHash_def prefix_hashes_def)
next
  case False
  have cap: "\<not> go_quot (wrap64 (int (length prompt) + int c - 1)) (int c) < 0"
  proof -
    have "0 \<le> int (length prompt) + int c - 1" using assms(1) by simp
    then have "0 \<le> go_quot (int (length prompt) + int c - 1) (int c)"
      using assms(1) pos_imp_zdiv_nonneg_iff [of "int c" "int (length prompt) + int c - 1"] by simp
    with assms show ?thesis by simp
  qed
  show ?thesis
  proof (cases "length prompt \<le> c")
    case True
    have "(length prompt + c - 1) div c = 1"
    proof -
      have "1 \<le> (length prompt + c - 1) div c"
        using chunks_left [of 0 c "length prompt"] assms(1) False by simp
      moreover have "(length prompt + c - 1) div c \<le> 1"
        using chunks_done [of "length prompt" 1 c] True assms(1) by simp
      ultimately show ?thesis by simp
    qed
    with True False cap assms(1) show ?thesis by (simp add: PromptToHash_def prefix_hashes_def Let_def)
  next
    case long: False
    have "hash_loop sum64 (int c) prompt 0 [] [] = Ret (prefix_hashes sum64 c prompt)"
      using hash_loop_prefixes [OF assms(1), of sum64 prompt 0 "[]"] by (simp add: prefix_hashes_def)
    with long False cap assms(1) show ?thesis by (simp add: PromptToHash_def Let_def)
  qed
qed

lemma length_prefix_hashes [simp]: "length (prefix_hashes sum64 c prompt) = (length prompt + c - 1) div c"
  by (simp add: prefix_hashes_def)

lemma nth_prefix_hashes:
  "i < (length prompt + c - 1) div c \<Longrightarrow> prefix_hashes sum64 c prompt ! i = sum64 (take ((i + 1) * c) prompt)"
  by (simp add: prefix_hashes_def)

text \<open>
  C23. Prompts that share a prefix share its hashes.  For a positive chunk length the hashes of a
  prompt are those of its prefixes of one, two, ... chunks and of the whole prompt, as many as it
  has chunks, the last one rounded up; and two prompts that agree on their first \<open>n\<close> chunks get
  the same first \<open>n\<close> hashes, so that the one finds what was cached for the other.
\<close>

theorem shared_prefix_shares_hashes:
  assumes "0 < c" "int (length p) + int c < 2 ^ 63" "int (length q) + int c < 2 ^ 63"
    and "n * c \<le> length p" "n * c \<le> length q" "take (n * c) p = take (n * c) q"
  shows "\<exists>hp hq. PromptToHash sum64 \<lparr>ChunkLen = int c\<rparr> p = Ret hp \<and>
    PromptToHash sum64 \<lparr>ChunkLen = int c\<rparr> q = Ret hq \<and>
    length hp = (length p + c - 1) div c \<and> (\<forall>i < length hp. hp ! i = sum64 (take ((i + 1) * c) p)) \<and>
    n \<le> length hp \<and> n \<le> length hq \<and> take n hp = take n hq"
proof -
  have len: "n \<le> (length r + c - 1) div c" if "n * c \<le> length r" for r :: bytes
  proof (cases n)
    case (Suc m)
    then have "m * c < length r" using that assms(1) by simp
    from chunks_left [OF this assms(1)] Suc show ?thesis by simp
  qed simp
  have "prefix_hashes sum64 c p ! i = prefix_hashes sum64 c q ! i" if "i < n" for i
  proof -
    have "(i + 1) * c \<le> n * c" using that by (intro mult_le_mono1) simp
    then have "take ((i + 1) * c) p = take ((i + 1) * c) q"
      using assms(6) by (metis min.absorb1 take_take)
    with that len [OF assms(4)] len [OF assms(5)] show ?thesis by (simp add: nth_prefix_hashes)
  qed
  then have "take n (prefix_hashes sum64 c p) = take n (prefix_hashes sum64 c q)"
    using len [OF assms(4)] len [OF assms(5)] by (intro nth_equalityI) auto
  then show ?thesis
    using PromptToHash_prefixes [OF assms(1,2)] PromptToHash_prefixes [OF assms(1,3)]
      len [OF assms(4)] len [OF assms(5)] by (auto simp: nth_prefix_hashes)
qed

theorem shared_prefix_shares_hashes_witness:
  "\<exists>hp hq. PromptToHash (\<lambda>b. word_of_nat (length b)) \<lparr>ChunkLen = 2\<rparr> ''abcd'' = Ret hp \<and>
     PromptToHash (\<lambda>b. word_of_nat (length b)) \<lparr>ChunkLen = 2\<rparr> ''abxyz'' = Ret hq \<and>
     length hp = 2 \<and> take 1 hp = take 1 hq"
proof -
  have "\<exists>hp hq. PromptToHash (\<lambda>b. word_of_nat (length b)) \<lparr>ChunkLen = int 2\<rparr> ''abcd'' = Ret hp \<and>
    PromptToHash (\<lambda>b. word_of_nat (length b)) \<lparr>ChunkLen = int 2\<rparr> ''abxyz'' = Ret hq \<and>
    length hp = (length ''abcd'' + 2 - 1) div 2 \<and>
    (\<forall>i < length hp. hp ! i = (\<lambda>b. word_of_nat (length b)) (take ((i + 1) * 2) ''abcd'')) \<and>
    1 \<le> length hp \<and> 1 \<le> length hq \<and> take 1 hp = take 1 hq"
    by (rule shared_prefix_shares_hashes) simp_all
  then show ?thesis by auto
qed

end
