(* ===== verification/CommonTranscoder.thy ===== *)
theory CommonTranscoder
  imports ErrCode Request
begin

text \<open>
  \<^verbatim>\<open>plugins/llmproxy/transcoder/openai/common.go\<close> and
  \<^verbatim>\<open>transcoder/common.go\<close>: what the transcoders share.  Framing of gRPC messages, the
  checks on response headers, and cutting a response body into messages.

  A transcoder lives for one request.  Its buffer \<open>remainBuf\<close> keeps what has not been
  processed; the empty buffer and nil are not told apart by the code.  A protobuf message is the
  result of its serialisation.
\<close>

unbundle bit_operations_syntax

subsection \<open>Backends\<close>

definition TritonBackend :: string where "TritonBackend = ''triton''"
definition SglangBackend :: string where "SglangBackend = ''sglang''"
definition VllmBackend :: string where "VllmBackend = ''vllm''"
definition TensorRTBackend :: string where "TensorRTBackend = ''tensorrt-llm''"
definition DefaultModelName :: string where "DefaultModelName = ''auto''"

definition IsHTTP1Backend :: "string \<Rightarrow> bool" where
  "IsHTTP1Backend backend \<longleftrightarrow> backend \<noteq> TritonBackend"

text \<open>The switch of \<^verbatim>\<open>transcoder/common.go\<close>, computed once.\<close>

record reasoning_switch =
  splitReasoningOnce :: bool
  splitReasoningVar :: bool

definition IsSplitReasoningEnabled :: "environment \<Rightarrow> reasoning_switch \<Rightarrow> bool \<times> reasoning_switch" where
  "IsSplitReasoningEnabled env sw =
     (let sw = (if splitReasoningOnce sw then sw
                else \<lparr>splitReasoningOnce = True,
                      splitReasoningVar = (if env ''AIGW_AI_PROXY_SPLIT_REASONING'' = ''true'' then True
                                           else splitReasoningVar sw)\<rparr>)
      in (splitReasoningVar sw, sw))"

subsection \<open>gRPC frames\<close>

record common_transcoder =
  isStream :: bool
  remainBuf :: bytes
  backendProtocol :: string
  chunkCount :: int

text \<open>
  A frame is five bytes of header, four of them the big-endian length, and the message.  The
  length is put together by shifts; it cannot exceed 32 bits and Go's \<open>int\<close> has 64.
\<close>

definition frameRemainBuf :: "'a common_transcoder_scheme \<Rightarrow> bytes option \<times> 'a common_transcoder_scheme" where
  "frameRemainBuf t =
     (let b = remainBuf t in
      if length b < 5 then (None, t)
      else
        (let n = push_bit 24 (byte_of (b ! 1)) OR push_bit 16 (byte_of (b ! 2))
                    OR push_bit 8 (byte_of (b ! 3)) OR byte_of (b ! 4)
         in if length b < n + 5 then (None, t)
            else (Some (take n (drop 5 b)), t\<lparr>remainBuf := drop (n + 5) b\<rparr>)))"

definition size_byte :: "int \<Rightarrow> nat \<Rightarrow> char" where
  "size_byte n k = char_of (nat (n div 2 ^ k mod 256))"

definition setGrpcHeader :: "bytes \<Rightarrow> int \<Rightarrow> bytes run" where
  "setGrpcHeader grpcHeader n =
     (if length grpcHeader < 5 then Panic
      else Ret (grpcHeader[4 := size_byte n 0, 3 := size_byte n 8, 2 := size_byte n 16,
                  1 := size_byte n 24]))"

text \<open>
  The request sent to a gRPC backend.  \<open>msg\<close> is the serialised message or the error of the
  serialisation; the new body is the result.
\<close>

definition encodeGrpcRequest ::
  "string \<Rightarrow> go_error + bytes \<Rightarrow> request_headers \<Rightarrow> (go_error + bytes) run \<times> request_headers" where
  "encodeGrpcRequest path msg headers =
     (let headers = SetPath headers path;
          headers = headers(''content-type'' \<mapsto> ''application/grpc'');
          headers = headers(''content-length'' := None);
          headers = headers(''te'' \<mapsto> ''trailers'')
      in case msg of
           Inl err \<Rightarrow> (Ret (Inl err), headers)
         | Inr m \<Rightarrow>
             (let grpcBuf = replicate 5 (CHR 0x00) @ m;
                  n = int (length grpcBuf) - 5
              in (run_bind (setGrpcHeader grpcBuf n) (\<lambda>b. Ret (Inr b)), headers)))"

subsection \<open>Response headers\<close>

definition header_get :: "header_map \<Rightarrow> string \<Rightarrow> string" where
  "header_get h k = (case h k of Some v \<Rightarrow> v | None \<Rightarrow> [])"

definition DecodeHeaders :: "string \<Rightarrow> header_map \<Rightarrow> go_error option run \<times> header_map" where
  "DecodeHeaders backend headers =
     (if IsHTTP1Backend backend then (Ret None, headers)
      else
        (let grpcStatus = header_get headers ''grpc-status'' in
         if grpcStatus \<noteq> [] \<and> grpcStatus \<noteq> ''0'' then
           (let grpcMessage = header_get headers ''grpc-message'' in
            if grpcStatus = ''13'' then
              (run_bind (WrapInferenceServerInternalError (Some (ErrorString grpcMessage))) (\<lambda>e. Ret (Some e)), headers)
            else
              (Ret (Some (ErrorString (''unexpected grpc status: '' @ grpcStatus @ '', grpc message: '' @ grpcMessage))),
               headers))
         else (Ret None, headers(''grpc-accept-encoding'' := None, ''accept-encoding'' := None))))"

subsection \<open>Messages of a response\<close>

definition LF :: char where "LF = CHR 0x0A"
definition CR :: char where "CR = CHR 0x0D"

definition unifySSEChunk :: "bytes \<Rightarrow> bytes" where
  "unifySSEChunk data =
     (let data = replace_all [CR, LF] [LF] data in replace_all [CR] [LF] data)"

text \<open>The loop that strips \<open>data:\<close> off the messages: only their length is checked.\<close>

fun strip_messages :: "bytes \<Rightarrow> bytes list \<Rightarrow> string + bytes list" where
  "strip_messages data [] = Inr []"
| "strip_messages data (msg # rest) =
     (if length msg < length ''data:'' then Inl (''invalid SSE chunk in response: '' @ data)
      else
        (case strip_messages data rest of
           Inl err \<Rightarrow> Inl err
         | Inr msgs \<Rightarrow> Inr (trim_space (drop (length ''data:'') msg) # msgs)))"

definition responseMessages :: "'a common_transcoder_scheme \<Rightarrow> (string + bytes list) \<times> 'a common_transcoder_scheme" where
  "responseMessages t =
     (let data = remainBuf t; t = t\<lparr>remainBuf := []\<rparr> in
      if isStream t then
        (let messages = split_nn (unifySSEChunk data);
             t = (if length (last messages) \<noteq> 0 then t\<lparr>remainBuf := last messages\<rparr> else t)
         in (strip_messages data (butlast messages), t))
      else (Inr [data], t))"

subsection \<open>Frames round trip\<close>

lemma or_of_high_and_low: "push_bit k (x::nat) OR a = x * 2 ^ k + a" if "a < 2 ^ k"
proof -
  have "\<not> bit (push_bit k x) n \<or> \<not> bit a n" for n
  proof (cases "n < k")
    case True
    then show ?thesis by (simp add: bit_push_bit_iff_nat)
  next
    case False
    have "a = take_bit k a" using that by (simp add: take_bit_eq_mod)
    then have "\<not> bit a n" using False by (metis bit_take_bit_iff)
    then show ?thesis by simp
  qed
  then have "push_bit k x + a = push_bit k x OR a" by (rule disjunctive_add)
  then show ?thesis by (simp add: push_bit_eq_mult mult.commute)
qed

lemma byte_of_le: "byte_of c \<le> 255"
proof -
  have "of_char c mod 256 < (256::nat)" by (rule mod_less_divisor) simp
  then have "of_char c < (256::nat)" by (simp only: of_char_mod_256)
  then show ?thesis unfolding byte_of_def by linarith
qed

lemma frame_length_value:
  "push_bit 24 (byte_of a) OR push_bit 16 (byte_of b) OR push_bit 8 (byte_of c) OR byte_of d =
     byte_of a * 2 ^ 24 + (byte_of b * 2 ^ 16 + (byte_of c * 2 ^ 8 + byte_of d))"
proof -
  have 1: "push_bit 8 (byte_of c) OR byte_of d = byte_of c * 2 ^ 8 + byte_of d"
    using byte_of_le [of d] by (intro or_of_high_and_low) simp
  have "byte_of c * 2 ^ 8 + byte_of d < 2 ^ 16" using byte_of_le [of c] byte_of_le [of d] by simp
  then have 2: "push_bit 16 (byte_of b) OR (byte_of c * 2 ^ 8 + byte_of d) =
      byte_of b * 2 ^ 16 + (byte_of c * 2 ^ 8 + byte_of d)"
    by (rule or_of_high_and_low)
  have "byte_of b * 2 ^ 16 + (byte_of c * 2 ^ 8 + byte_of d) < 2 ^ 24"
    using byte_of_le [of b] byte_of_le [of c] byte_of_le [of d] by simp
  then show ?thesis unfolding or.assoc 1 2 by (rule or_of_high_and_low)
qed

lemma size_byte_value: "byte_of (size_byte (int n) k) = n div 2 ^ k mod 256"
proof -
  have "nat (int n div 2 ^ k mod 256) = n div 2 ^ k mod 256"
    by (simp add: nat_mod_distrib nat_div_distrib nat_power_eq pos_imp_zdiv_nonneg_iff)
  then show ?thesis by (simp add: size_byte_def byte_of_def)
qed

lemma four_bytes:
  assumes "n < 2 ^ 32"
  shows "n div 2 ^ 24 mod 256 * 2 ^ 24 + (n div 2 ^ 16 mod 256 * 2 ^ 16 + (n div 2 ^ 8 mod 256 * 2 ^ 8 + n div 2 ^ 0 mod 256)) = (n::nat)"
proof -
  define a b c where "a = n div 16777216" and "b = n div 65536" and "c = n div 256"
  have "a mod 256 = a" using assms by (simp add: a_def less_mult_imp_div_less)
  moreover have "c = b * 256 + c mod 256"
    using div_mult_mod_eq [of c 256] by (simp add: b_def c_def div_mult2_eq [symmetric])
  moreover have "b = a * 256 + b mod 256"
    using div_mult_mod_eq [of b 256] by (simp add: a_def b_def div_mult2_eq [symmetric])
  moreover have "n = c * 256 + n mod 256"
    using div_mult_mod_eq [of n 256] by (simp add: c_def)
  ultimately have "a mod 256 * 16777216 + (b mod 256 * 65536 + (c mod 256 * 256 + n mod 256)) = n"
    by linarith
  moreover have "(2::nat) ^ 24 = 16777216" "(2::nat) ^ 16 = 65536" "(2::nat) ^ 8 = 256" "(2::nat) ^ 0 = 1"
    by simp_all
  ultimately show ?thesis unfolding a_def b_def c_def by (simp only: div_by_1)
qed

text \<open>A message with its header, as \<open>encodeGrpcRequest\<close> builds it.\<close>

definition grpc_frame :: "bytes \<Rightarrow> bytes" where
  "grpc_frame m =
     (case setGrpcHeader (replicate 5 (CHR 0x00) @ m) (int (length m)) of Ret b \<Rightarrow> b | Panic \<Rightarrow> [])"

lemma grpc_frame_eq:
  "grpc_frame m = [CHR 0x00, size_byte (int (length m)) 24, size_byte (int (length m)) 16,
     size_byte (int (length m)) 8, size_byte (int (length m)) 0] @ m"
  by (simp add: grpc_frame_def setGrpcHeader_def numeral_eq_Suc)

lemma grpc_frame_length [simp]: "length (grpc_frame m) = length m + 5"
  by (simp add: grpc_frame_eq)

lemma frame_size:
  assumes "length m < 2 ^ 32" "5 \<le> k"
  shows "push_bit 24 (byte_of (take k (grpc_frame m @ r) ! 1)) OR push_bit 16 (byte_of (take k (grpc_frame m @ r) ! 2))
    OR push_bit 8 (byte_of (take k (grpc_frame m @ r) ! 3)) OR byte_of (take k (grpc_frame m @ r) ! 4) = length m"
proof -
  have "take k (grpc_frame m @ r) ! i = grpc_frame m ! i" if "i < 5" for i
    using that assms(2) by (simp add: nth_append grpc_frame_length)
  then have nth: "take k (grpc_frame m @ r) ! 1 = grpc_frame m ! 1" "take k (grpc_frame m @ r) ! 2 = grpc_frame m ! 2"
    "take k (grpc_frame m @ r) ! 3 = grpc_frame m ! 3" "take k (grpc_frame m @ r) ! 4 = grpc_frame m ! 4"
    by simp_all
  have hdr: "grpc_frame m ! 1 = size_byte (int (length m)) 24" "grpc_frame m ! 2 = size_byte (int (length m)) 16"
    "grpc_frame m ! 3 = size_byte (int (length m)) 8" "grpc_frame m ! 4 = size_byte (int (length m)) 0"
    by (simp_all add: grpc_frame_eq)
  show ?thesis unfolding nth hdr frame_length_value unfolding size_byte_value by (rule four_bytes [OF assms(1)])
qed

lemma frameRemainBuf_frame:
  assumes "length m < 2 ^ 32"
  shows "frameRemainBuf (t\<lparr>remainBuf := grpc_frame m @ r\<rparr>) = (Some m, t\<lparr>remainBuf := r\<rparr>)"
    and "k < length (grpc_frame m) \<Longrightarrow> frameRemainBuf (t\<lparr>remainBuf := take k (grpc_frame m)\<rparr>) =
      (None, t\<lparr>remainBuf := take k (grpc_frame m)\<rparr>)"
proof -
  have size: "push_bit 24 (byte_of (grpc_frame m ! 1)) OR push_bit 16 (byte_of (grpc_frame m ! 2))
      OR push_bit 8 (byte_of (grpc_frame m ! 3)) OR byte_of (grpc_frame m ! 4) = length m"
    using frame_size [OF assms, of "length (grpc_frame m)" "[]"] by simp
  have parts: "take (length m) (drop 5 (grpc_frame m @ r)) = m" by (simp add: grpc_frame_eq)
  have rest: "drop (length m + 5) (grpc_frame m @ r) = r" by simp
  show "frameRemainBuf (t\<lparr>remainBuf := grpc_frame m @ r\<rparr>) = (Some m, t\<lparr>remainBuf := r\<rparr>)"
    using parts rest by (simp add: frameRemainBuf_def Let_def nth_append size [unfolded One_nat_def])
  show "frameRemainBuf (t\<lparr>remainBuf := take k (grpc_frame m)\<rparr>) = (None, t\<lparr>remainBuf := take k (grpc_frame m)\<rparr>)"
    if "k < length (grpc_frame m)"
  proof (cases "k < 5")
    case True
    then show ?thesis using that by (simp add: frameRemainBuf_def)
  next
    case False
    then have "push_bit 24 (byte_of (take k (grpc_frame m) ! 1)) OR push_bit 16 (byte_of (take k (grpc_frame m) ! 2))
      OR push_bit 8 (byte_of (take k (grpc_frame m) ! 3)) OR byte_of (take k (grpc_frame m) ! 4) = length m"
      using frame_size [OF assms, of k "[]"] by simp
    with that False show ?thesis by (simp add: frameRemainBuf_def Let_def)
  qed
qed

text \<open>
  C22. Framing round trip: the body of a gRPC request is one frame from which the decoder of the
  response side gets the message back, leaving exactly what follows the frame; and of a frame that
  has not arrived completely it takes nothing.  This holds for every message of less than 4 GiB.
\<close>

theorem grpc_framing_roundtrip:
  assumes "length m < 2 ^ 32"
  shows "\<exists>f h'. encodeGrpcRequest path (Inr m) h = (Ret (Inr f), h') \<and>
    h' '':path'' = Some path \<and> h' ''content-length'' = None \<and>
    (\<forall>t r. frameRemainBuf (t\<lparr>remainBuf := f @ r\<rparr>) = (Some m, t\<lparr>remainBuf := r\<rparr>)) \<and>
    (\<forall>t k. k < length f \<longrightarrow>
       frameRemainBuf (t\<lparr>remainBuf := take k f\<rparr>) = (None, t\<lparr>remainBuf := take k f\<rparr>))"
proof -
  have "setGrpcHeader (replicate 5 (CHR 0x00) @ m) (int (length m)) = Ret (grpc_frame m)"
    by (simp add: setGrpcHeader_def grpc_frame_def)
  then have "fst (encodeGrpcRequest path (Inr m) h) = Ret (Inr (grpc_frame m))"
    by (simp add: encodeGrpcRequest_def Let_def)
  moreover have "snd (encodeGrpcRequest path (Inr m) h) '':path'' = Some path \<and>
      snd (encodeGrpcRequest path (Inr m) h) ''content-length'' = None"
    by (simp add: encodeGrpcRequest_def Let_def SetPath_def)
  ultimately show ?thesis
    using frameRemainBuf_frame [OF assms]
    by (intro exI [of _ "grpc_frame m"] exI [of _ "snd (encodeGrpcRequest path (Inr m) h)"])
      (auto simp: prod_eq_iff)
qed

theorem grpc_framing_roundtrip_witness:
  "\<exists>f h'. encodeGrpcRequest ''/infer'' (Inr ''hello'') Map.empty = (Ret (Inr f), h') \<and>
    frameRemainBuf \<lparr>isStream = False, remainBuf = f @ ''xy'', backendProtocol = ''triton'', chunkCount = 0\<rparr> =
      (Some ''hello'', \<lparr>isStream = False, remainBuf = ''xy'', backendProtocol = ''triton'', chunkCount = 0\<rparr>)"
proof -
  let ?t = "\<lparr>isStream = False, remainBuf = [], backendProtocol = ''triton'', chunkCount = 0\<rparr>"
  have len: "length ''hello'' < 2 ^ 32" by simp
  from grpc_framing_roundtrip [OF len, of "''/infer''" Map.empty] obtain f h' where
    "encodeGrpcRequest ''/infer'' (Inr ''hello'') Map.empty = (Ret (Inr f), h')"
    "frameRemainBuf (?t\<lparr>remainBuf := f @ ''xy''\<rparr>) = (Some ''hello'', ?t\<lparr>remainBuf := ''xy''\<rparr>)"
    by blast
  then show ?thesis by auto
qed

subsection \<open>Cutting a stream into messages\<close>

lemma split_nn_ne [simp]: "split_nn s \<noteq> []"
  by (induction s rule: split_nn.induct) (auto split: list.splits)

lemma split_nn_single: "split_nn s = [m] \<Longrightarrow> m = s"
  by (induction s arbitrary: m rule: split_nn.induct) (auto split: if_splits list.splits)

text \<open>Splitting can be resumed at the last, incomplete piece.\<close>

lemma split_nn_append: "split_nn (a @ b) = butlast (split_nn a) @ split_nn (last (split_nn a) @ b)"
proof (induction a rule: split_nn.induct)
  case (3 c d s)
  show ?case
  proof (cases "c = CHR 0x0A \<and> d = CHR 0x0A")
    case True
    with 3 show ?thesis by simp
  next
    case False
    obtain m ms where m: "split_nn (d # s) = m # ms" by (cases "split_nn (d # s)") simp_all
    show ?thesis
    proof (cases ms)
      case Nil
      with m have "m = d # s" using split_nn_single by metis
      with False m Nil have "split_nn (c # d # s) = [c # d # s]" by simp
      then show ?thesis by (simp del: split_nn.simps)
    next
      case (Cons x xs)
      have "split_nn ((d # s) @ b) = m # butlast ms @ split_nn (last ms @ b)"
        using 3(2) False m Cons by simp
      with False m Cons show ?thesis by auto
    qed
  qed
qed simp_all

lemma split_nn_last_idem: "split_nn (last (split_nn a)) = [last (split_nn a)]"
proof -
  have "split_nn (a @ []) = butlast (split_nn a) @ split_nn (last (split_nn a) @ [])" by (rule split_nn_append)
  then show ?thesis by (metis append_Nil2 append_butlast_last_id append_same_eq same_append_eq split_nn_ne)
qed

lemma replace_all_absent: "c \<notin> set s \<Longrightarrow> replace_all (c # r) new s = s"
proof (induction s)
  case Nil
  show ?case by (subst replace_all.simps) simp
next
  case (Cons x s)
  then show ?case by (subst replace_all.simps) (auto simp: has_prefix_def)
qed

lemma unify_no_CR: "CR \<notin> set s \<Longrightarrow> unifySSEChunk s = s"
  by (simp add: unifySSEChunk_def replace_all_absent)

lemma set_split_nn: "m \<in> set (split_nn s) \<Longrightarrow> set m \<subseteq> set s"
  by (induction s arbitrary: m rule: split_nn.induct) (fastforce split: if_splits list.splits)+

text \<open>A message is well-formed for the code when it is at least as long as \<open>data:\<close>.\<close>

definition payload :: "bytes \<Rightarrow> bytes" where
  "payload msg = trim_space (drop 5 msg)"

definition long_enough :: "bytes \<Rightarrow> bool" where
  "long_enough msg \<longleftrightarrow> 5 \<le> length msg"

lemma strip_messages_ok:
  "list_all long_enough ms \<Longrightarrow> strip_messages d ms = Inr (map payload ms)"
  by (induction ms) (auto simp: long_enough_def payload_def numeral_eq_Suc)

lemma strip_messages_bad:
  "\<not> list_all long_enough ms \<Longrightarrow> strip_messages d ms = Inl (''invalid SSE chunk in response: '' @ d)"
  by (induction ms) (auto simp: long_enough_def)

lemma responseMessages_stream:
  assumes "isStream t" "CR \<notin> set (remainBuf t)" "list_all long_enough (butlast (split_nn (remainBuf t)))"
  shows "responseMessages t =
    (Inr (map payload (butlast (split_nn (remainBuf t)))), t\<lparr>remainBuf := last (split_nn (remainBuf t))\<rparr>)"
  using assms by (simp add: responseMessages_def Let_def unify_no_CR strip_messages_ok)

end
