(* ===== verification/OpenAiTranscoder.thy ===== *)
theory OpenAiTranscoder
  imports CommonTranscoder LlmLog LlmConfig LbHost
begin

text \<open>
  \<^verbatim>\<open>plugins/llmproxy/transcoder/openai/openai.go\<close> and \<^verbatim>\<open>transcoder/transcoder.go\<close>: the
  transcoder of the OpenAI protocol.  It reads the model and the messages of a request, finds the
  rule of the request, and rewrites the answer of the backend, whole or as a stream of events.

  The JSON libraries are arguments (record \<open>codec\<close>): what \<^verbatim>\<open>sonic.Unmarshal\<close> makes of a
  text, \<open>None\<close> for an error, and the text \<^verbatim>\<open>json.Marshal\<close> writes, \<open>None\<close> for an error.  Of
  the request types of the OpenAI SDK the parts the code looks at are modelled, the rest of a part,
  a message or a request is carried along.
\<close>

subsection \<open>Requests\<close>

record content_part =
  part_Type :: "string option"
  part_Text :: "string option"
  part_Rest :: bytes

datatype user_content = ContentOmitted | ContentString string | ContentParts "content_part list"

record user_message =
  um_Present :: bool
  um_Role :: string
  um_Name :: "string option"
  um_Content :: user_content
  um_Rest :: bytes

record chat_param =
  OfUser :: "user_message option"
  OfOther :: bytes

record chat_params =
  p_Model :: string
  p_Messages :: "chat_param list"
  p_Stream :: bool
  p_Rest :: bytes

record prompt_context =
  IsVlModel :: bool
  PromptContent :: bytes

record request_data =
  rd_ModelName :: string
  rd_SceneName :: string
  rd_Env :: string
  rd_Cluster :: string
  rd_BackendProtocol :: string
  rd_LbOptions :: "lb_options option"
  rd_PromptContext :: "prompt_context option"

record codec =
  json_compact :: "bytes \<Rightarrow> bytes option"
  parse_params :: "bytes \<Rightarrow> string + chat_params"
  parse_chunk :: "bytes \<Rightarrow> chat_chunk option"
  parse_completion :: "bytes \<Rightarrow> chat_completion option"
  parse_error :: "bytes \<Rightarrow> llm_error_response option"
  parse_error_chunk :: "bytes \<Rightarrow> llm_error_response option"
  marshal_params :: "chat_params \<Rightarrow> bytes option"
  marshal_messages :: "chat_param list \<Rightarrow> bytes option"
  marshal_chunk :: "chat_chunk \<Rightarrow> bytes option"
  marshal_completion :: "chat_completion \<Rightarrow> bytes option"
  marshal_json :: "json \<Rightarrow> bytes option"

text \<open>\<^verbatim>\<open>pkg/simplejson/encode.go\<close>: a failure is the empty text.\<close>

definition Encode :: "('m \<Rightarrow> bytes option) \<Rightarrow> 'm \<Rightarrow> bytes" where
  "Encode marshal m = (case marshal m of Some buf \<Rightarrow> buf | None \<Rightarrow> [])"

record openai_transcoder = common_transcoder +
  t_config :: "llm_config option"
  openAiChatMessage :: chat_params
  modelName :: string
  modelVersion :: string
  splitReasoning :: bool
  metFirstChunk :: bool
  isThinking :: bool
  logItems :: log_items

definition NewOpenAITranscoder :: "llm_config option \<Rightarrow> bool \<Rightarrow> openai_transcoder" where
  "NewOpenAITranscoder config split =
     \<lparr>isStream = False, remainBuf = [], backendProtocol = [], chunkCount = 0, t_config = config,
      openAiChatMessage = \<lparr>p_Model = [], p_Messages = [], p_Stream = False, p_Rest = []\<rparr>,
      modelName = [], modelVersion = [], splitReasoning = split, metFirstChunk = False,
      isThinking = False, logItems = empty_log\<rparr>"

text \<open>A request is for a vision model when some part of a user message is not text.\<close>

definition vl_part :: "content_part \<Rightarrow> bool" where
  "vl_part p \<longleftrightarrow> part_Type p \<noteq> None \<and> part_Text p = None"

definition vl_message :: "chat_param \<Rightarrow> bool" where
  "vl_message m =
     (case OfUser m of
        None \<Rightarrow> False
      | Some u \<Rightarrow>
          (if um_Present u then
             (case um_Content u of ContentParts ps \<Rightarrow> list_ex vl_part ps | _ \<Rightarrow> False)
           else False))"

definition isVlModel :: "openai_transcoder \<Rightarrow> bool" where
  "isVlModel t = list_ex vl_message (p_Messages (openAiChatMessage t))"

definition formalize_message :: "chat_param \<Rightarrow> chat_param" where
  "formalize_message msg =
     (case OfUser msg of
        None \<Rightarrow> msg
      | Some u \<Rightarrow>
          (case um_Content u of
             ContentParts contentParts \<Rightarrow>
               \<lparr>OfUser = Some \<lparr>um_Present = True, um_Role = um_Role u, um_Name = um_Name u,
                                um_Content = ContentParts contentParts, um_Rest = []\<rparr>,
                OfOther = []\<rparr>
           | _ \<Rightarrow> msg))"

definition formalizeMessages :: "openai_transcoder \<Rightarrow> chat_param list" where
  "formalizeMessages t = map formalize_message (p_Messages (openAiChatMessage t))"

definition getPromptMessageContent :: "codec \<Rightarrow> openai_transcoder \<Rightarrow> prompt_context" where
  "getPromptMessageContent cd t =
     (if \<not> isVlModel t then
        \<lparr>IsVlModel = False, PromptContent = Encode (marshal_messages cd) (p_Messages (openAiChatMessage t))\<rparr>
      else
        \<lparr>IsVlModel = True, PromptContent = Encode (marshal_messages cd) (formalizeMessages t)\<rparr>)"

definition empty_request_data :: request_data where
  "empty_request_data =
     \<lparr>rd_ModelName = [], rd_SceneName = [], rd_Env = [], rd_Cluster = [], rd_BackendProtocol = [],
      rd_LbOptions = None, rd_PromptContext = None\<rparr>"

definition finish_request_data :: "codec \<Rightarrow> request_data \<Rightarrow> openai_transcoder \<Rightarrow> (go_error + request_data) run \<times> openai_transcoder" where
  "finish_request_data cd reqData t =
     (let reqData = reqData\<lparr>rd_PromptContext := Some (getPromptMessageContent cd t)\<rparr>;
          t = t\<lparr>logItems := (logItems t)\<lparr>li_ModelName := rd_ModelName reqData\<rparr>\<rparr>
      in (Ret (Inr reqData), t))"

definition not_exist :: "string \<Rightarrow> (go_error + request_data) run" where
  "not_exist msg = run_bind (WrapModelNotExistError (Some (ErrorString msg))) (\<lambda>e. Ret (Inl e))"

text \<open>A request that does not parse leaves the zero message behind, which nothing reads.\<close>

definition GetRequestData ::
  "codec \<Rightarrow> header_map \<Rightarrow> bytes \<Rightarrow> openai_transcoder \<Rightarrow> (go_error + request_data) run \<times> openai_transcoder" where
  "GetRequestData cd headers data t =
     (let t = t\<lparr>logItems := SetRequest (json_compact cd) data (logItems t)\<rparr> in
      case parse_params cd data of
        Inl err \<Rightarrow> (Ret (Inl (ErrorString err)), t)
      | Inr msg \<Rightarrow>
          (let t = t\<lparr>openAiChatMessage := msg\<rparr> in
           if length (p_Messages msg) = 0 then (Ret (Inl (ErrorString ''messages is empty'')), t)
           else if p_Model msg = [] then (Ret (Inl (ErrorString ''model is empty'')), t)
           else
             (case t_config t of
                None \<Rightarrow> finish_request_data cd empty_request_data t
              | Some config \<Rightarrow>
                  (if length (ModelMappings config) > 0 then
                     (let targetModelTuple = GetModelMappings (ModelMappings config) (p_Model msg) in
                      if length targetModelTuple = 0
                      then (not_exist (''model '' @ p_Model msg @ '' not exist''), t)
                      else
                        (case GetCandidateRule targetModelTuple headers of
                           None \<Rightarrow>
                             (not_exist (''request can not match route in model '' @ p_Model msg @ '' rule''), t)
                         | Some targetModel \<Rightarrow>
                             (let t = t\<lparr>modelName := r_SceneName targetModel, modelVersion := r_ChainName targetModel\<rparr>
                              in finish_request_data cd
                                   (empty_request_data
                                      \<lparr>rd_ModelName := p_Model msg, rd_SceneName := r_SceneName targetModel,
                                       rd_BackendProtocol := r_Backend targetModel, rd_Cluster := r_Cluster targetModel,
                                       rd_LbOptions := NewLoadBalancerOptions (r_RouteName targetModel)
                                         (r_Headers targetModel) (r_Subset targetModel)\<rparr>) t)))
                   else finish_request_data cd empty_request_data t))))"

text \<open>Backends that speak HTTP get the client's body; the gRPC branch sends no message.\<close>

definition plain_backend :: "string \<Rightarrow> bool" where
  "plain_backend backend \<longleftrightarrow> backend = SglangBackend \<or> backend = VllmBackend \<or> backend = TensorRTBackend"

definition EncodeRequest ::
  "(bytes \<Rightarrow> go_error option) \<Rightarrow> string \<Rightarrow> string \<Rightarrow> request_headers \<Rightarrow> bytes \<Rightarrow> openai_transcoder
     \<Rightarrow> (go_error + bool) run \<times> request_headers \<times> bytes \<times> openai_transcoder" where
  "EncodeRequest buffer_set model backend headers buffer t =
     (let stream = p_Stream (openAiChatMessage t);
          t = t\<lparr>isStream := stream, backendProtocol := backend\<rparr>
      in if plain_backend backend then (Ret (Inr stream), headers, buffer, t)
         else
           (case encodeGrpcRequest [] (Inr []) headers of
              (Panic, h) \<Rightarrow> (Panic, h, buffer, t)
            | (Ret (Inl err), h) \<Rightarrow> (Ret (Inl err), h, buffer, t)
            | (Ret (Inr b), h) \<Rightarrow>
                (case buffer_set b of
                   Some err \<Rightarrow> (Ret (Inl err), h, buffer, t)
                 | None \<Rightarrow> (Ret (Inr stream), h, b, t))))"

definition convertOpenAiBody :: "codec \<Rightarrow> string \<Rightarrow> openai_transcoder \<Rightarrow> bytes \<times> openai_transcoder" where
  "convertOpenAiBody cd model t =
     (let t = t\<lparr>openAiChatMessage := (openAiChatMessage t)\<lparr>p_Model := model\<rparr>\<rparr>
      in (Encode (marshal_params cd) (openAiChatMessage t), t))"

subsection \<open>Reasoning content\<close>

definition ThinkStart :: string where "ThinkStart = ''<think>''"
definition ThinkEnd :: string where "ThinkEnd = ''</think>''"

text \<open>
  The slices are in range: in a text that starts with the start tag the end tag is found behind it
  (lemma \<open>think_end_behind\<close> below).
\<close>

definition extractReasoningContent :: "string \<Rightarrow> string \<times> string" where
  "extractReasoningContent txt =
     (if has_prefix txt ThinkStart then
        (case str_index txt ThinkEnd of
           Some k \<Rightarrow> (drop (k + length ThinkEnd) txt, take (k - length ThinkStart) (drop (length ThinkStart) txt))
         | None \<Rightarrow> ([], drop (length ThinkStart) txt))
      else (txt, []))"

definition extractReasoningContentFromChunk ::
  "string \<Rightarrow> openai_transcoder \<Rightarrow> (string option \<times> string option) \<times> openai_transcoder" where
  "extractReasoningContentFromChunk chunk t =
     (let first = (\<not> metFirstChunk t \<and> chunk \<noteq> []);
          t = (if first then t\<lparr>metFirstChunk := True\<rparr> else t)
      in if first \<and> has_prefix chunk ThinkStart then
           (let t = t\<lparr>isThinking := True\<rparr> in
            case str_index chunk ThinkEnd of
              Some k \<Rightarrow>
                (let t = t\<lparr>isThinking := False\<rparr>;
                     reasoningContent = take (k - length ThinkStart) (drop (length ThinkStart) chunk);
                     content = drop (k + length ThinkEnd) chunk
                 in if content = [] then ((None, Some reasoningContent), t)
                    else ((Some content, Some reasoningContent), t))
            | None \<Rightarrow> ((None, Some (drop (length ThinkStart) chunk)), t))
         else if \<not> isThinking t then ((Some chunk, None), t)
         else
           (case str_index chunk ThinkEnd of
              Some k \<Rightarrow>
                (let t = t\<lparr>isThinking := False\<rparr>;
                     reasoningContent = take k chunk;
                     content = drop (k + length ThinkEnd) chunk
                 in if reasoningContent = [] then ((Some content, None), t)
                    else ((Some content, Some reasoningContent), t))
            | None \<Rightarrow> ((None, Some chunk), t)))"

definition convert_choice :: "chat_choice \<Rightarrow> chat_choice" where
  "convert_choice choice =
     (if m_ReasoningContent (ch_Message choice) = [] \<and> m_Content (ch_Message choice) \<noteq> [] then
        (let (content, reasoning) = extractReasoningContent (m_Content (ch_Message choice))
         in choice\<lparr>ch_Message := (ch_Message choice)\<lparr>m_Content := content, m_ReasoningContent := reasoning\<rparr>\<rparr>)
      else choice)"

definition convertOpenAIChatCompletion :: "chat_completion \<Rightarrow> openai_transcoder \<Rightarrow> chat_completion" where
  "convertOpenAIChatCompletion r t =
     r\<lparr>cc_Id := p_Model (openAiChatMessage t) @ ''-'' @ ''TODO'', cc_Model := p_Model (openAiChatMessage t),
       cc_Choices := map convert_choice (cc_Choices r)\<rparr>"

fun convert_chunk_choices ::
  "chunk_choice list \<Rightarrow> openai_transcoder \<Rightarrow> chunk_choice list \<times> openai_transcoder" where
  "convert_chunk_choices [] t = ([], t)"
| "convert_chunk_choices (choice # rest) t =
     (let (choice, t) =
        (case d_Content (kc_Delta choice) of
           Some out \<Rightarrow>
             (if d_ReasoningContent (kc_Delta choice) = None \<or> d_ReasoningContent (kc_Delta choice) = Some [] then
                (let ((content, reasoning), t) = extractReasoningContentFromChunk out t
                 in (choice\<lparr>kc_Delta := (kc_Delta choice)\<lparr>d_Content := content, d_ReasoningContent := reasoning\<rparr>\<rparr>, t))
              else (choice, t))
         | None \<Rightarrow> (choice, t));
          (rest, t) = convert_chunk_choices rest t
      in (choice # rest, t))"

definition convertOpenAIChatCompletionChunk ::
  "chat_chunk \<Rightarrow> openai_transcoder \<Rightarrow> chat_chunk \<times> openai_transcoder" where
  "convertOpenAIChatCompletionChunk r t =
     (let r = r\<lparr>k_Id := p_Model (openAiChatMessage t) @ ''-'' @ ''TODO'', k_Model := p_Model (openAiChatMessage t)\<rparr>;
          (choices, t) = convert_chunk_choices (k_Choices r) t
      in (r\<lparr>k_Choices := choices\<rparr>, t))"

subsection \<open>Responses\<close>

definition DONE :: bytes where "DONE = ''[DONE]''"

definition sse_event :: "bytes \<Rightarrow> bytes" where
  "sse_event b = ''data: '' @ b @ [LF, LF]"

definition FirstChunkError :: string where "FirstChunkError = ''First chunk error''"

text \<open>
  The loop over the messages of a stream.  An answer is the output, nil if nothing was appended to
  it, and an error.
\<close>

fun message_loop ::
  "codec \<Rightarrow> bytes list \<Rightarrow> bytes \<Rightarrow> openai_transcoder \<Rightarrow> (bytes option \<times> go_error option) \<times> openai_transcoder" where
  "message_loop cd [] outputs t = ((if outputs = [] then None else Some outputs, None), t)"
| "message_loop cd (msg # rest) outputs t =
     (let t = t\<lparr>chunkCount := chunkCount t + 1\<rparr> in
      if msg = DONE then message_loop cd rest (outputs @ sse_event msg) t
      else
        (case (case parse_chunk cd msg of Some r \<Rightarrow> if k_Object r \<noteq> [] then Some r else None | None \<Rightarrow> None) of
           Some r \<Rightarrow>
             (let (output, r, t) =
                (if splitReasoning t then
                   (let (r, t) = convertOpenAIChatCompletionChunk r t in (Encode (marshal_chunk cd) r, r, t))
                 else (msg, r, t));
                  t = t\<lparr>logItems := AppendManualOpenAIChunkResponse (Some r) (logItems t)\<rparr>
              in message_loop cd rest (outputs @ sse_event output) t)
         | None \<Rightarrow>
             (case (case parse_error_chunk cd msg of Some e \<Rightarrow> if le_object e \<noteq> [] then Some e else None | None \<Rightarrow> None) of
                Some e \<Rightarrow>
                  (let t = t\<lparr>logItems := SetErrorMessage (le_message e) (logItems t)\<rparr> in
                   if chunkCount t = 1 then
                     ((Some (Encode (marshal_json cd) (JObj (marshal_error_response e))),
                       Some (ErrorString FirstChunkError)), t)
                   else message_loop cd rest (outputs @ sse_event msg) t)
              | None \<Rightarrow> message_loop cd rest (outputs @ sse_event msg) t)))"

definition convertOpenAiResp ::
  "codec \<Rightarrow> bytes \<Rightarrow> openai_transcoder \<Rightarrow> (bytes option \<times> go_error option) \<times> openai_transcoder" where
  "convertOpenAiResp cd data t =
     (if isStream t then
        (let t = (if length (remainBuf t) = 0 then t\<lparr>remainBuf := data\<rparr>
                  else t\<lparr>remainBuf := remainBuf t @ data\<rparr>)
         in case responseMessages t of
              (Inl err, t) \<Rightarrow> ((None, Some (ErrorString err)), t)
            | (Inr messages, t) \<Rightarrow> message_loop cd messages [] t)
      else
        (case (case parse_completion cd data of
                 Some r \<Rightarrow> if cc_Object r \<noteq> [] \<and> cc_Object r \<noteq> ''error'' then Some r else None
               | None \<Rightarrow> None) of
           Some r \<Rightarrow>
             (let (output, r) =
                (if splitReasoning t then
                   (let r = convertOpenAIChatCompletion r t in (Encode (marshal_completion cd) r, r))
                 else (data, r))
              in ((Some output, None), t\<lparr>logItems := AppendManualOpenAIResponse (Some r) (logItems t)\<rparr>))
         | None \<Rightarrow>
             (case (case parse_error cd data of Some e \<Rightarrow> if le_object e \<noteq> [] then Some e else None | None \<Rightarrow> None) of
                Some e \<Rightarrow> ((Some data, None), t\<lparr>logItems := SetErrorMessage (le_message e) (logItems t)\<rparr>)
              | None \<Rightarrow> ((Some data, None), t))))"

text \<open>
  The frames of a gRPC answer.  The loop takes frame after frame until it finds none or an empty
  one; \<open>output\<close> is the unset result of the function.
\<close>

lemma frameRemainBuf_shrinks:
  "frameRemainBuf t = (Some b, t') \<Longrightarrow> length (remainBuf t') < length (remainBuf t)"
  by (auto simp: frameRemainBuf_def Let_def split: if_splits)

function frame_loop :: "bytes option \<Rightarrow> bytes option \<Rightarrow> openai_transcoder \<Rightarrow> bytes option \<times> openai_transcoder" where
  "frame_loop output outputBuf t =
     (case frameRemainBuf t of
        (None, t') \<Rightarrow> (outputBuf, t')
      | (Some grpcBuf, t') \<Rightarrow>
          (if length grpcBuf = 0 then (outputBuf, t')
           else
             (case outputBuf of
                None \<Rightarrow> frame_loop output output t'
              | Some b \<Rightarrow> frame_loop output (Some (b @ (case output of None \<Rightarrow> [] | Some x \<Rightarrow> x))) t')))"
  by pat_completeness auto
termination
  by (relation "measure (\<lambda>(x, y, t). length (remainBuf t))") (auto dest: frameRemainBuf_shrinks [OF sym])

declare frame_loop.simps [simp del]

definition GetResponseData ::
  "codec \<Rightarrow> bytes \<Rightarrow> openai_transcoder \<Rightarrow> (bytes option \<times> go_error option) \<times> openai_transcoder" where
  "GetResponseData cd data t =
     (if plain_backend (backendProtocol t) then convertOpenAiResp cd data t
      else
        (let t = (if length (remainBuf t) = 0 then t\<lparr>remainBuf := data\<rparr>
                  else t\<lparr>remainBuf := remainBuf t @ data\<rparr>);
             (outputBuf, t) = frame_loop None None t
         in ((outputBuf, None), t)))"

definition GetLLMLogItems :: "openai_transcoder \<Rightarrow> log_items" where
  "GetLLMLogItems t = logItems t"

text \<open>
  A text of fixed length standing for an attachment: the hexadecimal digest of the input repeated.
  The digest is the argument \<open>sha256_hex\<close>; repeating an empty digest would divide by zero.
\<close>

definition DefaultHashSpaceLength :: nat where "DefaultHashSpaceLength = 4096"

definition VlType2HashSpaceLength :: "string \<Rightarrow> nat option" where
  "VlType2HashSpaceLength =
     map_of [(''image_url'', 4096), (''video_url'', 4096 * 2), (''input_audio'', 4096 * 10)]"

definition mapToFixedHashSpace :: "(bytes \<Rightarrow> string) \<Rightarrow> bytes \<Rightarrow> string \<Rightarrow> string" where
  "mapToFixedHashSpace sha256_hex input vlType =
     (let hashLength = (case VlType2HashSpaceLength vlType of Some n \<Rightarrow> n | None \<Rightarrow> DefaultHashSpaceLength);
          hashStr = sha256_hex input
      in take hashLength (concat (replicate ((hashLength + length hashStr - 1) div length hashStr) hashStr)))"

subsection \<open>Streaming and whole answers split reasoning alike\<close>

lemma str_index_append: "str_index w p = Some k \<Longrightarrow> str_index (w @ r) p = Some k" if "p \<noteq> []"
proof (induction w arbitrary: k)
  case (Cons c w)
  show ?case
  proof (cases "has_prefix (c # w) p")
    case True
    then obtain q where "c # w = p @ q" unfolding has_prefix_split by blast
    then have "(c # w) @ r = p @ (q @ r)" by (simp only: append_assoc)
    then have "has_prefix ((c # w) @ r) p" unfolding has_prefix_split by blast
    with True Cons.prems show ?thesis by simp
  next
    case False
    with Cons.prems obtain j where j: "str_index w p = Some j" "k = Suc j" by auto
    have "\<not> has_prefix (c # w @ r) p"
    proof
      assume a: "has_prefix (c # w @ r) p"
      have "j + length p \<le> length w" using str_index_Some [OF j(1)] by simp
      then have "take (length p) (c # w @ r) = take (length p) (c # w)"
        using take_append [of "length p" "c # w" r] by simp
      with a False show False by (simp add: has_prefix_def)
    qed
    with Cons.IH [OF j(1)] j(2) show ?thesis by simp
  qed
qed (use that in simp)

lemma str_index_skip:
  "str_index (w @ r) p = Some k \<Longrightarrow> length w \<le> k \<Longrightarrow> str_index r p = Some (k - length w)" if "p \<noteq> []"
  by (induction w arbitrary: k) (auto split: if_splits)

lemma str_index_within:
  assumes "p \<noteq> []" "str_index (w @ r) p = Some k" "k + length p \<le> length w"
  shows "str_index w p = Some k"
proof (cases "str_index w p")
  case None
  have "take (length p) (drop k w) = p"
    using str_index_Some [OF assms(2)] assms(3) by simp
  then have "w = take k w @ p @ drop (k + length p) w"
    by (metis append_take_drop_id drop_drop add.commute)
  with str_index_None [OF None] show ?thesis by blast
next
  case (Some j)
  from str_index_append [OF assms(1) this, of r] assms(2) Some show ?thesis by simp
qed

lemma think_end_behind:
  assumes "has_prefix txt ThinkStart" "str_index txt ThinkEnd = Some k"
  shows "length ThinkStart \<le> k"
proof (rule ccontr)
  assume "\<not> length ThinkStart \<le> k"
  then have k: "k < 7" by (simp add: ThinkStart_def)
  obtain r where r: "txt = ''<think>'' @ r" using assms(1) by (auto simp: has_prefix_split ThinkStart_def)
  have "drop k txt ! 1 = CHR ''/''" "drop k txt ! 0 = CHR ''<''"
  proof -
    have "take 8 (drop k txt) = ''</think>''" using str_index_Some [OF assms(2)] by (simp add: ThinkEnd_def numeral_eq_Suc)
    then have "take 8 (drop k txt) ! 1 = CHR ''/''" "take 8 (drop k txt) ! 0 = CHR ''<''" by simp_all
    then show "drop k txt ! 1 = CHR ''/''" "drop k txt ! 0 = CHR ''<''" by simp_all
  qed
  then have "txt ! (k + 1) = CHR ''/''" "txt ! k = CHR ''<''"
    using str_index_Some [OF assms(2)] by (simp_all add: ThinkEnd_def)
  moreover from k have "k = 0 \<or> k = 1 \<or> k = 2 \<or> k = 3 \<or> k = 4 \<or> k = 5 \<or> k = 6" by linarith
  ultimately show False by (elim disjE) (simp_all add: r)
qed

text \<open>
  The contents of a stream, chunk by chunk, and what the transcoder makes of them; the tag at
  position \<open>k\<close> is unbroken when one chunk holds all of it.
\<close>

fun split_chunks :: "string list \<Rightarrow> openai_transcoder \<Rightarrow> (string option \<times> string option) list \<times> openai_transcoder" where
  "split_chunks [] t = ([], t)"
| "split_chunks (w # ws) t =
     (let (o1, t) = extractReasoningContentFromChunk w t; (os, t) = split_chunks ws t in (o1 # os, t))"

definition contents_of :: "(string option \<times> string option) list \<Rightarrow> string" where
  "contents_of os = concat (map (\<lambda>(c, r). case c of None \<Rightarrow> [] | Some x \<Rightarrow> x) os)"

definition reasonings_of :: "(string option \<times> string option) list \<Rightarrow> string" where
  "reasonings_of os = concat (map (\<lambda>(c, r). case r of None \<Rightarrow> [] | Some x \<Rightarrow> x) os)"

definition unbroken_at :: "nat \<Rightarrow> string \<Rightarrow> string list \<Rightarrow> bool" where
  "unbroken_at k tag ws \<longleftrightarrow>
     (\<exists>us w vs. ws = us @ w # vs \<and> length (concat us) \<le> k \<and> k + length tag \<le> length (concat us) + length w)"

lemma parts_of_simps [simp]:
  "contents_of [] = []" "reasonings_of [] = []"
  "contents_of ((c, r) # os) = (case c of None \<Rightarrow> [] | Some x \<Rightarrow> x) @ contents_of os"
  "reasonings_of ((c, r) # os) = (case r of None \<Rightarrow> [] | Some x \<Rightarrow> x) @ reasonings_of os"
  by (simp_all add: contents_of_def reasonings_of_def)

lemma unbroken_at_Cons:
  assumes "unbroken_at k tag (w # ws)" "\<not> k + length tag \<le> length w" "tag \<noteq> []"
  shows "length w \<le> k \<and> unbroken_at (k - length w) tag ws"
proof -
  obtain us x vs where s: "w # ws = us @ x # vs" "length (concat us) \<le> k"
      "k + length tag \<le> length (concat us) + length x"
    using assms(1) by (auto simp: unbroken_at_def)
  show ?thesis
  proof (cases us)
    case Nil
    with s assms(2) show ?thesis by simp
  next
    case (Cons u us')
    with s have "ws = us' @ x # vs" "length w + length (concat us') \<le> k"
      "k + length tag \<le> length w + length (concat us') + length x" by simp_all
    then show ?thesis unfolding unbroken_at_def by (intro conjI exI [of _ us'] exI [of _ x] exI [of _ vs]) simp_all
  qed
qed

lemma split_plain:
  "metFirstChunk t \<Longrightarrow> \<not> isThinking t \<Longrightarrow>
    contents_of (fst (split_chunks ws t)) = concat ws \<and> reasonings_of (fst (split_chunks ws t)) = [] \<and>
    snd (split_chunks ws t) = t"
  by (induction ws) (auto simp: extractReasoningContentFromChunk_def Let_def split: prod.splits)

lemma tags_ne [simp]: "ThinkStart \<noteq> []" "ThinkEnd \<noteq> []"
  by (simp_all add: ThinkStart_def ThinkEnd_def)

text \<open>A tag that is unbroken and not in the first chunk is found in the rest.\<close>

lemma tag_in_rest:
  assumes none: "str_index w tag = None" and ne: "tag \<noteq> []"
    and un: "\<And>k. str_index (w @ concat ws) tag = Some k \<Longrightarrow> unbroken_at k tag (w # ws)"
  shows "str_index (w @ concat ws) tag = map_option (\<lambda>j. length w + j) (str_index (concat ws) tag) \<and>
    (\<forall>j. str_index (concat ws) tag = Some j \<longrightarrow> unbroken_at j tag ws)"
proof -
  have skip: "length w \<le> k \<and> unbroken_at (k - length w) tag ws \<and> str_index (concat ws) tag = Some (k - length w)"
    if k: "str_index (w @ concat ws) tag = Some k" for k
  proof -
    have "\<not> k + length tag \<le> length w"
      using str_index_within [OF ne, of w "concat ws" k] k none by auto
    from unbroken_at_Cons [OF un [OF k] this ne] str_index_skip [OF ne, of w "concat ws" k] k
    show ?thesis by simp
  qed
  show ?thesis
  proof (cases "str_index (w @ concat ws) tag")
    case None
    have "str_index (concat ws) tag = None"
    proof (rule ccontr)
      assume "str_index (concat ws) tag \<noteq> None"
      then obtain j where j: "str_index (concat ws) tag = Some j" by blast
      from str_index_None [OF None, of "w @ take j (concat ws)" "drop (j + length tag) (concat ws)"]
        str_index_split [OF j] show False by simp
    qed
    with None show ?thesis by simp
  next
    case (Some k)
    from skip [OF Some] Some show ?thesis by simp
  qed
qed

definition split_at_end :: "string \<Rightarrow> string \<times> string" where
  "split_at_end txt =
     (case str_index txt ThinkEnd of
        Some k \<Rightarrow> (drop (k + length ThinkEnd) txt, take k txt)
      | None \<Rightarrow> ([], txt))"

lemma split_at_end_rest:
  assumes "str_index w ThinkEnd = None"
    and "\<And>k. str_index (w @ concat ws) ThinkEnd = Some k \<Longrightarrow> unbroken_at k ThinkEnd (w # ws)"
  shows "split_at_end (w @ concat ws) = (fst (split_at_end (concat ws)), w @ snd (split_at_end (concat ws)))"
  using tag_in_rest [OF assms(1) tags_ne(2), of ws] assms(2)
  by (auto simp: split_at_end_def split: option.splits)

lemma split_thinking:
  assumes "metFirstChunk t" "isThinking t"
    and "\<And>k. str_index (concat ws) ThinkEnd = Some k \<Longrightarrow> unbroken_at k ThinkEnd ws"
  shows "contents_of (fst (split_chunks ws t)) = fst (split_at_end (concat ws)) \<and>
    reasonings_of (fst (split_chunks ws t)) = snd (split_at_end (concat ws))"
  using assms
proof (induction ws)
  case Nil
  then show ?case by (simp add: split_at_end_def ThinkEnd_def)
next
  case (Cons w ws)
  have un: "\<And>k. str_index (w @ concat ws) ThinkEnd = Some k \<Longrightarrow> unbroken_at k ThinkEnd (w # ws)"
    using Cons.prems(3) by simp
  show ?case
  proof (cases "str_index w ThinkEnd")
    case (Some k)
    have "metFirstChunk (t\<lparr>isThinking := False\<rparr>)" "\<not> isThinking (t\<lparr>isThinking := False\<rparr>)"
      using Cons.prems(1) by simp_all
    from split_plain [OF this, of ws] show ?thesis
      using Cons.prems(1,2) Some str_index_Some [OF Some] str_index_append [OF tags_ne(2) Some, of "concat ws"]
      by (auto simp: extractReasoningContentFromChunk_def split_at_end_def Let_def split: prod.splits)
  next
    case None
    have "contents_of (fst (split_chunks ws t)) = fst (split_at_end (concat ws)) \<and>
        reasonings_of (fst (split_chunks ws t)) = snd (split_at_end (concat ws))"
      using tag_in_rest [OF None tags_ne(2), of ws] un by (intro Cons.IH [OF Cons.prems(1,2)]) blast
    moreover have "extractReasoningContentFromChunk w t = ((None, Some w), t)"
      using Cons.prems(1,2) None by (simp add: extractReasoningContentFromChunk_def)
    ultimately show ?thesis
      using split_at_end_rest [OF None un] by (simp add: Let_def case_prod_unfold)
  qed
qed

lemma extract_by_end:
  assumes "has_prefix w ThinkStart"
  shows "extractReasoningContent w =
    (fst (split_at_end w), drop (length ThinkStart) (snd (split_at_end w)))"
  using assms think_end_behind [OF assms]
  by (auto simp: extractReasoningContent_def split_at_end_def drop_take split: option.splits)

text \<open>The first piece with text decides: it holds the whole start tag, or there is none.\<close>

lemma split_first_piece:
  assumes "\<not> metFirstChunk t" "\<not> isThinking t" "w \<noteq> []"
    and "has_prefix (concat (w # ws)) ThinkStart \<Longrightarrow> unbroken_at 0 ThinkStart (w # ws)"
    and "\<And>k. has_prefix (concat (w # ws)) ThinkStart \<Longrightarrow> str_index (concat (w # ws)) ThinkEnd = Some k \<Longrightarrow>
      unbroken_at k ThinkEnd (w # ws)"
  shows "(contents_of (fst (split_chunks (w # ws) t)), reasonings_of (fst (split_chunks (w # ws) t))) =
    extractReasoningContent (concat (w # ws))"
proof -
  note assms(1-3) [simp]
  show ?thesis
  proof (cases "has_prefix w ThinkStart")
    case plain: False
    have "\<not> has_prefix (w @ concat ws) ThinkStart"
    proof
      assume a: "has_prefix (w @ concat ws) ThinkStart"
      then have "has_prefix (concat (w # ws)) ThinkStart" by simp
      from unbroken_at_Cons [OF assms(4) [OF this]] have "length ThinkStart \<le> length w" by auto
      with a have "has_prefix w ThinkStart" by (simp add: has_prefix_def)
      with plain show False by simp
    qed
    with split_plain [of "t\<lparr>metFirstChunk := True\<rparr>" ws] plain show ?thesis
      by (auto simp: extractReasoningContentFromChunk_def extractReasoningContent_def Let_def split: prod.splits)
  next
    case start: True
    then have pre: "has_prefix (w @ concat ws) ThinkStart" unfolding has_prefix_split by auto
    have long: "length ThinkStart \<le> length w" using start unfolding has_prefix_split by auto
    show ?thesis
    proof (cases "str_index w ThinkEnd")
      case (Some k)
      with split_plain [of "t\<lparr>metFirstChunk := True, isThinking := False\<rparr>" ws] pre start long
        str_index_Some [OF Some] str_index_append [OF tags_ne(2) Some, of "concat ws"]
      show ?thesis
        by (auto simp: extractReasoningContentFromChunk_def extractReasoningContent_def Let_def
            split: prod.splits)
    next
      case None
      let ?t = "t\<lparr>metFirstChunk := True, isThinking := True\<rparr>"
      have un: "\<And>k. str_index (w @ concat ws) ThinkEnd = Some k \<Longrightarrow> unbroken_at k ThinkEnd (w # ws)"
        using assms(5) pre by simp
      have "contents_of (fst (split_chunks ws ?t)) = fst (split_at_end (concat ws)) \<and>
          reasonings_of (fst (split_chunks ws ?t)) = snd (split_at_end (concat ws))"
        using tag_in_rest [OF None tags_ne(2), of ws] un by (intro split_thinking) auto
      moreover have "extractReasoningContentFromChunk w t = ((None, Some (drop (length ThinkStart) w)), ?t)"
        using None start by (simp add: extractReasoningContentFromChunk_def)
      ultimately show ?thesis
        using split_at_end_rest [OF None un] long extract_by_end [OF pre]
        by (simp add: Let_def case_prod_unfold)
    qed
  qed
qed

lemma split_first:
  assumes "\<not> metFirstChunk t" "\<not> isThinking t"
    and "has_prefix (concat ws) ThinkStart \<Longrightarrow> unbroken_at 0 ThinkStart ws"
    and "\<And>k. has_prefix (concat ws) ThinkStart \<Longrightarrow> str_index (concat ws) ThinkEnd = Some k \<Longrightarrow>
      unbroken_at k ThinkEnd ws"
  shows "(contents_of (fst (split_chunks ws t)), reasonings_of (fst (split_chunks ws t))) =
    extractReasoningContent (concat ws)"
  using assms
proof (induction ws)
  case Nil
  then show ?case by (simp add: extractReasoningContent_def has_prefix_def ThinkStart_def)
next
  case (Cons w ws)
  show ?case
  proof (cases "w = []")
    case True
    have "(contents_of (fst (split_chunks ws t)), reasonings_of (fst (split_chunks ws t))) =
        extractReasoningContent (concat ws)"
    proof (rule Cons.IH [OF Cons.prems(1,2)])
      show "unbroken_at 0 ThinkStart ws" if "has_prefix (concat ws) ThinkStart"
        using Cons.prems(3) that True unbroken_at_Cons [of 0 ThinkStart w ws]
        by (simp add: ThinkStart_def)
      show "unbroken_at k ThinkEnd ws"
        if "has_prefix (concat ws) ThinkStart" "str_index (concat ws) ThinkEnd = Some k" for k
        using Cons.prems(4) that True unbroken_at_Cons [of k ThinkEnd w ws] by (simp add: ThinkEnd_def)
    qed
    with True Cons.prems(1,2) show ?thesis
      by (auto simp: extractReasoningContentFromChunk_def Let_def split: prod.splits)
  next
    case False
    with Cons.prems show ?thesis by (intro split_first_piece) auto
  qed
qed

lemma extract_from_chunk_upd [simp]:
  "extractReasoningContentFromChunk w (t\<lparr>logItems := l\<rparr>) =
     (fst (extractReasoningContentFromChunk w t), (snd (extractReasoningContentFromChunk w t))\<lparr>logItems := l\<rparr>)"
  "extractReasoningContentFromChunk w (t\<lparr>chunkCount := n\<rparr>) =
     (fst (extractReasoningContentFromChunk w t), (snd (extractReasoningContentFromChunk w t))\<lparr>chunkCount := n\<rparr>)"
  "extractReasoningContentFromChunk w (t\<lparr>remainBuf := b\<rparr>) =
     (fst (extractReasoningContentFromChunk w t), (snd (extractReasoningContentFromChunk w t))\<lparr>remainBuf := b\<rparr>)"
  by (simp_all add: extractReasoningContentFromChunk_def Let_def split: option.splits)

lemma extract_from_chunk_keeps [simp]:
  "splitReasoning (snd (extractReasoningContentFromChunk w t)) = splitReasoning t"
  "logItems (snd (extractReasoningContentFromChunk w t)) = logItems t"
  "openAiChatMessage (snd (extractReasoningContentFromChunk w t)) = openAiChatMessage t"
  "chunkCount (snd (extractReasoningContentFromChunk w t)) = chunkCount t"
  by (simp_all add: extractReasoningContentFromChunk_def Let_def split: option.splits)

lemma split_chunks_upd [simp]:
  "fst (split_chunks ws (t\<lparr>logItems := l\<rparr>)) = fst (split_chunks ws t)"
  "fst (split_chunks ws (t\<lparr>chunkCount := n\<rparr>)) = fst (split_chunks ws t)"
  by (induction ws arbitrary: t) (simp_all add: Let_def case_prod_unfold)

text \<open>A chunk that carries one piece of text: one choice, with content and no reasoning.\<close>

definition text_chunk :: "chat_chunk \<Rightarrow> string \<Rightarrow> bool" where
  "text_chunk k w \<longleftrightarrow> k_Object k \<noteq> [] \<and>
     (\<exists>choice. k_Choices k = [choice] \<and> d_Content (kc_Delta choice) = Some w \<and>
        (d_ReasoningContent (kc_Delta choice) = None \<or> d_ReasoningContent (kc_Delta choice) = Some []))"

lemma convert_text_chunk:
  assumes "text_chunk k w"
  shows "snd (convertOpenAIChatCompletionChunk k t) = snd (extractReasoningContentFromChunk w t)"
    and "GetResponse (AppendManualOpenAIChunkResponse (Some (fst (convertOpenAIChatCompletionChunk k t))) l) =
      GetResponse l @ (case fst (fst (extractReasoningContentFromChunk w t)) of None \<Rightarrow> [] | Some x \<Rightarrow> x)"
    and "GetThinkingResponse (AppendManualOpenAIChunkResponse (Some (fst (convertOpenAIChatCompletionChunk k t))) l) =
      GetThinkingResponse l @ (case snd (fst (extractReasoningContentFromChunk w t)) of None \<Rightarrow> [] | Some x \<Rightarrow> x)"
proof -
  obtain choice where c: "k_Choices k = [choice]" "d_Content (kc_Delta choice) = Some w"
    "d_ReasoningContent (kc_Delta choice) = None \<or> d_ReasoningContent (kc_Delta choice) = Some []"
    using assms by (auto simp: text_chunk_def)
  show "snd (convertOpenAIChatCompletionChunk k t) = snd (extractReasoningContentFromChunk w t)"
    "GetResponse (AppendManualOpenAIChunkResponse (Some (fst (convertOpenAIChatCompletionChunk k t))) l) =
      GetResponse l @ (case fst (fst (extractReasoningContentFromChunk w t)) of None \<Rightarrow> [] | Some x \<Rightarrow> x)"
    "GetThinkingResponse (AppendManualOpenAIChunkResponse (Some (fst (convertOpenAIChatCompletionChunk k t))) l) =
      GetThinkingResponse l @ (case snd (fst (extractReasoningContentFromChunk w t)) of None \<Rightarrow> [] | Some x \<Rightarrow> x)"
    using c by (simp_all add: convertOpenAIChatCompletionChunk_def case_prod_unfold Let_def choice_text_def choice_thought_def)
qed

definition carries :: "codec \<Rightarrow> bytes \<Rightarrow> string \<Rightarrow> bool" where
  "carries cd msg w \<longleftrightarrow> msg \<noteq> DONE \<and> (\<exists>k. parse_chunk cd msg = Some k \<and> text_chunk k w)"

lemma message_loop_text:
  assumes "list_all2 (carries cd) msgs ws" "splitReasoning t"
  shows "snd (fst (message_loop cd msgs out t)) = None \<and>
    GetResponse (logItems (snd (message_loop cd msgs out t))) =
      GetResponse (logItems t) @ contents_of (fst (split_chunks ws t)) \<and>
    GetThinkingResponse (logItems (snd (message_loop cd msgs out t))) =
      GetThinkingResponse (logItems t) @ reasonings_of (fst (split_chunks ws t))"
  using assms
proof (induction msgs ws arbitrary: out t rule: list_all2_induct)
  case Nil
  then show ?case by simp
next
  case (Cons msg msgs w ws)
  obtain k where k: "msg \<noteq> DONE" "parse_chunk cd msg = Some k" "text_chunk k w"
    using Cons.hyps(1) by (auto simp: carries_def)
  let ?t = "t\<lparr>chunkCount := chunkCount t + 1\<rparr>"
  let ?r = "convertOpenAIChatCompletionChunk k ?t"
  let ?u = "(snd ?r)\<lparr>logItems := AppendManualOpenAIChunkResponse (Some (fst ?r)) (logItems (snd ?r))\<rparr>"
  have obj: "k_Object k \<noteq> []" using k(3) by (simp add: text_chunk_def)
  have step: "message_loop cd (msg # msgs) out t =
      message_loop cd msgs (out @ sse_event (Encode (marshal_chunk cd) (fst ?r))) ?u"
    using k(1,2) obj Cons.prems by (simp add: Let_def case_prod_unfold)
  have u: "splitReasoning ?u" using Cons.prems convert_text_chunk(1) [OF k(3)] by simp
  show ?case
    unfolding step using Cons.IH [OF u] convert_text_chunk [OF k(3)]
    by (simp add: Let_def case_prod_unfold)
      (simp add: contents_of_def reasonings_of_def case_prod_unfold)
qed


definition sample_chunk :: "string \<Rightarrow> chat_chunk" where
  "sample_chunk w =
     \<lparr>k_Id = ''1'',
      k_Choices = [\<lparr>kc_FinishReason = [], kc_Index = 0,
        kc_Delta = \<lparr>d_Content = Some w, d_ReasoningContent = None, d_Role = [], d_ToolCalls = [], d_Refusal = []\<rparr>,
        kc_Logprobs = \<lparr>lp_Content = []\<rparr>\<rparr>],
      k_Created = 0, k_Model = ''m'', k_Object = ''chat.completion.chunk'',
      k_Usage = \<lparr>u_PromptTokens = 0, u_CompletionTokens = 0, u_TotalTokens = 0, u_PromptTokensDetails = None\<rparr>\<rparr>"

text \<open>A codec in which the text of a chunk is its content.\<close>

definition sample_codec :: codec where
  "sample_codec =
     \<lparr>json_compact = Some, parse_params = (\<lambda>_. Inl ''bad''), parse_chunk = (\<lambda>b. Some (sample_chunk b)),
      parse_completion = (\<lambda>_. None), parse_error = (\<lambda>_. None), parse_error_chunk = (\<lambda>_. None),
      marshal_params = (\<lambda>_. Some []), marshal_messages = (\<lambda>_. Some []), marshal_chunk = (\<lambda>_. Some []),
      marshal_completion = (\<lambda>_. Some []), marshal_json = (\<lambda>_. Some [])\<rparr>"


subsection \<open>The boundaries of the network do not matter\<close>

lemma convert_choices_upd [simp]:
  "convert_chunk_choices cs (t\<lparr>remainBuf := b\<rparr>) =
     (fst (convert_chunk_choices cs t), (snd (convert_chunk_choices cs t))\<lparr>remainBuf := b\<rparr>)"
  by (induction cs arbitrary: t) (auto simp: Let_def case_prod_unfold split: option.splits)

lemma convert_chunk_upd [simp]:
  "convertOpenAIChatCompletionChunk k (t\<lparr>remainBuf := b\<rparr>) =
     (fst (convertOpenAIChatCompletionChunk k t), (snd (convertOpenAIChatCompletionChunk k t))\<lparr>remainBuf := b\<rparr>)"
  by (simp add: convertOpenAIChatCompletionChunk_def Let_def case_prod_unfold)

lemma convert_choices_keeps [simp]:
  "isStream (snd (convert_chunk_choices cs t)) = isStream t"
  "backendProtocol (snd (convert_chunk_choices cs t)) = backendProtocol t"
  "remainBuf (snd (convert_chunk_choices cs t)) = remainBuf t"
proof -
  have "isStream (snd (extractReasoningContentFromChunk w t)) = isStream t \<and>
    backendProtocol (snd (extractReasoningContentFromChunk w t)) = backendProtocol t \<and>
    remainBuf (snd (extractReasoningContentFromChunk w t)) = remainBuf t" for w and t :: openai_transcoder
    by (simp add: extractReasoningContentFromChunk_def Let_def split: option.splits)
  then show "isStream (snd (convert_chunk_choices cs t)) = isStream t"
    "backendProtocol (snd (convert_chunk_choices cs t)) = backendProtocol t"
    "remainBuf (snd (convert_chunk_choices cs t)) = remainBuf t"
    by (induction cs arbitrary: t) (simp_all add: Let_def case_prod_unfold split: option.splits)
qed

text \<open>
  One turn of the loop: either the stream goes on with more output and a new state, or it ends
  with the first chunk error.
\<close>

definition one_message :: "codec \<Rightarrow> bytes \<Rightarrow> openai_transcoder \<Rightarrow> (bytes + bytes) \<times> openai_transcoder" where
  "one_message cd msg t =
     (case message_loop cd [msg] [] t of
        ((Some b, Some _), t') \<Rightarrow> (Inl b, t')
      | ((b, _), t') \<Rightarrow> (Inr (case b of None \<Rightarrow> [] | Some x \<Rightarrow> x), t'))"

lemma message_loop_step:
  "message_loop cd (msg # rest) out t =
     (case one_message cd msg t of
        (Inl b, t') \<Rightarrow> ((Some b, Some (ErrorString FirstChunkError)), t')
      | (Inr b, t') \<Rightarrow> message_loop cd rest (out @ b) t')"
  by (simp add: one_message_def Let_def case_prod_unfold sse_event_def split: option.splits)

declare message_loop.simps(2) [simp del]

lemma one_message_upd:
  "one_message cd msg (t\<lparr>remainBuf := b\<rparr>) = (fst (one_message cd msg t), (snd (one_message cd msg t))\<lparr>remainBuf := b\<rparr>)"
proof -
  have t: "t\<lparr>remainBuf := b, chunkCount := n\<rparr> = t\<lparr>chunkCount := n, remainBuf := b\<rparr>" for n
    by simp
  show ?thesis
    by (simp add: one_message_def message_loop.simps(2) Let_def case_prod_unfold t del: openai_transcoder.update_convs common_transcoder.update_convs
        split: option.splits)
qed

lemma one_message_keeps [simp]:
  "isStream (snd (one_message cd msg t)) = isStream t"
  "backendProtocol (snd (one_message cd msg t)) = backendProtocol t"
  by (simp_all add: one_message_def message_loop.simps(2) Let_def case_prod_unfold
      convertOpenAIChatCompletionChunk_def split: option.splits)

lemma message_loop_upd:
  "message_loop cd msgs out (t\<lparr>remainBuf := b\<rparr>) =
     (fst (message_loop cd msgs out t), (snd (message_loop cd msgs out t))\<lparr>remainBuf := b\<rparr>)"
  by (induction msgs arbitrary: out t)
    (simp_all add: message_loop_step one_message_upd case_prod_unfold split: sum.splits)

lemma message_loop_keeps [simp]:
  "isStream (snd (message_loop cd msgs out t)) = isStream t"
  "backendProtocol (snd (message_loop cd msgs out t)) = backendProtocol t"
proof -
  have "isStream (snd (message_loop cd msgs out t)) = isStream t \<and>
    backendProtocol (snd (message_loop cd msgs out t)) = backendProtocol t"
  proof (induction msgs arbitrary: out t)
    case (Cons msg msgs)
    show ?case
      using Cons.IH [of _ "snd (one_message cd msg t)"]
      by (simp add: message_loop_step case_prod_unfold split: sum.splits)
  qed simp
  then show "isStream (snd (message_loop cd msgs out t)) = isStream t"
    "backendProtocol (snd (message_loop cd msgs out t)) = backendProtocol t" by simp_all
qed

definition flat :: "bytes option \<Rightarrow> bytes" where
  "flat b = (case b of None \<Rightarrow> [] | Some x \<Rightarrow> x)"

definition as_output :: "bytes \<Rightarrow> bytes option" where
  "as_output b = (if b = [] then None else Some b)"

lemma flat_as_output [simp]: "flat (as_output b) = b" "flat None = []" "flat (Some b) = b"
  by (simp_all add: flat_def as_output_def)

lemma message_loop_Nil: "message_loop cd [] out t = ((as_output out, None), t)"
  by (simp add: as_output_def)

lemma message_loop_out:
  "message_loop cd msgs (out @ acc) t =
     (case message_loop cd msgs acc t of
        ((b, None), t') \<Rightarrow> ((as_output (out @ flat b), None), t')
      | ((b, Some e), t') \<Rightarrow> ((b, Some e), t'))"
  by (induction msgs arbitrary: acc t)
    (simp_all add: message_loop_Nil message_loop_step case_prod_unfold del: message_loop.simps(1) split: sum.splits)

lemma message_loop_append:
  "message_loop cd (xs @ ys) out t =
     (case message_loop cd xs out t of
        ((b, None), t') \<Rightarrow> message_loop cd ys (flat b) t'
      | ((b, Some e), t') \<Rightarrow> ((b, Some e), t'))"
  by (induction xs arbitrary: out t)
    (simp_all add: message_loop_Nil message_loop_step case_prod_unfold del: message_loop.simps(1) split: sum.splits)

text \<open>A streaming transcoder for an HTTP backend whose buffer holds an incomplete event.\<close>

definition streaming :: "openai_transcoder \<Rightarrow> bool" where
  "streaming t \<longleftrightarrow> isStream t \<and> plain_backend (backendProtocol t) \<and> CR \<notin> set (remainBuf t) \<and>
     split_nn (remainBuf t) = [remainBuf t]"

lemma GetResponseData_stream:
  assumes "streaming t" "CR \<notin> set data"
  shows "GetResponseData cd data t =
    (let pieces = split_nn (remainBuf t @ data); u = t\<lparr>remainBuf := last pieces\<rparr> in
     if list_all long_enough (butlast pieces) then message_loop cd (map payload (butlast pieces)) [] u
     else ((None, Some (ErrorString (''invalid SSE chunk in response: '' @ remainBuf t @ data))), u))"
proof -
  have buf: "(if length (remainBuf t) = 0 then t\<lparr>remainBuf := data\<rparr> else t\<lparr>remainBuf := remainBuf t @ data\<rparr>) =
      t\<lparr>remainBuf := remainBuf t @ data\<rparr>" by simp
  have CR: "CR \<notin> set (remainBuf t @ data)" using assms by (simp add: streaming_def)
  let ?u = "t\<lparr>remainBuf := remainBuf t @ data\<rparr>"
  have "responseMessages ?u =
    (strip_messages (remainBuf t @ data) (butlast (split_nn (remainBuf t @ data))),
     t\<lparr>remainBuf := last (split_nn (remainBuf t @ data))\<rparr>)"
    using assms(1) unify_no_CR [OF CR] by (simp add: responseMessages_def Let_def streaming_def)
  then show ?thesis
    using assms(1) unfolding GetResponseData_def convertOpenAiResp_def streaming_def buf
    by (simp add: Let_def strip_messages_ok strip_messages_bad)
qed

fun feed :: "codec \<Rightarrow> bytes list \<Rightarrow> openai_transcoder \<Rightarrow> (bytes \<times> go_error option) \<times> openai_transcoder" where
  "feed cd [] t = (([], None), t)"
| "feed cd (c # cs) t =
     (case GetResponseData cd c t of
        ((b, Some e), t') \<Rightarrow> ((flat b, Some e), t')
      | ((b, None), t') \<Rightarrow> (let ((bs, e), t'') = feed cd cs t' in ((flat b @ bs, e), t'')))"

lemma streaming_after:
  assumes "streaming t" "CR \<notin> set data"
  shows "streaming ((snd (message_loop cd msgs out t))\<lparr>remainBuf := last (split_nn (remainBuf t @ data))\<rparr>)"
proof -
  let ?p = "split_nn (remainBuf t @ data)"
  have "last ?p \<in> set ?p" by simp
  then have "set (last ?p) \<subseteq> set (remainBuf t @ data)" by (rule set_split_nn)
  with assms show ?thesis by (auto simp: streaming_def split_nn_last_idem)
qed

lemma feed_whole:
  assumes "streaming t" "CR \<notin> set (concat cs)" "GetResponseData cd (concat cs) t = ((b, None), t')"
  shows "feed cd cs t = ((flat b, None), t')"
  using assms
proof (induction cs arbitrary: t b)
  case Nil
  then show ?case by (auto simp: GetResponseData_stream [OF Nil.prems(1)] streaming_def message_loop_Nil
        simp del: message_loop.simps(1))
next
  case (Cons c cs)
  have CR: "CR \<notin> set c" "CR \<notin> set (concat cs)" using Cons.prems(2) by simp_all
  define p where "p = split_nn (remainBuf t @ c)"
  define q where "q = split_nn (last p @ concat cs)"
  have split: "split_nn (remainBuf t @ concat (c # cs)) = butlast p @ q" "q \<noteq> []"
    using split_nn_append [of "remainBuf t @ c" "concat cs"] by (simp_all add: p_def q_def)
  note whole = Cons.prems(3) [unfolded GetResponseData_stream [OF Cons.prems(1,2)] split]
  have long: "list_all long_enough (butlast p)" "list_all long_enough (butlast q)"
    and run: "message_loop cd (map payload (butlast p) @ map payload (butlast q)) [] (t\<lparr>remainBuf := last q\<rparr>) = ((b, None), t')"
    using whole split(2) by (auto simp: Let_def butlast_append split: if_splits)
  obtain b1 t1 where first: "message_loop cd (map payload (butlast p)) [] t = ((b1, None), t1)"
    using run by (auto simp: message_loop_append message_loop_upd split: prod.splits option.splits)
  let ?t1 = "t1\<lparr>remainBuf := last p\<rparr>"
  have step: "GetResponseData cd c t = ((b1, None), ?t1)"
    using long(1) first by (simp add: GetResponseData_stream [OF Cons.prems(1) CR(1)] p_def [symmetric]
        Let_def message_loop_upd)
  have t1: "streaming ?t1"
    using streaming_after [OF Cons.prems(1) CR(1), of cd "map payload (butlast p)" "[]"] first by (simp add: p_def)
  have "message_loop cd (map payload (butlast q)) ([] @ flat b1) (t1\<lparr>remainBuf := last q\<rparr>) = ((b, None), t')"
    using run first by (simp add: message_loop_append message_loop_upd)
  then obtain b2 where rest: "message_loop cd (map payload (butlast q)) [] (t1\<lparr>remainBuf := last q\<rparr>) = ((b2, None), t')"
      "flat b = flat b1 @ flat b2"
    using message_loop_out [of cd "map payload (butlast q)" "flat b1" "[]" "t1\<lparr>remainBuf := last q\<rparr>"]
    by (auto split: prod.splits option.splits)
  have "GetResponseData cd (concat cs) ?t1 = ((b2, None), t')"
    using long(2) rest(1) by (simp add: GetResponseData_stream [OF t1 CR(2)] q_def [symmetric] Let_def)
  from Cons.IH [OF t1 CR(2) this] step rest(2) show ?case by simp
qed

text \<open>
  C10. The boundaries of the network do not matter: for a stream with line feeds as line ends, if
  processing it in one piece reports no error, then processing it in any pieces - down to single
  bytes - reports none either, produces the same output in total and leaves the transcoder, its
  log and its split of the reasoning in the same state.
\<close>

theorem sse_chunking_invariant:
  assumes "isStream t" "plain_backend (backendProtocol t)" "remainBuf t = []"
    and "CR \<notin> set (concat cs)" "GetResponseData cd (concat cs) t = ((b, None), t')"
  shows "feed cd cs t = ((flat b, None), t')"
  using assms by (intro feed_whole) (auto simp: streaming_def)

definition sample_stream :: openai_transcoder where
  "sample_stream = (NewOpenAITranscoder None False)\<lparr>isStream := True, backendProtocol := VllmBackend\<rparr>"

lemma sample_stream_run:
  "GetResponseData sample_codec (''data: a'' @ [LF, LF] @ ''data: b'' @ [LF, LF]) sample_stream =
     ((Some (sse_event ''a'' @ sse_event ''b''), None),
      snd (GetResponseData sample_codec (''data: a'' @ [LF, LF] @ ''data: b'' @ [LF, LF]) sample_stream))"
proof -
  have s: "streaming sample_stream"
    by (simp add: streaming_def sample_stream_def NewOpenAITranscoder_def plain_backend_def)
  have CR: "CR \<notin> set (''data: a'' @ [LF, LF] @ ''data: b'' @ [LF, LF])" by (simp add: CR_def LF_def)
  show ?thesis
    unfolding GetResponseData_stream [OF s CR]
    by (simp add: sample_stream_def NewOpenAITranscoder_def LF_def Let_def long_enough_def payload_def
        trim_space_def is_space_def byte_of_def message_loop.simps(2) DONE_def sample_codec_def sample_chunk_def sse_event_def)
qed

theorem sse_chunking_invariant_witness:
  "fst (feed sample_codec [''data: '', ''a'' @ [LF], [LF] @ ''data: b'' @ [LF, LF]] sample_stream) =
     (sse_event ''a'' @ sse_event ''b'', None)"
proof -
  let ?cs = "[''data: '', ''a'' @ [LF], [LF] @ ''data: b'' @ [LF, LF]]"
  have "concat ?cs = ''data: a'' @ [LF, LF] @ ''data: b'' @ [LF, LF]" by simp
  moreover have "CR \<notin> set (concat ?cs)" by (simp add: CR_def LF_def)
  ultimately have "feed sample_codec ?cs sample_stream =
      ((flat (Some (sse_event ''a'' @ sse_event ''b'')), None),
       snd (GetResponseData sample_codec (concat ?cs) sample_stream))"
    using sample_stream_run
    by (intro sse_chunking_invariant) (simp_all add: sample_stream_def NewOpenAITranscoder_def plain_backend_def)
  then show ?thesis by simp
qed

text \<open>
  With carriage returns the boundaries do matter: a stream of two events ended by CR LF CR LF
  is read as the payloads \<open>a\<close> and \<open>b\<close> when it arrives in one piece, but if a boundary falls
  between the first CR and its LF, the second event starts with the surplus line feed and its
  payload is read as \<open>: b\<close>.
\<close>

theorem crlf_boundary_corrupts:
  "let whole = ''data: a'' @ [CR, LF, CR, LF] @ ''data: b'' @ [CR, LF, CR, LF];
       t = sample_stream\<lparr>remainBuf := ''data: a'' @ [CR]\<rparr>;
       (first, t1) = responseMessages t;
       (second, t2) = responseMessages (t1\<lparr>remainBuf := remainBuf t1 @ [LF, CR, LF] @ ''data: b'' @ [CR, LF, CR, LF]\<rparr>)
   in fst (responseMessages (sample_stream\<lparr>remainBuf := whole\<rparr>)) = Inr [''a'', ''b''] \<and>
      first = Inr [] \<and> second = Inr [''a'', '': b'']"
  by (simp add: responseMessages_def unifySSEChunk_def sample_stream_def NewOpenAITranscoder_def Let_def CR_def LF_def
      replace_all_steps has_prefix_def trim_space_def is_space_def byte_of_def)

text \<open>
  The answer of a gRPC backend never reaches the client: whatever arrives in whatever pieces,
  the output of every call is nil and no error is reported; only the buffer changes.
\<close>

theorem grpc_answer_dropped:
  assumes "\<not> plain_backend (backendProtocol t)"
  shows "fst (GetResponseData cd data t) = (None, None) \<and>
    (\<exists>b. snd (GetResponseData cd data t) = t\<lparr>remainBuf := b\<rparr>)"
proof -
  have "fst (frame_loop None None u) = None \<and> (\<exists>b. snd (frame_loop None None u) = u\<lparr>remainBuf := b\<rparr>)" for u
  proof (induction "length (remainBuf u)" arbitrary: u rule: less_induct)
    case less
    show ?case
    proof (cases "frameRemainBuf u")
      case (Pair g u')
      have "u' = u\<lparr>remainBuf := remainBuf u'\<rparr>"
        using Pair by (auto simp: frameRemainBuf_def Let_def split: if_splits)
      then have same: "\<exists>b. u' = u\<lparr>remainBuf := b\<rparr>" by blast
      show ?thesis
      proof (cases g)
        case None
        with Pair same show ?thesis by (simp add: frame_loop.simps)
      next
        case (Some x)
        have "length (remainBuf u') < length (remainBuf u)"
          using Pair Some frameRemainBuf_shrinks by blast
        from less [OF this] same Pair Some show ?thesis by (subst (1 2) frame_loop.simps) auto
      qed
    qed
  qed
  from this [of "if length (remainBuf t) = 0 then t\<lparr>remainBuf := data\<rparr> else t\<lparr>remainBuf := remainBuf t @ data\<rparr>"]
  show ?thesis
    using assms by (auto simp: GetResponseData_def Let_def case_prod_unfold split: if_splits)
qed

theorem grpc_answer_dropped_witness:
  "fst (GetResponseData sample_codec (grpc_frame ''answer'')
      ((NewOpenAITranscoder None False)\<lparr>backendProtocol := TritonBackend\<rparr>)) = (None, None)"
  using grpc_answer_dropped [of "(NewOpenAITranscoder None False)\<lparr>backendProtocol := TritonBackend\<rparr>" sample_codec
      "grpc_frame ''answer''"]
  by (simp add: plain_backend_def TritonBackend_def SglangBackend_def VllmBackend_def TensorRTBackend_def)

text \<open>
  The choices of a chunk share one state: the start tag of the second of two parallel answers is
  not recognised and stays in its reasoning.
\<close>

lemma choices_share_state:
  "map (\<lambda>c. (d_Content (kc_Delta c), d_ReasoningContent (kc_Delta c)))
     (fst (convert_chunk_choices (k_Choices (sample_chunk ''<think>a'') @ k_Choices (sample_chunk ''<think>b''))
        (NewOpenAITranscoder None True))) = [(None, Some ''a''), (None, Some ''<think>b'')]"
  by (simp add: sample_chunk_def NewOpenAITranscoder_def extractReasoningContentFromChunk_def ThinkStart_def
      ThinkEnd_def has_prefix_def Let_def)

end
