(* ===== verification/ProxyFilter.thy ===== *)
theory ProxyFilter
  imports OpenAiTranscoder CacheHash ClusterManager MetadataCenter MetricsStats
begin

text \<open>
  \<^verbatim>\<open>plugins/llmproxy/filter.go\<close>, \<^verbatim>\<open>metadata_center.go\<close> and \<^verbatim>\<open>config.go\<close>: the HTTP
  filter.  One filter value lives for one request; its callbacks are called by Envoy in order, and
  the prompt timer of a request runs beside them.

  The operations thread the filter, the state \<open>'q\<close> of the queue behind the metadata center
  (reached through \<open>d_submit\<close>) and, where a host is chosen, the state \<open>'g\<close> of the cluster
  managers (reached through \<open>d_balancer\<close>).  The other things the code calls are fields of the
  record \<open>deps\<close>: the JSON codec, the hash function, the next UUID, the statistics behind
  \<^verbatim>\<open>MatchTTFT\<close>, and what Envoy answers when the upstream is set or a buffer is written.
  A call on a nil interface, a failing type assertion and whatever the called code makes panic is
  \<open>Panic\<close>.
\<close>

subsection \<open>State\<close>

record ('g, 'q) deps =
  d_codec :: codec
  d_split :: bool
  d_balancer :: "ctx \<Rightarrow> string \<Rightarrow> string \<Rightarrow> 'g \<Rightarrow> (string + host) run \<times> 'g"
  d_upstream :: "string \<Rightarrow> string option"
  d_buffer_set :: "bytes \<Rightarrow> go_error option"
  d_submit :: "task \<Rightarrow> 'q \<Rightarrow> dispatch_error option \<times> 'q"
  d_sum64 :: "bytes \<Rightarrow> 64 word"
  d_uuid :: string
  d_stats :: metrics_state
  d_hostname :: string
  d_format_time :: "int \<Rightarrow> string"

text \<open>
  \<open>promptDecreaseTimer\<close> tells whether the field holds a timer, \<open>timer_armed\<close> whether the
  runtime still has to fire it, after \<open>timer_delay\<close>.  The last group of fields is what the
  callbacks object gives the filter: access log fields, request headers, body and dynamic metadata.
\<close>

record proxy_filter =
  f_config :: llm_config
  f_isStream :: bool
  f_transcoder :: "openai_transcoder option"
  f_serverIp :: string
  f_backendProtocol :: string
  f_modelName :: string
  f_traceId :: string
  f_dropRespData :: bool
  f_errLocalReplyOriginalPluginName :: string
  f_sendFinishTimestamp :: int
  f_fistRtTimestamp :: int
  f_lastRtTimestamp :: int
  f_cluster :: string
  f_promptLength :: int
  f_promptHash :: "64 word list"
  f_isIncreaseRecorded :: bool
  f_isPromptLengthDeleted :: bool
  f_promptDecreaseTimer :: bool
  f_timer_armed :: bool
  f_timer_delay :: duration
  f_uniqueId :: string
  f_state :: plugin_state
  f_modelLog :: "string option"
  f_callbacks :: callbacks
  f_body :: bytes
  f_metadata :: "(string \<rightharpoonup> any) option"
  f_access_log :: "access_log_field option"

definition filterFactory :: "llm_config \<Rightarrow> plugin_state \<Rightarrow> callbacks \<Rightarrow> bytes \<Rightarrow> (string \<rightharpoonup> any) option \<Rightarrow> proxy_filter" where
  "filterFactory c ps cb body meta =
     \<lparr>f_config = c, f_isStream = False, f_transcoder = None, f_serverIp = [], f_backendProtocol = [],
      f_modelName = [], f_traceId = [], f_dropRespData = False, f_errLocalReplyOriginalPluginName = [],
      f_sendFinishTimestamp = 0, f_fistRtTimestamp = 0, f_lastRtTimestamp = 0, f_cluster = [],
      f_promptLength = 0, f_promptHash = [], f_isIncreaseRecorded = False, f_isPromptLengthDeleted = False,
      f_promptDecreaseTimer = False, f_timer_armed = False, f_timer_delay = 0, f_uniqueId = [],
      f_state = ps, f_modelLog = None, f_callbacks = cb, f_body = body, f_metadata = meta, f_access_log = None\<rparr>"

datatype result_action = Continue | WaitAllData | WaitData | LocalReply local_response

definition set_log :: "string \<Rightarrow> any \<Rightarrow> proxy_filter \<Rightarrow> proxy_filter" where
  "set_log k v f = f\<lparr>f_state := SetLogField (f_state f) k v\<rparr>"

subsection \<open>Accounting at the metadata center\<close>

definition UniqueId :: "string \<Rightarrow> proxy_filter \<Rightarrow> string \<times> proxy_filter" where
  "UniqueId uuid f =
     (let f = (if f_uniqueId f = [] then
                 (let f = f\<lparr>f_uniqueId := uuid\<rparr> in set_log ''metacenter_reqid'' (AString (f_uniqueId f)) f)
               else f)
      in (f_uniqueId f, f))"

definition f_isModelLoadAwareEnable :: "proxy_filter \<Rightarrow> bool" where
  "f_isModelLoadAwareEnable f =
     (if LbMappingConfigs (f_config f) = None then True
      else
        (case FindLbMappingRule (f_config f) (f_modelName f) of
           Some lbConfig \<Rightarrow> LoadAwareEnable lbConfig
         | None \<Rightarrow> True))"

definition f_isModelCacheAwareEnable :: "proxy_filter \<Rightarrow> bool" where
  "f_isModelCacheAwareEnable f =
     (if LbMappingConfigs (f_config f) = None then True
      else
        (case FindLbMappingRule (f_config f) (f_modelName f) of
           Some lbConfig \<Rightarrow> CacheAwareEnable lbConfig
         | None \<Rightarrow> True))"

text \<open>The trace id goes into the context under the key of the type \<^verbatim>\<open>mctypes.CtxKey\<close>.\<close>

definition mc_context :: "proxy_filter \<Rightarrow> ctx" where
  "mc_context f = WithValue background (McCtxKey ''trace_id'') (AString (f_traceId f))"

text \<open>The timer of a request that is not streamed: 1.2 times the predicted time, in milliseconds.\<close>

definition prompt_delay :: "int \<Rightarrow> duration" where
  "prompt_delay ttft = wrap64 (go_quot (wrap64 (ttft * 12)) 10 * 10 ^ 6)"

definition f_AddRequest :: "('g, 'q) deps \<Rightarrow> go_time \<Rightarrow> proxy_filter \<Rightarrow> 'q \<Rightarrow> (proxy_filter \<times> 'q) run" where
  "f_AddRequest d now f q =
     (if \<not> f_isModelLoadAwareEnable f then Ret (f, q)
      else
        (let (rid, f) = UniqueId (d_uuid d) f;
             (err, q) = AddRequest (d_submit d) now (mc_context f) rid (f_cluster f) (f_serverIp f)
                          (f_promptLength f) q
         in case err of
              Some _ \<Rightarrow> Ret (f, q)
            | None \<Rightarrow>
                (let f = f\<lparr>f_isIncreaseRecorded := True\<rparr> in
                 if \<not> f_isStream f then
                   run_bind (MatchTTFT (d_stats d) (f_modelName f) (f_promptLength f)) (\<lambda>ttft.
                     Ret (f\<lparr>f_timer_armed := True, f_timer_delay := prompt_delay ttft,
                            f_promptDecreaseTimer := True\<rparr>, q))
                 else Ret (f, q))))"

definition StopPromptDecreaseTimer :: "proxy_filter \<Rightarrow> proxy_filter" where
  "StopPromptDecreaseTimer f =
     (if f_promptDecreaseTimer f then f\<lparr>f_promptDecreaseTimer := False, f_timer_armed := False\<rparr> else f)"

definition DecreaseMetaDataCenter :: "('g, 'q) deps \<Rightarrow> proxy_filter \<Rightarrow> 'q \<Rightarrow> proxy_filter \<times> 'q" where
  "DecreaseMetaDataCenter d f q =
     (if \<not> f_isModelLoadAwareEnable f then (f, q)
      else
        (let f = StopPromptDecreaseTimer f;
             (rid, f) = UniqueId (d_uuid d) f;
             (err, q) = DeleteRequest (d_submit d) (mc_context f) rid q
         in (f, q)))"

text \<open>\<open>DeletePromptLength\<close>: its guards, what it does behind them, and the two together.\<close>

definition prompt_length_due :: "proxy_filter \<Rightarrow> bool" where
  "prompt_length_due f \<longleftrightarrow>
     f_isModelLoadAwareEnable f \<and> f_isIncreaseRecorded f \<and> \<not> f_isPromptLengthDeleted f"

definition delete_prompt_length :: "('g, 'q) deps \<Rightarrow> proxy_filter \<Rightarrow> 'q \<Rightarrow> proxy_filter \<times> 'q" where
  "delete_prompt_length d f q =
     (let f = StopPromptDecreaseTimer f;
          (rid, f) = UniqueId (d_uuid d) f;
          (err, q) = DeleteRequestPrompt (d_submit d) (mc_context f) rid q
      in case err of
           Some _ \<Rightarrow> (f, q)
         | None \<Rightarrow> (f\<lparr>f_isPromptLengthDeleted := True\<rparr>, q))"

definition DeletePromptLength :: "('g, 'q) deps \<Rightarrow> proxy_filter \<Rightarrow> 'q \<Rightarrow> proxy_filter \<times> 'q" where
  "DeletePromptLength d f q = (if prompt_length_due f then delete_prompt_length d f q else (f, q))"

definition f_SaveKVCache :: "('g, 'q) deps \<Rightarrow> proxy_filter \<Rightarrow> 'q \<Rightarrow> 'q" where
  "f_SaveKVCache d f q =
     (if \<not> f_isModelCacheAwareEnable f then q
      else snd (SaveKVCache (d_submit d) (mc_context f) (f_cluster f) (f_serverIp f) (f_promptHash f) q))"

text \<open>The function the timer runs.\<close>

definition timer_fires :: "('g, 'q) deps \<Rightarrow> proxy_filter \<Rightarrow> 'q \<Rightarrow> proxy_filter \<times> 'q" where
  "timer_fires d f q = DeletePromptLength d (f\<lparr>f_timer_armed := False\<rparr>) q"

subsection \<open>The context of the load balancer\<close>

definition KeyModelName :: string where "KeyModelName = ''lb.modelName''"

definition setPromptsContext :: "proxy_filter \<Rightarrow> ctx \<Rightarrow> ctx" where
  "setPromptsContext f ctx =
     (if f_isModelCacheAwareEnable f then WithValue ctx (LBCtxKey KeyPromptHash) (AHashes (f_promptHash f)) else ctx)"

definition setLoadBalanceConfig :: "proxy_filter \<Rightarrow> ctx \<Rightarrow> string \<Rightarrow> ctx" where
  "setLoadBalanceConfig f ctx model =
     (case FindLbMappingRule (f_config f) model of
        None \<Rightarrow> ctx
      | Some ruleConfig \<Rightarrow>
          (let ctx = WithValue ctx (LBCtxKey KeyLoadAwareEnable) (ABool (LoadAwareEnable ruleConfig));
               ctx = WithValue ctx (LBCtxKey KeyCacheAwareEnable) (ABool (CacheAwareEnable ruleConfig));
               ctx = WithValue ctx (LBCtxKey KeyCandidatePercent) (AInt (CandidatePercent ruleConfig));
               ctx = WithValue ctx (LBCtxKey KeyLoadRequestWeight) (AInt (RequestLoadWeight ruleConfig));
               ctx = WithValue ctx (LBCtxKey KeyLoadPrefillWeight) (AInt (PrefillLoadWeight ruleConfig))
           in WithValue ctx (LBCtxKey KeyCacheRatioWeight) (AInt (CacheRadioWeight ruleConfig))))"

definition initLoadBalanceContext :: "proxy_filter \<Rightarrow> ctx" where
  "initLoadBalanceContext f =
     (let ctx = background;
          ctx = WithValue ctx (LBCtxKey KeyTraceId) (AString (f_traceId f));
          ctx = WithValue ctx (LBCtxKey KeyModelName) (AString (f_modelName f));
          ctx = WithValue ctx (LBCtxKey KeyFilterCallback) ACallbacks;
          ctx = setLoadBalanceConfig f ctx (f_modelName f)
      in setPromptsContext f ctx)"

definition PromptDataHash :: "('g, 'q) deps \<Rightarrow> prompt_context option \<Rightarrow> proxy_filter \<Rightarrow> proxy_filter run" where
  "PromptDataHash d promptContext f =
     (case promptContext of
        None \<Rightarrow> Ret f
      | Some pc \<Rightarrow>
          (let f = f\<lparr>f_promptLength := int (length (PromptContent pc))\<rparr> in
           if \<not> f_isModelCacheAwareEnable f then Ret f
           else
             run_bind
               (if length (PromptContent pc) > 0 then
                  run_bind (PromptToHash (d_sum64 d) (NewHash \<lparr>ChunkLen = DefaultTextChunkLen\<rparr>) (PromptContent pc))
                    (\<lambda>hs. Ret (f\<lparr>f_promptHash := hs\<rparr>))
                else Ret f)
               (\<lambda>f. Ret (if IsVlModel pc then set_log ''is_vl'' (AInt 1) f else set_log ''is_vl'' (AInt 0) f))))"

end
