(* ===== verification/FilterHandlers.thy ===== *)
theory FilterHandlers
  imports ProxyFilter
begin

text \<open>
  The callbacks of \<^verbatim>\<open>plugins/llmproxy/filter.go\<close>, in the order Envoy calls them, and
  \<^verbatim>\<open>transcoder/transcoder.go\<close>'s registry of transcoders.

  Request headers, request body and metadata are fields of the filter; the headers and the buffer
  of the response are arguments and part of the result, a buffer that Envoy does not pass being
  \<open>None\<close>.  The clock is an argument of the callbacks that read it.  An outcome \<open>Panic\<close> is a
  nil dereference or a failed type assertion, after which nothing else is said about the state.
\<close>

subsection \<open>Local replies\<close>

definition no_headers :: header_map where "no_headers = Map.empty"

definition badRequest :: "proxy_filter \<Rightarrow> go_error \<Rightarrow> result_action" where
  "badRequest f err =
     LocalReply (NewGatewayErrorResponseWithMsg (f_traceId f) no_headers 400 BadRequestError (Error err))"

definition noUpstream :: "proxy_filter \<Rightarrow> string \<Rightarrow> result_action" where
  "noUpstream f err = LocalReply (NewGatewayErrorResponse (f_traceId f) no_headers 404 NotFoundError)"

definition failedToConvertRequest :: "proxy_filter \<Rightarrow> go_error \<Rightarrow> result_action" where
  "failedToConvertRequest f err =
     LocalReply (NewGatewayErrorResponseWithMsg (f_traceId f) no_headers 400 BadRequestError (Error err))"

definition badResponseInternal :: "proxy_filter \<Rightarrow> go_error \<Rightarrow> int \<Rightarrow> header_map \<Rightarrow> result_action" where
  "badResponseInternal f err status header =
     (if is_internal_error err then
        LocalReply (NewGatewayErrorResponseWithMsg (f_traceId f) header status InferenceServerError (Error err))
      else
        LocalReply (NewGatewayErrorResponseWithMsg (f_traceId f) header status InferenceServerError (Error err)))"

definition badResponse :: "proxy_filter \<Rightarrow> go_error \<Rightarrow> result_action" where
  "badResponse f err = badResponseInternal f err 503 no_headers"

definition badResponseWithHeader :: "proxy_filter \<Rightarrow> go_error \<Rightarrow> header_map \<Rightarrow> result_action" where
  "badResponseWithHeader f err header = badResponseInternal f err 503 header"

subsection \<open>The request\<close>

text \<open>The registry: the packages imported by the filter register one factory.\<close>

type_synonym transcoder_factory = "llm_config option \<Rightarrow> bool \<Rightarrow> openai_transcoder"

definition RegisterTranscoderFactory ::
  "string \<Rightarrow> transcoder_factory \<Rightarrow> (string \<rightharpoonup> transcoder_factory) \<Rightarrow> (string \<rightharpoonup> transcoder_factory)" where
  "RegisterTranscoderFactory inputProtocol factory fs = fs(inputProtocol \<mapsto> factory)"

definition transcoderFactories :: "string \<rightharpoonup> transcoder_factory" where
  "transcoderFactories = RegisterTranscoderFactory ''openai'' NewOpenAITranscoder Map.empty"

definition GetTranscoderFactory :: "string \<Rightarrow> transcoder_factory option" where
  "GetTranscoderFactory inputProtocol = transcoderFactories inputProtocol"

definition f_DecodeHeaders :: "bool \<Rightarrow> proxy_filter \<Rightarrow> result_action" where
  "f_DecodeHeaders endStream f = (if endStream then badRequest f (ErrorString ''no data'') else WaitAllData)"

definition setSendFinishTimestamp :: "int \<Rightarrow> proxy_filter \<Rightarrow> proxy_filter" where
  "setSendFinishTimestamp now f = f\<lparr>f_sendFinishTimestamp := now\<rparr>"

text \<open>
  The parts of \<open>DecodeRequest\<close>.  First the request is read: the outcome is an answer to the
  client or the data of the request.
\<close>

definition read_request :: "('g, 'q) deps \<Rightarrow> proxy_filter \<Rightarrow> (result_action + request_data) run \<times> proxy_filter" where
  "read_request d f =
     (case GetTraceID (f_state f) of
        Panic \<Rightarrow> (Panic, f)
      | Ret traceId \<Rightarrow>
          (let f = f\<lparr>f_traceId := traceId\<rparr>;
               inputProtocol = Protocol (plugin_conf (f_config f))
           in case GetTranscoderFactory inputProtocol of
                None \<Rightarrow>
                  (Ret (Inl (badRequest f (ErrorString (''transcoder not found for protocol '' @ inputProtocol)))), f)
              | Some factory \<Rightarrow>
                  (let (r, t) = GetRequestData (d_codec d) (cb_headers (f_callbacks f)) (f_body f)
                                  (factory (Some (f_config f)) (d_split d));
                       f = f\<lparr>f_transcoder := Some t\<rparr>
                   in case r of
                        Panic \<Rightarrow> (Panic, f)
                      | Ret (Inl err) \<Rightarrow>
                          (if is_model_not_exist err then
                             (Ret (Inl (LocalReply (NewGatewayErrorResponseWithMsg (f_traceId f) no_headers 404
                                 NotFoundError (Error err)))), f)
                           else (Ret (Inl (badRequest f err)), f))
                      | Ret (Inr reqData) \<Rightarrow> (Ret (Inr reqData), f))))"

definition log_options :: "lb_options option \<Rightarrow> proxy_filter \<Rightarrow> proxy_filter" where
  "log_options lbOptions f =
     (case lbOptions of
        None \<Rightarrow> f
      | Some lb \<Rightarrow>
          (let f = set_log ''lora_id'' (AString (GetLoraID lbOptions)) f;
               f = set_log ''route_name'' (AString (o_RouteName lb)) f
           in set_log ''header_num'' (AInt (int (length (o_Headers lb)))) f))"

text \<open>Then the filter takes over what it keeps of the request data.\<close>

definition take_request :: "('g, 'q) deps \<Rightarrow> request_data \<Rightarrow> proxy_filter \<Rightarrow> proxy_filter run" where
  "take_request d reqData f =
     (let f = f\<lparr>f_modelName := rd_ModelName reqData, f_backendProtocol := rd_BackendProtocol reqData\<rparr>;
          f = log_options (rd_LbOptions reqData) f
      in run_bind (PromptDataHash d (rd_PromptContext reqData) f) (\<lambda>f.
           let f = f\<lparr>f_modelLog := Some (rd_ModelName reqData)\<rparr>;
               f = set_log ''target_model_name'' (AString (rd_SceneName reqData)) f
           in Ret (f\<lparr>f_cluster := rd_Cluster reqData\<rparr>)))"

text \<open>At last the request, with its host chosen, is encoded for the backend and counted.\<close>

definition send_request ::
  "('g, 'q) deps \<Rightarrow> go_time \<Rightarrow> request_data \<Rightarrow> host \<Rightarrow> proxy_filter \<Rightarrow> 'q \<Rightarrow> (result_action \<times> proxy_filter \<times> 'q) run" where
  "send_request d now reqData h f q =
     (let f = f\<lparr>f_serverIp := h_ip h\<rparr>;
          f = set_log ''ai_backend_protocol'' (AString (rd_BackendProtocol reqData)) f;
          proxyModelName = (if rd_LbOptions reqData \<noteq> None \<and> GetLoraID (rd_LbOptions reqData) \<noteq> []
                            then GetLoraID (rd_LbOptions reqData) else DefaultModelName)
      in case f_transcoder f of
           None \<Rightarrow> Panic
         | Some t \<Rightarrow>
             (let (r, headers, body, t) = EncodeRequest (d_buffer_set d) proxyModelName
                    (rd_BackendProtocol reqData) (cb_headers (f_callbacks f)) (f_body f) t;
                  f = f\<lparr>f_transcoder := Some t, f_callbacks := (f_callbacks f)\<lparr>cb_headers := headers\<rparr>, f_body := body\<rparr>
              in case r of
                   Panic \<Rightarrow> Panic
                 | Ret (Inl err) \<Rightarrow> Ret (failedToConvertRequest f err, f, q)
                 | Ret (Inr stream) \<Rightarrow>
                     (let f = set_log ''ai_stream_request'' (ABool stream) f;
                          f = f\<lparr>f_isStream := stream\<rparr>
                      in run_bind (f_AddRequest d now f q) (\<lambda>(f, q).
                           Ret (Continue, setSendFinishTimestamp now f, q)))))"

definition f_DecodeRequest ::
  "('g, 'q) deps \<Rightarrow> go_time \<Rightarrow> proxy_filter \<Rightarrow> 'g \<Rightarrow> 'q \<Rightarrow> (result_action \<times> proxy_filter \<times> 'g \<times> 'q) run" where
  "f_DecodeRequest d now f g q =
     (case read_request d f of
        (Panic, f) \<Rightarrow> Panic
      | (Ret (Inl reply), f) \<Rightarrow> Ret (reply, f, g, q)
      | (Ret (Inr reqData), f) \<Rightarrow>
          run_bind (take_request d reqData f) (\<lambda>f.
            let ctx = initLoadBalanceContext f;
                (h, cb, g) = ChooseServer (d_balancer d) (d_upstream d) ctx (f_cluster f)
                  (Algorithm (plugin_conf (f_config f))) (f_callbacks f) g;
                f = f\<lparr>f_callbacks := cb\<rparr>
            in case h of
                 Panic \<Rightarrow> Panic
               | Ret (Inl err) \<Rightarrow> Ret (noUpstream f err, f, g, q)
               | Ret (Inr h) \<Rightarrow>
                   run_bind (send_request d now reqData h f q) (\<lambda>(action, f, q). Ret (action, f, g, q))))"

subsection \<open>The response\<close>

text \<open>\<open>Status\<close> reads the pseudo header; a missing or bad one is 0.\<close>

definition header_status :: "header_map \<Rightarrow> int" where
  "header_status h = (case atoi (header_get h '':status'') of Some n \<Rightarrow> n | None \<Rightarrow> 0)"

definition addCommonResponseHeaders :: "string \<Rightarrow> header_map \<Rightarrow> header_map" where
  "addCommonResponseHeaders hostname headers =
     headers(''x-aigw-via'' \<mapsto> (case headers ''x-aigw-via'' of None \<Rightarrow> hostname | Some v \<Rightarrow> v @ '','' @ hostname))"

definition f_EncodeHeaders ::
  "('g, 'q) deps \<Rightarrow> header_map \<Rightarrow> bool \<Rightarrow> proxy_filter \<Rightarrow> 'q \<Rightarrow> (result_action \<times> header_map \<times> proxy_filter \<times> 'q) run" where
  "f_EncodeHeaders d header endStream f q =
     (let header = addCommonResponseHeaders (d_hostname d) header;
          status = header_status header
      in if status \<ge> 400 then Ret (WaitAllData, header, f, q)
         else
           (let q = f_SaveKVCache d f q in
            case f_transcoder f of
              None \<Rightarrow> Panic
            | Some t \<Rightarrow>
                (case DecodeHeaders (backendProtocol t) header of
                   (Panic, header) \<Rightarrow> Panic
                 | (Ret (Some err), header) \<Rightarrow> Ret (badResponseWithHeader f err header, header, f, q)
                 | (Ret None, header) \<Rightarrow>
                     (if endStream then
                        Ret (badResponse f (ErrorString ''no data from upstream''), header, f, q)
                      else if f_isStream f then
                        (let header = header(''content-type'' \<mapsto> ''text/event-stream;charset=UTF-8'',
                               ''x-accel-buffering'' \<mapsto> ''no'')
                         in Ret (WaitData, header, f, q))
                      else Ret (WaitAllData, header(''content-type'' \<mapsto> ''application/json''), f, q)))))"

text \<open>The name in the metadata is asserted to be a string.\<close>

definition isLocalReplay :: "proxy_filter \<Rightarrow> (bool \<times> proxy_filter) run" where
  "isLocalReplay f =
     (case f_metadata f of
        None \<Rightarrow> Ret (False, f)
      | Some metaInfo \<Rightarrow>
          (case metaInfo ''local_reply_plugin_name'' of
             None \<Rightarrow> Ret (False, f)
           | Some name \<Rightarrow>
               (case as_string name of
                  None \<Rightarrow> Panic
                | Some s \<Rightarrow> Ret (True, f\<lparr>f_errLocalReplyOriginalPluginName := s\<rparr>))))"

definition setLlmErrorMessage :: "string \<Rightarrow> proxy_filter \<Rightarrow> proxy_filter" where
  "setLlmErrorMessage msg f =
     (case f_transcoder f of
        None \<Rightarrow> f
      | Some t \<Rightarrow> f\<lparr>f_transcoder := Some (t\<lparr>logItems := SetErrorMessage msg (logItems t)\<rparr>)\<rparr>)"

definition show_length :: "bytes \<Rightarrow> string" where
  "show_length b = itoa (int (length b))"

definition doRespData ::
  "('g, 'q) deps \<Rightarrow> header_map \<Rightarrow> bytes option \<Rightarrow> proxy_filter
     \<Rightarrow> (result_action \<times> header_map \<times> bytes option \<times> proxy_filter) run" where
  "doRespData d headers buffer f =
     (case buffer of
        None \<Rightarrow> Panic
      | Some inputBuf \<Rightarrow>
          (if f_dropRespData f then Ret (Continue, headers, Some [], f)
           else
             (case f_transcoder f of
                None \<Rightarrow> Panic
              | Some t \<Rightarrow>
                  (let ((outputBuf, err), t) = GetResponseData (d_codec d) inputBuf t;
                       f = f\<lparr>f_transcoder := Some t\<rparr>
                   in case (outputBuf, err) of
                        (None, Some e) \<Rightarrow> Ret (badResponse f e, headers, buffer, f)
                      | _ \<Rightarrow>
                          (let (headers, f) =
                             (if f_isStream f \<and> err \<noteq> None then
                                (headers('':status'' \<mapsto> ''400''), f\<lparr>f_isStream := False, f_dropRespData := True\<rparr>)
                              else (headers, f));
                               headers = (if \<not> f_isStream f
                                          then headers(''content-length'' \<mapsto> show_length (flat outputBuf)) else headers)
                           in Ret (Continue, headers,
                                   Some (case outputBuf of None \<Rightarrow> []
                                         | Some b \<Rightarrow> if d_buffer_set d b = None then b else inputBuf), f))))))"

text \<open>
  Responses that are collected whole: errors, of this gateway or of the backend, and answers that
  are not streamed.
\<close>

definition backend_error ::
  "('g, 'q) deps \<Rightarrow> int \<Rightarrow> header_map \<Rightarrow> bytes option \<Rightarrow> proxy_filter
     \<Rightarrow> result_action \<times> header_map \<times> bytes option \<times> proxy_filter" where
  "backend_error d status headers buffer f =
     (let f = set_log ''is_local_error'' (AInt 0) f;
          code = (case buffer of
                    None \<Rightarrow> \<lparr>Code = status, Type = ErrTypeInferenceServerError,
                             Msg = ''no data from inference server''\<rparr>
                  | Some b \<Rightarrow> \<lparr>Code = status, Type = [], Msg = b\<rparr>)
      in case (case buffer of
                 None \<Rightarrow> None
               | Some b \<Rightarrow>
                   (case parse_error (d_codec d) b of
                      Some e \<Rightarrow> if le_object e \<noteq> [] then Some e else None
                    | None \<Rightarrow> None)) of
           Some e \<Rightarrow> (Continue, headers, buffer, setLlmErrorMessage (le_message e) f)
         | None \<Rightarrow>
             (let f = setLlmErrorMessage (Msg code) f;
                  outputBuf = Encode (marshal_json (d_codec d)) (FormatGatewayResponseMsg code (f_traceId f) (Msg code))
              in case buffer of
                   None \<Rightarrow> (Continue, headers, None, f)
                 | Some b \<Rightarrow>
                     (if length outputBuf \<noteq> 0 then
                        (Continue, headers(''content-length'' \<mapsto> show_length outputBuf),
                         Some (if d_buffer_set d outputBuf = None then outputBuf else b), f)
                      else (Continue, headers, buffer, f))))"

definition f_EncodeResponse ::
  "('g, 'q) deps \<Rightarrow> header_map \<Rightarrow> bytes option \<Rightarrow> proxy_filter \<Rightarrow> 'q
     \<Rightarrow> (result_action \<times> header_map \<times> bytes option \<times> proxy_filter \<times> 'q) run" where
  "f_EncodeResponse d headers buffer f q =
     (let (f, q) = DeletePromptLength d f q;
          status = header_status headers
      in if status \<ge> 400 then
           run_bind (isLocalReplay f) (\<lambda>(replay, f).
             if replay then
               (let code = ConvertStatusToErrorCode status;
                    f = set_log ''is_local_error'' (AInt 1) f;
                    f = setLlmErrorMessage (Msg code) f
                in Ret (LocalReply (NewGatewayErrorResponse (f_traceId f) headers status code), headers, buffer, f, q))
             else
               (let (action, headers, buffer, f) = backend_error d status headers buffer f
                in Ret (action, headers, buffer, f, q)))
         else
           run_bind (doRespData d headers buffer f) (\<lambda>(action, headers, buffer, f).
             Ret (action, headers, buffer, f, q)))"

definition setTokenTimestamp :: "('g, 'q) deps \<Rightarrow> int \<Rightarrow> proxy_filter \<Rightarrow> 'q \<Rightarrow> proxy_filter \<times> 'q" where
  "setTokenTimestamp d now f q =
     (let (f, q) = (if f_fistRtTimestamp f = 0
                    then DeletePromptLength d (f\<lparr>f_fistRtTimestamp := now\<rparr>) q else (f, q))
      in (f\<lparr>f_lastRtTimestamp := now\<rparr>, q))"

text \<open>A piece of a streamed response; \<open>headers\<close> are those kept by \<open>EncodeHeaders\<close>.\<close>

definition f_EncodeData ::
  "('g, 'q) deps \<Rightarrow> int \<Rightarrow> header_map \<Rightarrow> bytes \<Rightarrow> proxy_filter \<Rightarrow> 'q
     \<Rightarrow> (result_action \<times> header_map \<times> bytes option \<times> proxy_filter \<times> 'q) run" where
  "f_EncodeData d now headers buffer f q =
     (let (f, q) = setTokenTimestamp d now f q in
      run_bind (doRespData d headers (Some buffer) f) (\<lambda>(action, headers, buffer, f).
        Ret (action, headers, buffer, f, q)))"

subsection \<open>The end of the request\<close>

definition getTtft :: "proxy_filter \<Rightarrow> duration" where
  "getTtft f =
     (if f_fistRtTimestamp f \<le> 0 \<or> f_sendFinishTimestamp f \<le> 0 then 0
      else if f_fistRtTimestamp f < f_sendFinishTimestamp f then 0
      else time_sub (wrap64 (f_fistRtTimestamp f * 1000)) (wrap64 (f_sendFinishTimestamp f * 1000)))"

definition f_OnLog :: "('g, 'q) deps \<Rightarrow> proxy_filter \<Rightarrow> 'q \<Rightarrow> proxy_filter \<times> 'q" where
  "f_OnLog d f q =
     (let f = (if f_errLocalReplyOriginalPluginName f \<noteq> [] then
                 f\<lparr>f_metadata := Some ((case f_metadata f of Some m \<Rightarrow> m | None \<Rightarrow> Map.empty)
                     (''local_reply_plugin_name'' \<mapsto> AString (f_errLocalReplyOriginalPluginName f)))\<rparr>
               else f);
          (f, q) = (if f_isIncreaseRecorded f then DecreaseMetaDataCenter d f q else (f, q));
          f = set_log ''ttft'' (AInt (go_quot (getTtft f) (10 ^ 6))) f;
          f = (if f_fistRtTimestamp f \<noteq> 0
               then set_log ''first_rt'' (AString (d_format_time d (f_fistRtTimestamp f))) f else f);
          f = (if f_lastRtTimestamp f \<noteq> 0
               then set_log ''last_rt'' (AString (d_format_time d (f_lastRtTimestamp f))) f else f)
      in case GetLogField (f_state f) of
           None \<Rightarrow> (f, q)
         | Some logField \<Rightarrow> (f\<lparr>f_access_log := Some logField\<rparr>, q))"

end
