(* ===== verification/FilterLifecycle.thy ===== *)
theory FilterLifecycle
  imports FilterHandlers
begin

text \<open>
  The life of one request in the filter: the callbacks of \<open>FilterHandlers\<close> composed the way
  Envoy calls them, the prompt timer of \<open>ProxyFilter\<close> beside them, and what the metadata center
  is asked to do in the end.

  The queue behind the filter also keeps the list of the tasks this request submitted, each with
  whether the queue took it (\<open>traced\<close>); other requests may change the queue and the cluster
  managers between any two callbacks.
\<close>

subsection \<open>The tasks of a request\<close>

type_synonym trace = "(task \<times> bool) list"

definition traced :: "(task \<Rightarrow> 's \<Rightarrow> dispatch_error option \<times> 's) \<Rightarrow> task \<Rightarrow> 's \<times> trace \<Rightarrow> dispatch_error option \<times> 's \<times> trace" where
  "traced submit t q = (let (e, s) = submit t (fst q) in (e, s, snd q @ [(t, e = None)]))"

definition add_task :: "task \<Rightarrow> bool" where
  "add_task t \<longleftrightarrow> t_Method t = ''POST'' \<and> t_URL t = MetaDataCenterLoadPath"

definition remove_task :: "task \<Rightarrow> bool" where
  "remove_task t \<longleftrightarrow> t_Method t = ''DELETE'' \<and> t_URL t = MetaDataCenterLoadPath"

definition prompt_task :: "task \<Rightarrow> bool" where
  "prompt_task t \<longleftrightarrow> t_Method t = ''DELETE'' \<and> t_URL t = MetaDataCenterLoadPromptLength"

definition task_id :: "task \<Rightarrow> json option" where
  "task_id t = (case t_Body t of JObj kvs \<Rightarrow> map_of kvs ''request_id'' | _ \<Rightarrow> None)"

text \<open>Nothing was counted, and nothing was taken back.\<close>

definition quiet :: "trace \<Rightarrow> bool" where
  "quiet tr \<longleftrightarrow> (\<forall>(t, ok) \<in> set tr. \<not> remove_task t \<and> \<not> prompt_task t \<and> \<not> (add_task t \<and> ok))"

text \<open>
  The request was counted once under the id \<open>rid\<close>, by the accepted task \<open>a\<close>, and afterwards
  its prompt was taken back by \<open>n\<close> accepted tasks.
\<close>

definition counted :: "json \<Rightarrow> nat \<Rightarrow> trace \<Rightarrow> bool" where
  "counted rid n tr \<longleftrightarrow>
     (\<exists>before a between. tr = before @ [(a, True)] @ between \<and> quiet before \<and> add_task a \<and> task_id a = Some rid \<and>
        (\<forall>(t, ok) \<in> set between. \<not> add_task t \<and> \<not> remove_task t \<and> (prompt_task t \<longrightarrow> task_id t = Some rid)) \<and>
        length (List.filter (\<lambda>(t, ok). prompt_task t \<and> ok) between) = n)"

lemma quiet_simps [simp]:
  "quiet []" "quiet (tr @ [(t, ok)]) \<longleftrightarrow> quiet tr \<and> \<not> remove_task t \<and> \<not> prompt_task t \<and> \<not> (add_task t \<and> ok)"
  by (auto simp: quiet_def)

lemma counted_add: "quiet tr \<Longrightarrow> add_task a \<Longrightarrow> task_id a = Some rid \<Longrightarrow> counted rid 0 (tr @ [(a, True)])"
  unfolding counted_def by (rule exI [of _ tr], rule exI [of _ a], rule exI [of _ "[]"]) simp

lemma counted_snoc:
  assumes "counted rid n tr" "\<not> add_task t" "\<not> remove_task t" "prompt_task t \<longrightarrow> task_id t = Some rid"
  shows "counted rid (n + of_bool (prompt_task t \<and> ok)) (tr @ [(t, ok)])"
proof -
  from assms(1) obtain before a between where tr: "tr = before @ [(a, True)] @ between" "quiet before"
    "add_task a" "task_id a = Some rid"
    "\<forall>(t, ok) \<in> set between. \<not> add_task t \<and> \<not> remove_task t \<and> (prompt_task t \<longrightarrow> task_id t = Some rid)"
    "length (List.filter (\<lambda>(t, ok). prompt_task t \<and> ok) between) = n"
    unfolding counted_def by blast
  with assms(2-) show ?thesis
    unfolding counted_def
    by (intro exI [of _ before] exI [of _ a] exI [of _ "between @ [(t, ok)]"]) auto
qed

subsection \<open>The run of a request\<close>

datatype phase = Fresh | Decoded | Logged

text \<open>
  A state is the phase, the filter, the cluster managers and the queue.  Between two callbacks other
  requests and the goroutines change the managers and the queue by the relation \<open>env\<close>.  \<open>DecodeRequest\<close> comes at
  most once and before \<open>OnLog\<close>, which comes once; the encoding callbacks may come in any number
  and order, also for a request that was never decoded (another plugin answered it); the timer fires
  when it is armed.  A callback that panics has no successor.
\<close>

inductive request_step ::
  "('g \<times> 's \<Rightarrow> 'g \<times> 's \<Rightarrow> bool) \<Rightarrow> ('g, 's \<times> trace) deps \<Rightarrow>
   phase \<times> proxy_filter \<times> 'g \<times> 's \<times> trace \<Rightarrow> phase \<times> proxy_filter \<times> 'g \<times> 's \<times> trace \<Rightarrow> bool"
  for env d where
  decode: "f_DecodeRequest d now f g q = Ret (action, f', g', q') \<Longrightarrow>
     request_step env d (Fresh, f, g, q) (Decoded, f', g', q')"
| headers: "ph \<noteq> Logged \<Longrightarrow> f_EncodeHeaders d h endStream f q = Ret (action, h', f', q') \<Longrightarrow>
     request_step env d (ph, f, g, q) (ph, f', g, q')"
| whole: "ph \<noteq> Logged \<Longrightarrow> f_EncodeResponse d h buffer f q = Ret (action, h', buffer', f', q') \<Longrightarrow>
     request_step env d (ph, f, g, q) (ph, f', g, q')"
| piece: "ph \<noteq> Logged \<Longrightarrow> f_EncodeData d usec h b f q = Ret (action, h', buffer', f', q') \<Longrightarrow>
     request_step env d (ph, f, g, q) (ph, f', g, q')"
| timer: "f_timer_armed f \<Longrightarrow> timer_fires d f q = (f', q') \<Longrightarrow> request_step env d (ph, f, g, q) (ph, f', g, q')"
| log: "ph \<noteq> Logged \<Longrightarrow> f_OnLog d f q = (f', q') \<Longrightarrow> request_step env d (ph, f, g, q) (Logged, f', g, q')"
| others: "env (g, s) (g', s') \<Longrightarrow> request_step env d (ph, f, g, s, tr) (ph, f, g', s', tr)"

inductive request_run ::
  "('g \<times> 's \<Rightarrow> 'g \<times> 's \<Rightarrow> bool) \<Rightarrow> ('g, 's \<times> trace) deps \<Rightarrow> proxy_filter \<Rightarrow> 'g \<times> 's \<Rightarrow>
   phase \<times> proxy_filter \<times> 'g \<times> 's \<times> trace \<Rightarrow> bool" for env d f init where
  start: "init = (g, s) \<Longrightarrow> request_run env d f init (Fresh, f, g, s, [])"
| step: "request_run env d f init st \<Longrightarrow> request_step env d st st' \<Longrightarrow> request_run env d f init st'"

inductive_cases request_stepE: "request_step env d (ph, f, g, q) (ph', f', g', q')"

subsection \<open>What the callbacks do to the accounting\<close>

text \<open>The part of the filter the accounting depends on.\<close>

definition view :: "proxy_filter \<Rightarrow> bool \<times> bool \<times> bool \<times> bool \<times> string \<times> bool" where
  "view f = (f_isIncreaseRecorded f, f_isPromptLengthDeleted f, f_promptDecreaseTimer f, f_timer_armed f,
             f_uniqueId f, f_isModelLoadAwareEnable f)"

lemma aware_updates [simp]:
  "f_isModelLoadAwareEnable (f\<lparr>f_isIncreaseRecorded := b\<rparr>) = f_isModelLoadAwareEnable f"
  "f_isModelLoadAwareEnable (f\<lparr>f_isPromptLengthDeleted := b\<rparr>) = f_isModelLoadAwareEnable f"
  "f_isModelLoadAwareEnable (f\<lparr>f_promptDecreaseTimer := b\<rparr>) = f_isModelLoadAwareEnable f"
  "f_isModelLoadAwareEnable (f\<lparr>f_timer_armed := b\<rparr>) = f_isModelLoadAwareEnable f"
  "f_isModelLoadAwareEnable (f\<lparr>f_timer_delay := m\<rparr>) = f_isModelLoadAwareEnable f"
  "f_isModelLoadAwareEnable (f\<lparr>f_uniqueId := u\<rparr>) = f_isModelLoadAwareEnable f"
  by (simp_all add: f_isModelLoadAwareEnable_def)

lemma view_updates [simp]:
  "view (f\<lparr>f_traceId := v1\<rparr>) = view f" "view (f\<lparr>f_transcoder := v2\<rparr>) = view f"
  "view (f\<lparr>f_isStream := v3\<rparr>) = view f" "view (f\<lparr>f_dropRespData := v4\<rparr>) = view f"
  "view (f\<lparr>f_fistRtTimestamp := v5\<rparr>) = view f" "view (f\<lparr>f_lastRtTimestamp := v5\<rparr>) = view f"
  "view (f\<lparr>f_sendFinishTimestamp := v5\<rparr>) = view f" "view (f\<lparr>f_metadata := v6\<rparr>) = view f"
  "view (f\<lparr>f_access_log := v7\<rparr>) = view f" "view (f\<lparr>f_state := v8\<rparr>) = view f"
  "view (f\<lparr>f_errLocalReplyOriginalPluginName := v9\<rparr>) = view f"
  by (simp_all add: view_def f_isModelLoadAwareEnable_def)

lemma view_set_log [simp]: "view (set_log k v f) = view f"
  by (simp add: set_log_def)

lemma view_setLlmErrorMessage [simp]: "view (setLlmErrorMessage msg f) = view f"
  by (simp add: setLlmErrorMessage_def split: option.split)

lemma view_isLocalReplay: "isLocalReplay f = Ret (b, f') \<Longrightarrow> view f' = view f"
  by (auto simp: isLocalReplay_def split: option.splits)

lemma view_backend_error: "backend_error d status h buffer f = (a, h', buffer', f') \<Longrightarrow> view f' = view f"
  by (auto simp: backend_error_def Let_def split: option.splits if_splits)

lemma view_doRespData: "doRespData d h buffer f = Ret (a, h', buffer', f') \<Longrightarrow> view f' = view f"
  by (auto simp: doRespData_def Let_def split: option.splits if_splits prod.splits)

lemma EncodeHeaders_keeps:
  "f_EncodeHeaders d h endStream f q = Ret (a, h', f', q') \<Longrightarrow> f' = f \<and> (q' = q \<or> q' = f_SaveKVCache d f q)"
  by (auto simp: f_EncodeHeaders_def Let_def split: option.splits if_splits prod.splits run.splits)

lemma EncodeResponse_deletes:
  "f_EncodeResponse d h buffer f q = Ret (a, h', buffer', f', q') \<Longrightarrow>
   \<exists>f1. DeletePromptLength d f q = (f1, q') \<and> view f' = view f1"
  by (auto simp: f_EncodeResponse_def Let_def split: prod.splits if_splits
      dest!: view_isLocalReplay view_backend_error view_doRespData)

lemma EncodeData_deletes:
  "f_EncodeData d usec h b f q = Ret (a, h', buffer', f', q') \<Longrightarrow>
   (view f' = view f \<and> q' = q) \<or>
   (\<exists>f1. DeletePromptLength d (f\<lparr>f_fistRtTimestamp := usec\<rparr>) q = (f1, q') \<and> view f' = view f1)"
  by (auto simp: f_EncodeData_def setTokenTimestamp_def Let_def split: prod.splits if_splits
      dest!: view_doRespData)

lemma OnLog_decreases:
  assumes "f_OnLog d f q = (f', q')"
  shows "\<exists>f0 f1. view f0 = view f \<and> f_traceId f0 = f_traceId f \<and> view f' = view f1 \<and>
     (f1, q') = (if f_isIncreaseRecorded f then DecreaseMetaDataCenter d f0 q else (f0, q))"
proof -
  define f0 where "f0 = (if f_errLocalReplyOriginalPluginName f \<noteq> [] then
                 f\<lparr>f_metadata := Some ((case f_metadata f of Some m \<Rightarrow> m | None \<Rightarrow> Map.empty)
                     (''local_reply_plugin_name'' \<mapsto> AString (f_errLocalReplyOriginalPluginName f)))\<rparr>
               else f)"
  have f0: "view f0 = view f" "f_traceId f0 = f_traceId f" "f_isIncreaseRecorded f0 = f_isIncreaseRecorded f"
    by (simp_all add: f0_def)
  obtain f1 q1 where f1: "(if f_isIncreaseRecorded f0 then DecreaseMetaDataCenter d f0 q else (f0, q)) = (f1, q1)"
    by (rule prod.exhaust)
  with assms have "view f' = view f1 \<and> q' = q1"
    unfolding f_OnLog_def f0_def [symmetric] Let_def by (auto split: option.splits if_splits)
  with f0 f1 show ?thesis by (intro exI [of _ f0] exI [of _ f1]) simp
qed

text \<open>What the accounting operations submit, for a queue that records the tasks.\<close>

lemma trace_of_mc_context [simp]: "trace_of (mc_context f) = []"
  by (simp add: trace_of_def mc_context_def GetValueFromCtx_def background_def)

lemma UniqueId_eq:
  "f_uniqueId f \<in> {[], d_uuid d} \<Longrightarrow>
   \<exists>f1. UniqueId (d_uuid d) f = (d_uuid d, f1) \<and> f_traceId f1 = f_traceId f \<and> f_isStream f1 = f_isStream f \<and>
     view f1 = (f_isIncreaseRecorded f, f_isPromptLengthDeleted f, f_promptDecreaseTimer f, f_timer_armed f,
                d_uuid d, f_isModelLoadAwareEnable f)"
  by (auto simp: UniqueId_def Let_def set_log_def view_def f_isModelLoadAwareEnable_def)

lemma view_StopPromptDecreaseTimer:
  "view (StopPromptDecreaseTimer f) =
     (f_isIncreaseRecorded f, f_isPromptLengthDeleted f, False,
      f_timer_armed f \<and> \<not> f_promptDecreaseTimer f, f_uniqueId f, f_isModelLoadAwareEnable f)"
  by (simp add: StopPromptDecreaseTimer_def view_def f_isModelLoadAwareEnable_def)

lemma mc_context_trace: "f_traceId f = f_traceId f' \<Longrightarrow> mc_context f = mc_context f'"
  by (simp add: mc_context_def)

lemma traceId_StopPromptDecreaseTimer [simp]: "f_traceId (StopPromptDecreaseTimer f) = f_traceId f"
  by (simp add: StopPromptDecreaseTimer_def)

lemma task_id_inference_task [simp]: "task_id (inference_task m p r) = Some (JStr (ir_RequestId r))"
  by (simp add: task_id_def inference_task_def marshal_inference_request_def)

lemma t_TraceId_inference_task [simp]: "t_TraceId (inference_task m p r) = ir_TraceId r"
  by (simp add: inference_task_def)

lemma task_kinds [simp]:
  "add_task (inference_task ''POST'' MetaDataCenterLoadPath r)"
  "\<not> add_task (inference_task ''DELETE'' p r)"
  "\<not> remove_task (inference_task ''POST'' p r)"
  "\<not> prompt_task (inference_task ''POST'' p r)"
  "remove_task (inference_task ''DELETE'' MetaDataCenterLoadPath r)"
  "\<not> remove_task (inference_task ''DELETE'' MetaDataCenterLoadPromptLength r)"
  "prompt_task (inference_task ''DELETE'' MetaDataCenterLoadPromptLength r)"
  "\<not> prompt_task (inference_task ''DELETE'' MetaDataCenterLoadPath r)"
  by (simp_all add: add_task_def remove_task_def prompt_task_def inference_task_def
      MetaDataCenterLoadPath_def MetaDataCenterLoadPromptLength_def)

lemma SaveKVCache_submits:
  assumes "d_submit d = traced submit"
  shows "f_SaveKVCache d f q = q \<or>
    (\<exists>t ok s. f_SaveKVCache d f q = (s, snd q @ [(t, ok)]) \<and> t_TraceId t = [] \<and>
       \<not> add_task t \<and> \<not> remove_task t \<and> \<not> prompt_task t)"
  using assms
  by (auto simp: f_SaveKVCache_def SaveKVCache_def traced_def Let_def add_task_def remove_task_def prompt_task_def
      MetaDataCenterLoadPath_def MetaDataCenterCacheSavePath_def split: prod.split)

lemma delete_prompt_length_submits:
  assumes "d_submit d = traced submit" "f_uniqueId f \<in> {[], d_uuid d}"
  shows "\<exists>f' s ok r. delete_prompt_length d f q =
      (f', s, snd q @ [(inference_task ''DELETE'' MetaDataCenterLoadPromptLength r, ok)]) \<and>
     ir_RequestId r = d_uuid d \<and> ir_TraceId r = [] \<and>
     view f' = (f_isIncreaseRecorded f, ok \<or> f_isPromptLengthDeleted f, False,
       f_timer_armed f \<and> \<not> f_promptDecreaseTimer f, d_uuid d, f_isModelLoadAwareEnable f)"
proof -
  from assms(2) view_StopPromptDecreaseTimer [of f]
  have "f_uniqueId (StopPromptDecreaseTimer f) \<in> {[], d_uuid d}" by (simp add: view_def)
  from UniqueId_eq [OF this] view_StopPromptDecreaseTimer [of f]
  obtain f1 where f1: "UniqueId (d_uuid d) (StopPromptDecreaseTimer f) = (d_uuid d, f1)"
    "view f1 = (f_isIncreaseRecorded f, f_isPromptLengthDeleted f, False,
       f_timer_armed f \<and> \<not> f_promptDecreaseTimer f, d_uuid d, f_isModelLoadAwareEnable f)"
    by (auto simp: view_def)
  then have deleted: "view (f1\<lparr>f_isPromptLengthDeleted := True\<rparr>) = (f_isIncreaseRecorded f, True, False,
       f_timer_armed f \<and> \<not> f_promptDecreaseTimer f, d_uuid d, f_isModelLoadAwareEnable f)"
    by (simp add: view_def)
  show ?thesis
    using assms(1) f1 deleted
    by (cases "submit (inference_task ''DELETE'' MetaDataCenterLoadPromptLength
                  (delete_request (mc_context f1) (d_uuid d))) (fst q)")
      (auto simp: delete_prompt_length_def DeleteRequestPrompt_def traced_def Let_def delete_request_def
        split: option.splits intro!: exI)
qed

lemma DecreaseMetaDataCenter_submits:
  assumes "d_submit d = traced submit" "f_uniqueId f \<in> {[], d_uuid d}" "f_isModelLoadAwareEnable f"
  shows "\<exists>f' s ok r. DecreaseMetaDataCenter d f q =
      (f', s, snd q @ [(inference_task ''DELETE'' MetaDataCenterLoadPath r, ok)]) \<and>
     ir_RequestId r = d_uuid d \<and> ir_TraceId r = [] \<and>
     view f' = (f_isIncreaseRecorded f, f_isPromptLengthDeleted f, False,
       f_timer_armed f \<and> \<not> f_promptDecreaseTimer f, d_uuid d, True)"
proof -
  from assms(2) view_StopPromptDecreaseTimer [of f]
  have "f_uniqueId (StopPromptDecreaseTimer f) \<in> {[], d_uuid d}" by (simp add: view_def)
  from UniqueId_eq [OF this] view_StopPromptDecreaseTimer [of f] assms(3)
  obtain f1 where f1: "UniqueId (d_uuid d) (StopPromptDecreaseTimer f) = (d_uuid d, f1)"
    "view f1 = (f_isIncreaseRecorded f, f_isPromptLengthDeleted f, False,
       f_timer_armed f \<and> \<not> f_promptDecreaseTimer f, d_uuid d, True)"
    by (auto simp: view_def)
  then show ?thesis
    using assms(1,3)
    by (cases "submit (inference_task ''DELETE'' MetaDataCenterLoadPath
                  (delete_request (mc_context f1) (d_uuid d))) (fst q)")
      (auto simp: DecreaseMetaDataCenter_def DeleteRequest_def traced_def Let_def delete_request_def intro!: exI)
qed

lemma f_AddRequest_submits:
  assumes "d_submit d = traced submit" "f_uniqueId f \<in> {[], d_uuid d}" "\<not> f_isIncreaseRecorded f"
    "\<not> f_timer_armed f" "f_AddRequest d now f q = Ret (f', q')"
  shows "(\<not> f_isModelLoadAwareEnable f \<and> f' = f \<and> q' = q) \<or>
    (\<exists>s ok r. q' = (s, snd q @ [(inference_task ''POST'' MetaDataCenterLoadPath r, ok)]) \<and>
       ir_RequestId r = d_uuid d \<and> ir_TraceId r = [] \<and>
       f_isIncreaseRecorded f' = ok \<and> f_isModelLoadAwareEnable f' \<and> f_uniqueId f' = d_uuid d \<and>
       f_isPromptLengthDeleted f' = f_isPromptLengthDeleted f \<and>
       (f_timer_armed f' \<longrightarrow> f_promptDecreaseTimer f' \<and> ok))"
proof (cases "f_isModelLoadAwareEnable f")
  case True
  from UniqueId_eq [OF assms(2)] obtain f1 where f1: "UniqueId (d_uuid d) f = (d_uuid d, f1)"
    "view f1 = (f_isIncreaseRecorded f, f_isPromptLengthDeleted f, f_promptDecreaseTimer f, f_timer_armed f,
                d_uuid d, f_isModelLoadAwareEnable f)" by auto
  show ?thesis
    using True assms(1,3-5) f1
    by (cases "submit (inference_task ''POST'' MetaDataCenterLoadPath
          \<lparr>ir_RequestId = d_uuid d, ir_Cluster = f_cluster f1, ir_PromptLength = f_promptLength f1,
           ir_Ip = f_serverIp f1, ir_TimeStamp = now, ir_TraceId = []\<rparr>) (fst q)")
      (auto simp: f_AddRequest_def AddRequest_def traced_def Let_def view_def
        split: option.splits if_splits intro!: exI)
qed (use assms in \<open>simp add: f_AddRequest_def\<close>)

text \<open>Before a request is counted the model may change, so only this part is kept.\<close>

definition core :: "proxy_filter \<Rightarrow> bool \<times> bool \<times> bool \<times> bool \<times> string" where
  "core f = (f_isIncreaseRecorded f, f_isPromptLengthDeleted f, f_promptDecreaseTimer f, f_timer_armed f, f_uniqueId f)"

lemma core_updates [simp]:
  "core (f\<lparr>f_modelName := v1\<rparr>) = core f" "core (f\<lparr>f_backendProtocol := v1\<rparr>) = core f"
  "core (f\<lparr>f_serverIp := v1\<rparr>) = core f" "core (f\<lparr>f_cluster := v1\<rparr>) = core f"
  "core (f\<lparr>f_promptLength := v2\<rparr>) = core f" "core (f\<lparr>f_promptHash := v3\<rparr>) = core f"
  "core (f\<lparr>f_modelLog := v4\<rparr>) = core f" "core (f\<lparr>f_callbacks := v5\<rparr>) = core f"
  "core (f\<lparr>f_body := v1\<rparr>) = core f" "core (f\<lparr>f_isStream := b\<rparr>) = core f"
  "core (f\<lparr>f_transcoder := v6\<rparr>) = core f" "core (f\<lparr>f_traceId := v1\<rparr>) = core f"
  "core (set_log k v f) = core f"
  by (simp_all add: core_def set_log_def)

lemma core_view: "view f = view f' \<Longrightarrow> core f = core f'"
  by (simp add: view_def core_def)

lemma core_read_request: "read_request d f = (r, f') \<Longrightarrow> core f' = core f"
  by (auto simp: read_request_def Let_def split: run.splits option.splits prod.splits sum.splits if_splits)

lemma core_log_options [simp]: "core (log_options lb f) = core f"
  by (simp add: log_options_def Let_def split: option.split)

lemma core_PromptDataHash: "PromptDataHash d pc f = Ret f' \<Longrightarrow> core f' = core f"
  by (auto simp: PromptDataHash_def Let_def split: option.splits if_splits)

lemma core_take_request: "take_request d reqData f = Ret f' \<Longrightarrow> core f' = core f"
  by (auto simp: take_request_def Let_def dest!: core_PromptDataHash)

lemma set_log_keeps [simp]:
  "f_config (set_log k v f) = f_config f" "f_cluster (set_log k v f) = f_cluster f"
  "f_serverIp (set_log k v f) = f_serverIp f" "f_callbacks (set_log k v f) = f_callbacks f"
  "f_promptHash (set_log k v f) = f_promptHash f" "f_modelName (set_log k v f) = f_modelName f"
  "f_transcoder (set_log k v f) = f_transcoder f" "f_body (set_log k v f) = f_body f"
  "f_isStream (set_log k v f) = f_isStream f" "f_dropRespData (set_log k v f) = f_dropRespData f"
  by (simp_all add: set_log_def)

text \<open>The part of the filter that is fixed once a host is chosen.\<close>

definition target :: "proxy_filter \<Rightarrow> llm_config \<times> string \<times> string \<times> string \<times> 64 word list" where
  "target f = (f_config f, f_modelName f, f_cluster f, f_serverIp f, f_promptHash f)"

lemma send_request_cases:
  assumes "send_request d now reqData h f q = Ret (action, f', q')"
  obtains (refused) err where "action = failedToConvertRequest f' err" "core f' = core f" "q' = q"
  | (counted) f1 f2 where "f_AddRequest d now f1 q = Ret (f2, q')" "core f1 = core f"
      "target f1 = target (f\<lparr>f_serverIp := h_ip h\<rparr>)"
      "cb_override (f_callbacks f1) = cb_override (f_callbacks f)"
      "f' = setSendFinishTimestamp now f2" "action = Continue"
proof -
  define f0 where "f0 = set_log ''ai_backend_protocol'' (AString (rd_BackendProtocol reqData)) (f\<lparr>f_serverIp := h_ip h\<rparr>)"
  have keep0: "core f0 = core f" "target f0 = target (f\<lparr>f_serverIp := h_ip h\<rparr>)" "f_callbacks f0 = f_callbacks f"
    by (simp_all add: f0_def target_def)
  from assms obtain t where t: "f_transcoder f0 = Some t"
    by (cases "f_transcoder f0") (simp_all add: send_request_def Let_def f0_def)
  obtain r headers body t' where enc: "EncodeRequest (d_buffer_set d)
      (if rd_LbOptions reqData \<noteq> None \<and> GetLoraID (rd_LbOptions reqData) \<noteq> []
       then GetLoraID (rd_LbOptions reqData) else DefaultModelName) (rd_BackendProtocol reqData)
      (cb_headers (f_callbacks f0)) (f_body f0) t = (r, headers, body, t')"
    by (metis prod.exhaust)
  define f1 where "f1 = f0\<lparr>f_transcoder := Some t',
     f_callbacks := (f_callbacks f0)\<lparr>cb_headers := headers\<rparr>, f_body := body\<rparr>"
  have keep1: "core f1 = core f" "target f1 = target (f\<lparr>f_serverIp := h_ip h\<rparr>)"
    "cb_override (f_callbacks f1) = cb_override (f_callbacks f)"
    using keep0 by (simp_all add: f1_def target_def)
  note body = assms [unfolded send_request_def Let_def, folded f0_def, simplified t option.case enc prod.case, folded f1_def]
  consider "r = Panic" | err where "r = Ret (Inl err)" | stream where "r = Ret (Inr stream)"
    by (metis run.exhaust sum.exhaust)
  then show ?thesis
  proof cases
    case 1
    with body show ?thesis by simp
  next
    case (2 err)
    with body keep1 show ?thesis by (intro refused [of err]) auto
  next
    case (3 stream)
    define f2 where "f2 = set_log ''ai_stream_request'' (ABool stream) f1\<lparr>f_isStream := stream\<rparr>"
    have keep2: "core f2 = core f" "target f2 = target (f\<lparr>f_serverIp := h_ip h\<rparr>)"
      "cb_override (f_callbacks f2) = cb_override (f_callbacks f)"
      using keep1 by (simp_all add: f2_def target_def)
    from body 3 obtain f3 where "f_AddRequest d now f2 q = Ret (f3, q')" "f' = setSendFinishTimestamp now f3"
      "action = Continue"
      by (auto simp: f2_def)
    with keep2 show ?thesis by (intro counted)
  qed
qed

lemma send_request_counts:
  assumes "send_request d now reqData h f q = Ret (action, f', q')"
  shows "(core f' = core f \<and> q' = q \<and> action \<noteq> Continue) \<or>
   (\<exists>f1 f2. f_AddRequest d now f1 q = Ret (f2, q') \<and> core f1 = core f \<and> view f' = view f2 \<and> action = Continue)"
  using assms
  by (cases rule: send_request_cases) (auto simp: failedToConvertRequest_def setSendFinishTimestamp_def)

text \<open>The three ways through \<open>DecodeRequest\<close>: answered at once, no host, sent.\<close>

lemma f_DecodeRequest_cases:
  assumes "f_DecodeRequest d now f g q = Ret (action, f', g', q')"
  obtains (answered) "read_request d f = (Ret (Inl action), f')" "g' = g" "q' = q"
  | (no_host) reqData f1 f2 cb err where "read_request d f = (Ret (Inr reqData), f1)" "take_request d reqData f1 = Ret f2"
      "ChooseServer (d_balancer d) (d_upstream d) (initLoadBalanceContext f2) (f_cluster f2)
         (Algorithm (plugin_conf (f_config f2))) (f_callbacks f2) g = (Ret (Inl err), cb, g')"
      "f' = f2\<lparr>f_callbacks := cb\<rparr>" "q' = q" "action = noUpstream f' err"
  | (sent) reqData f1 f2 cb h where "read_request d f = (Ret (Inr reqData), f1)" "take_request d reqData f1 = Ret f2"
      "ChooseServer (d_balancer d) (d_upstream d) (initLoadBalanceContext f2) (f_cluster f2)
         (Algorithm (plugin_conf (f_config f2))) (f_callbacks f2) g = (Ret (Inr h), cb, g')"
      "send_request d now reqData h (f2\<lparr>f_callbacks := cb\<rparr>) q = Ret (action, f', q')"
proof -
  obtain r f1 where read: "read_request d f = (r, f1)" by (rule prod.exhaust)
  consider reply where "r = Ret (Inl reply)" | reqData where "r = Ret (Inr reqData)" | "r = Panic"
    by (metis run.exhaust sum.exhaust)
  then show ?thesis
  proof cases
    case 1
    with read assms show ?thesis by (intro answered) (auto simp: f_DecodeRequest_def)
  next
    case (2 reqData)
    with read assms obtain f2 where f2: "take_request d reqData f1 = Ret f2"
      by (auto simp: f_DecodeRequest_def)
    obtain c cb g1 where ch: "ChooseServer (d_balancer d) (d_upstream d) (initLoadBalanceContext f2) (f_cluster f2)
         (Algorithm (plugin_conf (f_config f2))) (f_callbacks f2) g = (c, cb, g1)" by (metis prod.exhaust)
    consider err where "c = Ret (Inl err)" | h where "c = Ret (Inr h)" | "c = Panic"
      by (metis run.exhaust sum.exhaust)
    then show ?thesis
      using 2 read assms f2 ch by cases (auto simp: f_DecodeRequest_def Let_def intro: no_host sent)
  next
    case 3
    with read assms show ?thesis by (simp add: f_DecodeRequest_def)
  qed
qed

lemma DecodeRequest_counts:
  assumes "f_DecodeRequest d now f g q = Ret (action, f', g', q')"
  shows "(core f' = core f \<and> q' = q \<and> action \<noteq> Continue) \<or>
   (\<exists>f1 f2. f_AddRequest d now f1 q = Ret (f2, q') \<and> core f1 = core f \<and> view f' = view f2 \<and> action = Continue)"
  using assms
proof (cases rule: f_DecodeRequest_cases)
  case answered
  then show ?thesis
    by (auto dest: core_read_request simp: read_request_def badRequest_def Let_def
        split: run.splits option.splits prod.splits sum.splits if_splits)
next
  case no_host
  then show ?thesis by (auto simp: noUpstream_def dest!: core_read_request core_take_request)
next
  case sent
  from send_request_counts [OF sent(4)] core_read_request [OF sent(1)] core_take_request [OF sent(2)]
  show ?thesis by simp
qed

subsection \<open>The accounting invariant\<close>

definition accounted :: "string \<Rightarrow> phase \<Rightarrow> proxy_filter \<Rightarrow> trace \<Rightarrow> bool" where
  "accounted uuid ph f tr \<longleftrightarrow>
     f_uniqueId f \<in> {[], uuid} \<and> (f_timer_armed f \<longrightarrow> f_promptDecreaseTimer f) \<and>
     (if f_isIncreaseRecorded f then
        f_isModelLoadAwareEnable f \<and> ph \<noteq> Fresh \<and>
        (if ph = Logged then
           \<not> f_timer_armed f \<and>
           (\<exists>tr' t ok. tr = tr' @ [(t, ok)] \<and> remove_task t \<and> task_id t = Some (JStr uuid) \<and>
              counted (JStr uuid) (of_bool (f_isPromptLengthDeleted f)) tr')
         else counted (JStr uuid) (of_bool (f_isPromptLengthDeleted f)) tr)
      else quiet tr \<and> \<not> f_timer_armed f \<and> \<not> f_isPromptLengthDeleted f) \<and>
     (\<forall>(t, ok) \<in> set tr. t_TraceId t = [])"

lemma accounted_logged:
  assumes "accounted uuid Logged f tr"
  shows "quiet tr \<or>
    (\<exists>tr' t ok n. tr = tr' @ [(t, ok)] \<and> remove_task t \<and> task_id t = Some (JStr uuid) \<and>
       n \<le> 1 \<and> counted (JStr uuid) n tr')"
proof (cases "f_isIncreaseRecorded f")
  case True
  with assms obtain tr' t ok where
    "tr = tr' @ [(t, ok)]" "remove_task t" "task_id t = Some (JStr uuid)"
    "counted (JStr uuid) (of_bool (f_isPromptLengthDeleted f)) tr'"
    by (auto simp: accounted_def)
  then show ?thesis
    by (intro disjI2 exI [of _ tr'] exI [of _ t] exI [of _ ok]
        exI [of _ "of_bool (f_isPromptLengthDeleted f)"]) simp
qed (use assms in \<open>simp add: accounted_def\<close>)

lemma accounted_view:
  assumes "accounted uuid ph f tr" "view f' = view f"
  shows "accounted uuid ph f' tr"
proof -
  from assms(2) have eqs: "f_isIncreaseRecorded f' = f_isIncreaseRecorded f" "f_uniqueId f' = f_uniqueId f"
    "f_isPromptLengthDeleted f' = f_isPromptLengthDeleted f" "f_promptDecreaseTimer f' = f_promptDecreaseTimer f"
    "f_timer_armed f' = f_timer_armed f" "f_isModelLoadAwareEnable f' = f_isModelLoadAwareEnable f"
    by (simp_all add: view_def)
  show ?thesis using assms(1) unfolding accounted_def eqs .
qed

lemma accounted_core:
  "accounted uuid Fresh f tr \<Longrightarrow> core f' = core f \<Longrightarrow> accounted uuid ph f' tr"
  by (simp add: accounted_def core_def split: if_splits)

lemma accounted_neutral:
  assumes "accounted uuid ph f tr" "ph \<noteq> Logged" "t_TraceId t = []"
    "\<not> add_task t" "\<not> remove_task t" "\<not> prompt_task t"
  shows "accounted uuid ph f (tr @ [(t, ok)])"
  using assms counted_snoc [of "JStr uuid" "of_bool (f_isPromptLengthDeleted f)" tr t ok]
  by (auto simp: accounted_def)

lemma accounted_delete_prompt:
  assumes "accounted (d_uuid d) ph f (snd q)" "ph \<noteq> Logged" "d_submit d = traced submit"
    "DeletePromptLength d f q = (f', q')"
  shows "accounted (d_uuid d) ph f' (snd q')"
proof (cases "prompt_length_due f")
  case True
  from assms(1) have "f_uniqueId f \<in> {[], d_uuid d}" by (simp add: accounted_def)
  from delete_prompt_length_submits [OF assms(3) this, of q] True assms(4)
  obtain s ok r where eff: "q' = (s, snd q @ [(inference_task ''DELETE'' MetaDataCenterLoadPromptLength r, ok)])"
    "ir_RequestId r = d_uuid d" "ir_TraceId r = []"
    "view f' = (f_isIncreaseRecorded f, ok \<or> f_isPromptLengthDeleted f, False,
       f_timer_armed f \<and> \<not> f_promptDecreaseTimer f, d_uuid d, f_isModelLoadAwareEnable f)"
    by (auto simp: DeletePromptLength_def)
  from True have due: "f_isIncreaseRecorded f" "\<not> f_isPromptLengthDeleted f"
    by (simp_all add: prompt_length_due_def)
  with assms(1,2) have "counted (JStr (d_uuid d)) 0 (snd q)" by (simp add: accounted_def)
  from counted_snoc [OF this, of "inference_task ''DELETE'' MetaDataCenterLoadPromptLength r" ok] eff(2)
  have "counted (JStr (d_uuid d)) (of_bool ok) (snd q')" by (simp add: eff(1))
  then show ?thesis
    using assms(1,2) eff due by (auto simp: accounted_def view_def)
qed (use assms in \<open>simp add: DeletePromptLength_def\<close>)

lemma accounted_save:
  assumes "accounted (d_uuid d) ph f (snd q)" "ph \<noteq> Logged" "d_submit d = traced submit"
  shows "accounted (d_uuid d) ph f (snd (f_SaveKVCache d f q))"
  using SaveKVCache_submits [OF assms(3), of f q] assms(1,2) accounted_neutral by fastforce

lemma accounted_add:
  assumes "accounted (d_uuid d) Fresh f (snd q)" "d_submit d = traced submit" "f_AddRequest d now f q = Ret (f', q')"
  shows "accounted (d_uuid d) Decoded f' (snd q')"
proof -
  from assms(1) have pre: "f_uniqueId f \<in> {[], d_uuid d}" "\<not> f_isIncreaseRecorded f" "\<not> f_timer_armed f"
    "quiet (snd q)" "\<not> f_isPromptLengthDeleted f" "\<forall>(t, ok) \<in> set (snd q). t_TraceId t = []"
    by (simp_all add: accounted_def split: if_splits)
  from f_AddRequest_submits [OF assms(2) pre(1-3) assms(3)]
  consider "f' = f" "q' = q"
    | s ok r where "q' = (s, snd q @ [(inference_task ''POST'' MetaDataCenterLoadPath r, ok)])"
      "ir_RequestId r = d_uuid d" "ir_TraceId r = []" "f_isIncreaseRecorded f' = ok" "f_isModelLoadAwareEnable f'"
      "f_uniqueId f' = d_uuid d" "f_isPromptLengthDeleted f' = f_isPromptLengthDeleted f"
      "f_timer_armed f' \<longrightarrow> f_promptDecreaseTimer f' \<and> ok"
    by blast
  then show ?thesis
  proof cases
    case 1
    with accounted_core [OF assms(1), of f Decoded] show ?thesis by simp
  next
    case (2 s ok r)
    have "ok \<Longrightarrow> counted (JStr (d_uuid d)) 0 (snd q')"
      using counted_add [OF pre(4), of "inference_task ''POST'' MetaDataCenterLoadPath r" "JStr (d_uuid d)"] 2(1,2)
      by simp
    with 2 pre show ?thesis by (auto simp: accounted_def)
  qed
qed

lemma accounted_log:
  assumes "accounted (d_uuid d) ph f (snd q)" "ph \<noteq> Logged" "d_submit d = traced submit" "f_OnLog d f q = (f', q')"
  shows "accounted (d_uuid d) Logged f' (snd q')"
proof -
  from OnLog_decreases [OF assms(4)] obtain f0 f1 where f01: "view f0 = view f" "view f' = view f1"
    "(f1, q') = (if f_isIncreaseRecorded f then DecreaseMetaDataCenter d f0 q else (f0, q))" by blast
  from assms(1) f01(1) have acc: "accounted (d_uuid d) ph f0 (snd q)" by (rule accounted_view)
  show ?thesis
  proof (cases "f_isIncreaseRecorded f")
    case True
    with f01(1) have rec: "f_isIncreaseRecorded f0" by (simp add: view_def)
    with acc have pre: "f_uniqueId f0 \<in> {[], d_uuid d}" "f_isModelLoadAwareEnable f0"
      by (simp_all add: accounted_def)
    from DecreaseMetaDataCenter_submits [OF assms(3) pre, of q] f01(3) True
    obtain s ok r where "q' = (s, snd q @ [(inference_task ''DELETE'' MetaDataCenterLoadPath r, ok)])"
      "ir_RequestId r = d_uuid d" "ir_TraceId r = []"
      "view f1 = (f_isIncreaseRecorded f0, f_isPromptLengthDeleted f0, False,
         f_timer_armed f0 \<and> \<not> f_promptDecreaseTimer f0, d_uuid d, True)" by auto
    with acc assms(2) rec have "accounted (d_uuid d) Logged f1 (snd q')"
      by (auto simp: accounted_def view_def)
    with f01(2) show ?thesis by (rule accounted_view [rotated])
  next
    case False
    with f01 have "view f' = view f" "q' = q" by simp_all
    moreover have "accounted (d_uuid d) Logged f (snd q)" using assms(1) False by (simp add: accounted_def)
    ultimately show ?thesis using accounted_view by blast
  qed
qed

lemma accounted_armed: "accounted uuid ph f tr \<Longrightarrow> f_timer_armed f \<Longrightarrow> ph \<noteq> Logged"
  by (auto simp: accounted_def split: if_splits)

lemma accounted_disarm:
  "accounted uuid ph f tr \<Longrightarrow> ph \<noteq> Logged \<Longrightarrow> accounted uuid ph (f\<lparr>f_timer_armed := False\<rparr>) tr"
  by (simp add: accounted_def split: if_splits)

lemma accounted_step:
  assumes "request_step env d (ph, f, g, q) (ph', f', g', q')" "d_submit d = traced submit"
    "accounted (d_uuid d) ph f (snd q)"
  shows "accounted (d_uuid d) ph' f' (snd q')"
  using assms(1)
proof (cases rule: request_stepE [consumes 1, case_names decode headers whole piece timer log others])
  case (decode now action)
  from DecodeRequest_counts [OF decode(3)]
  show ?thesis
  proof (elim disjE exE conjE)
    assume "core f' = core f" "q' = q"
    with accounted_core [of "d_uuid d" f "snd q" f'] assms(3) decode(1,2) show ?thesis by simp
  next
    fix f1 f2
    assume add: "f_AddRequest d now f1 q = Ret (f2, q')" and "core f1 = core f" and view: "view f' = view f2"
    with accounted_core [of "d_uuid d" f "snd q" f1 Fresh] assms(3) decode(1)
    have "accounted (d_uuid d) Fresh f1 (snd q)" by simp
    from accounted_view [OF accounted_add [OF this assms(2) add] view] decode(2) show ?thesis by simp
  qed
next
  case (headers h endStream action h')
  with EncodeHeaders_keeps [OF headers(4)] assms(3) accounted_save [OF assms(3) _ assms(2)] show ?thesis by auto
next
  case (whole h buffer action h' buffer')
  from EncodeResponse_deletes [OF whole(4)] obtain f1 where "DeletePromptLength d f q = (f1, q')" "view f' = view f1"
    by blast
  with accounted_delete_prompt [OF assms(3) _ assms(2)] whole(1,3) accounted_view show ?thesis by blast
next
  case (piece usec h b action h' buffer')
  have start: "accounted (d_uuid d) ph (f\<lparr>f_fistRtTimestamp := usec\<rparr>) (snd q)"
    using assms(3) by (rule accounted_view) simp
  from EncodeData_deletes [OF piece(4)] show ?thesis
    using accounted_delete_prompt [OF start _ assms(2)] piece(1,3) assms(3) accounted_view by blast
next
  case timer
  from assms(3) timer(1) have "ph \<noteq> Logged" by (rule accounted_armed)
  with accounted_delete_prompt [OF accounted_disarm [OF assms(3) this] this assms(2)] timer(2,3)
  show ?thesis by (simp add: timer_fires_def)
next
  case log
  with accounted_log [OF assms(3) log(1) assms(2) log(2)] show ?thesis by simp
next
  case others
  with assms(3) show ?thesis by simp
qed

lemma request_run_accounted:
  assumes "request_run env d (filterFactory c ps cb body meta) init st" "d_submit d = traced submit"
  shows "case st of (ph, f, g, q) \<Rightarrow> accounted (d_uuid d) ph f (snd q)"
  using assms(1)
proof (induction)
  case start
  show ?case by (simp add: accounted_def filterFactory_def)
next
  case (step st st')
  obtain ph f g q where st: "st = (ph, f, g, q)" by (metis prod.exhaust)
  obtain ph' f' g' q' where st': "st' = (ph', f', g', q')" by (metis prod.exhaust)
  from step accounted_step [OF _ assms(2)] show ?case by (simp add: st st')
qed

subsection \<open>A sample request\<close>

text \<open>One streamed request for the model \<open>m\<close>, sent to a \<open>sglang\<close> backend.\<close>

definition sample_request_config :: llm_config where
  "sample_request_config =
     sample_llm_config\<lparr>ModelMappings := [(''m'', [(sample_rule ''base'' [])\<lparr>r_Backend := SglangBackend\<rparr>])]\<rparr>"

definition sample_params :: chat_params where
  "sample_params = \<lparr>p_Model = ''m'', p_Messages = [\<lparr>OfUser = None, OfOther = ''hi''\<rparr>], p_Stream = True, p_Rest = []\<rparr>"

definition sample_deps_on :: "(task \<Rightarrow> 's \<Rightarrow> dispatch_error option \<times> 's) \<Rightarrow> (unit, 's \<times> trace) deps" where
  "sample_deps_on submit =
     \<lparr>d_codec = sample_codec\<lparr>parse_params := (\<lambda>_. Inr sample_params)\<rparr>, d_split = False,
      d_balancer = (\<lambda>ctx cluster ty g. (Ret (Inr (BuildHost cluster ''10.0.0.1'' 80 1)), g)),
      d_upstream = (\<lambda>_. None), d_buffer_set = (\<lambda>_. None), d_submit = traced submit,
      d_sum64 = (\<lambda>_. 0), d_uuid = ''u'', d_stats = init_metrics (\<lambda>_. []), d_hostname = ''gw'',
      d_format_time = (\<lambda>_. [])\<rparr>"

definition sample_deps :: "(unit, unit \<times> trace) deps" where
  "sample_deps = sample_deps_on (\<lambda>t s. (None, s))"

definition sample_filter :: proxy_filter where
  "sample_filter = filterFactory sample_request_config \<lparr>ps_access_log = None, ps_trace_id = Some (AString ''T'')\<rparr>
     \<lparr>cb_headers = Map.empty, cb_refreshed = False, cb_override = None\<rparr> [] None"

lemmas sample_request_defs = sample_filter_def filterFactory_def sample_deps_def sample_deps_on_def sample_params_def
  sample_request_config_def sample_llm_config_def sample_rule_def sample_codec_def

lemma sample_decode_on:
  assumes "\<And>r. submit (inference_task ''POST'' MetaDataCenterLoadPath r) s = (None, s' r)"
  shows "\<exists>f r. f_DecodeRequest (sample_deps_on submit) 1 sample_filter () (s, []) =
      Ret (Continue, f, (), s' r, [(inference_task ''POST'' MetaDataCenterLoadPath r, True)]) \<and>
     f_isIncreaseRecorded f \<and> f_traceId f = ''T'' \<and>
     \<not> f_isPromptLengthDeleted f \<and> f_cluster f = ''c'' \<and> f_isModelCacheAwareEnable f \<and> f_isStream f \<and>
     f_transcoder f \<noteq> None \<and> f_fistRtTimestamp f = 0"
  using assms
  by (auto simp: f_DecodeRequest_def read_request_def GetTraceID_def GetTranscoderFactory_def transcoderFactories_def
      RegisterTranscoderFactory_def GetRequestData_def NewOpenAITranscoder_def GetModelMappings_def
      GetCandidateRule_def finish_request_data_def getPromptMessageContent_def isVlModel_def vl_message_def
      NewLoadBalancerOptions_def empty_request_data_def Encode_def Let_def sample_request_defs
      take_request_def log_options_def PromptDataHash_def f_isModelCacheAwareEnable_def set_log_def
      ChooseServer_def BuildHost_def send_request_def EncodeRequest_def plain_backend_def
      f_AddRequest_def f_isModelLoadAwareEnable_def UniqueId_def AddRequest_def traced_def setSendFinishTimestamp_def)

lemma sample_decode:
  "\<exists>f t r. f_DecodeRequest sample_deps 1 sample_filter () ((), []) = Ret (Continue, f, (), (), [(t, True)]) \<and>
     t = inference_task ''POST'' MetaDataCenterLoadPath r \<and> f_isIncreaseRecorded f \<and> f_traceId f = ''T'' \<and>
     \<not> f_isPromptLengthDeleted f \<and> f_cluster f = ''c'' \<and> f_isModelCacheAwareEnable f \<and> f_isStream f \<and>
     f_transcoder f \<noteq> None \<and> f_fistRtTimestamp f = 0"
  unfolding sample_deps_def using sample_decode_on [of "\<lambda>t s. (None, s)" "()" "\<lambda>_. ()"] by blast

lemma sample_run:
  "\<exists>f ok r r'. request_run (=) sample_deps sample_filter ((), ())
      (Logged, f, (), (), [(inference_task ''POST'' MetaDataCenterLoadPath r, True), (inference_task ''DELETE'' MetaDataCenterLoadPath r', ok)])"
proof -
  from sample_decode obtain f r where dec:
    "f_DecodeRequest sample_deps 1 sample_filter () ((), []) =
       Ret (Continue, f, (), (), [(inference_task ''POST'' MetaDataCenterLoadPath r, True)])"
    and rec: "f_isIncreaseRecorded f" by auto
  let ?q = "((), [(inference_task ''POST'' MetaDataCenterLoadPath r, True)])"
  have start: "request_run (=) sample_deps sample_filter ((), ()) (Fresh, sample_filter, (), (), [])"
    by (rule request_run.start [OF refl])
  have run: "request_run (=) sample_deps sample_filter ((), ()) (Decoded, f, (), ?q)"
    by (rule request_run.step [OF start request_step.decode [OF dec]])
  have sub: "d_submit sample_deps = traced (\<lambda>t s. (None, s))" by (simp add: sample_deps_def sample_deps_on_def)
  have "accounted (d_uuid sample_deps) Decoded f (snd ?q)"
    using request_run_accounted [OF run [unfolded sample_filter_def] sub] by simp
  then have pre: "f_uniqueId f \<in> {[], d_uuid sample_deps}" "f_isModelLoadAwareEnable f"
    using rec by (simp_all add: accounted_def)
  obtain f' q' where log: "f_OnLog sample_deps f ?q = (f', q')" by (rule prod.exhaust)
  from OnLog_decreases [OF log] rec obtain f0 f1 where f0: "view f0 = view f" "DecreaseMetaDataCenter sample_deps f0 ?q = (f1, q')"
    by metis
  then have "f_uniqueId f0 \<in> {[], d_uuid sample_deps}" "f_isModelLoadAwareEnable f0" using pre by (simp_all add: view_def)
  from DecreaseMetaDataCenter_submits [OF sub this, of ?q] f0(2)
  obtain s ok r' where q': "q' = (s, snd ?q @ [(inference_task ''DELETE'' MetaDataCenterLoadPath r', ok)])" by auto
  have "request_run (=) sample_deps sample_filter ((), ()) (Logged, f', (), q')"
    by (rule request_run.step [OF run request_step.log [OF _ log]]) simp
  then show ?thesis by (auto simp: q')
qed

subsection \<open>The properties of a run\<close>



text \<open>
  The trace id is lost on the way to the metadata center: whatever the trace id of the request,
  every task it ever submits carries the empty one.
\<close>

theorem request_trace_lost:
  assumes "d_submit d = traced submit"
    and "request_run env d (filterFactory c ps cb body meta) init (ph, f, g, s, tr)"
    and "(t, ok) \<in> set tr"
  shows "t_TraceId t = []"
  using request_run_accounted [OF assms(2,1)] assms(3) by (auto simp: accounted_def)

theorem request_trace_lost_witness:
  "\<exists>f t. request_run (=) sample_deps sample_filter ((), ()) (Decoded, f, (), (), [(t, True)]) \<and> f_traceId f = ''T'' \<and> t_TraceId t = []"
proof -
  from sample_decode obtain f t where dec:
    "f_DecodeRequest sample_deps 1 sample_filter () ((), []) = Ret (Continue, f, (), (), [(t, True)])" "f_traceId f = ''T''"
    by blast
  have start: "request_run (=) sample_deps sample_filter ((), ()) (Fresh, sample_filter, (), (), [])"
    by (rule request_run.start [OF refl])
  have run: "request_run (=) sample_deps sample_filter ((), ()) (Decoded, f, (), (), [(t, True)])"
    by (rule request_run.step [OF start request_step.decode [OF dec(1)]])
  have sub: "d_submit sample_deps = traced (\<lambda>t s. (None, s))" by (simp add: sample_deps_def sample_deps_on_def)
  from request_trace_lost [OF sub run [unfolded sample_filter_def], of t True] run dec(2) show ?thesis by auto
qed

end
