(* ===== verification/FilterOutcomes.thy ===== *)
theory FilterOutcomes
  imports FilterLifecycle
begin

text \<open>
  What the callbacks of the filter answer: how a request is classified and where it is sent, what
  the balancer is told about it, and what becomes of the body of a response.
\<close>

subsection \<open>Reading a request\<close>

text \<open>Which rule a well-formed request is sent by, if any.\<close>

definition route_of :: "proxy_filter \<Rightarrow> string \<Rightarrow> rule option" where
  "route_of f model = find (matches (cb_headers (f_callbacks f))) (GetModelMappings (ModelMappings (f_config f)) model)"

definition well_formed :: "chat_params \<Rightarrow> bool" where
  "well_formed msg \<longleftrightarrow> p_Messages msg \<noteq> [] \<and> p_Model msg \<noteq> []"

lemma GetRequestData_routes:
  assumes "t_config t = Some c" "ModelMappings c \<noteq> []"
  shows "\<exists>r t'. GetRequestData cd headers data t = (Ret r, t') \<and>
    (case parse_params cd data of
       Inl err \<Rightarrow> r = Inl (ErrorString err)
     | Inr msg \<Rightarrow>
         if \<not> well_formed msg then \<exists>s. r = Inl (ErrorString s)
         else
           (case find (matches headers) (GetModelMappings (ModelMappings c) (p_Model msg)) of
              None \<Rightarrow> \<exists>s. r = Inl (ModelNotExist (ErrorString s))
            | Some rule \<Rightarrow> \<exists>rd. r = Inr rd \<and> rd_ModelName rd = p_Model msg \<and> rd_SceneName rd = r_SceneName rule \<and>
                rd_Cluster rd = r_Cluster rule \<and> rd_BackendProtocol rd = r_Backend rule))"
  using assms
  by (auto simp: GetRequestData_def Let_def well_formed_def not_exist_def WrapModelNotExistError_def
      GetCandidateRule_find finish_request_data_def empty_request_data_def
      split: sum.split option.split)

lemma read_request_routes:
  assumes "Protocol (plugin_conf (f_config f)) = ''openai''" "ModelMappings (f_config f) \<noteq> []"
    and "GetTraceID (f_state f) = Ret tid"
  shows "\<exists>r f'. read_request d f = (Ret r, f') \<and>
    (case parse_params (d_codec d) (f_body f) of
       Inl err \<Rightarrow> \<exists>l. r = Inl (LocalReply l) \<and> lr_code l = 400
     | Inr msg \<Rightarrow>
         if \<not> well_formed msg then \<exists>l. r = Inl (LocalReply l) \<and> lr_code l = 400
         else
           (case route_of f (p_Model msg) of
              None \<Rightarrow> \<exists>l. r = Inl (LocalReply l) \<and> lr_code l = 404
            | Some rule \<Rightarrow> \<exists>rd. r = Inr rd \<and> rd_ModelName rd = p_Model msg \<and>
                rd_Cluster rd = r_Cluster rule \<and> rd_BackendProtocol rd = r_Backend rule))"
proof -
  have factory: "GetTranscoderFactory ''openai'' = Some NewOpenAITranscoder"
    by (simp add: GetTranscoderFactory_def transcoderFactories_def RegisterTranscoderFactory_def)
  have cfg: "t_config (NewOpenAITranscoder (Some (f_config f)) (d_split d)) = Some (f_config f)"
    by (simp add: NewOpenAITranscoder_def)
  from GetRequestData_routes [OF cfg assms(2), of "d_codec d" "cb_headers (f_callbacks f)" "f_body f"]
  obtain r t' where got: "GetRequestData (d_codec d) (cb_headers (f_callbacks f)) (f_body f)
      (NewOpenAITranscoder (Some (f_config f)) (d_split d)) = (Ret r, t')"
    and r: "case parse_params (d_codec d) (f_body f) of
       Inl err \<Rightarrow> r = Inl (ErrorString err)
     | Inr msg \<Rightarrow>
         if \<not> well_formed msg then \<exists>s. r = Inl (ErrorString s)
         else
           (case route_of f (p_Model msg) of
              None \<Rightarrow> \<exists>s. r = Inl (ModelNotExist (ErrorString s))
            | Some rule \<Rightarrow> \<exists>rd. r = Inr rd \<and> rd_ModelName rd = p_Model msg \<and> rd_SceneName rd = r_SceneName rule \<and>
                rd_Cluster rd = r_Cluster rule \<and> rd_BackendProtocol rd = r_Backend rule)"
    unfolding route_of_def by blast
  define f1 where "f1 = f\<lparr>f_traceId := tid, f_transcoder := Some t'\<rparr>"
  have read: "read_request d f = (Ret (case r of
      Inl err \<Rightarrow> Inl (if is_model_not_exist err
        then LocalReply (NewGatewayErrorResponseWithMsg (f_traceId f1) no_headers 404 NotFoundError (Error err))
        else badRequest f1 err)
    | Inr rd \<Rightarrow> Inr rd), f1)"
    using assms(1,3) got by (simp add: read_request_def Let_def factory f1_def split: sum.split)
  note codes = badRequest_def NewGatewayErrorResponseWithMsg_def
  consider err where "parse_params (d_codec d) (f_body f) = Inl err"
    | msg where "parse_params (d_codec d) (f_body f) = Inr msg" "\<not> well_formed msg"
    | msg where "parse_params (d_codec d) (f_body f) = Inr msg" "well_formed msg" "route_of f (p_Model msg) = None"
    | msg rule where "parse_params (d_codec d) (f_body f) = Inr msg" "well_formed msg" "route_of f (p_Model msg) = Some rule"
    by (metis sum.exhaust option.exhaust)
  then show ?thesis
    using r read by cases (auto simp: codes)
qed

text \<open>
  C24. How a request is read.  With a configured model mapping and the protocol \<open>openai\<close>, a
  request whose body does not parse, has no messages or names no model is answered 400; one whose
  model has no rule its headers match is answered 404; every other request is accepted, for the
  cluster and the backend of the first rule of its model that its headers match.
\<close>

theorem request_routed:
  assumes "Protocol (plugin_conf (f_config f)) = ''openai''" "ModelMappings (f_config f) \<noteq> []"
    and "GetTraceID (f_state f) = Ret tid"
  shows "\<exists>r f'. read_request d f = (Ret r, f') \<and>
    (case parse_params (d_codec d) (f_body f) of
       Inl err \<Rightarrow> \<exists>l. r = Inl (LocalReply l) \<and> lr_code l = 400
     | Inr msg \<Rightarrow>
         if \<not> well_formed msg then \<exists>l. r = Inl (LocalReply l) \<and> lr_code l = 400
         else
           (case route_of f (p_Model msg) of
              None \<Rightarrow> \<exists>l. r = Inl (LocalReply l) \<and> lr_code l = 404
            | Some rule \<Rightarrow> \<exists>rd. r = Inr rd \<and> rd_ModelName rd = p_Model msg \<and>
                rd_Cluster rd = r_Cluster rule \<and> rd_BackendProtocol rd = r_Backend rule))"
  using assms by (rule read_request_routes)

theorem request_routed_witness:
  "\<exists>rd f'. read_request sample_deps sample_filter = (Ret (Inr rd), f') \<and> rd_ModelName rd = ''m'' \<and>
     rd_Cluster rd = ''c'' \<and> rd_BackendProtocol rd = SglangBackend"
proof -
  have "Protocol (plugin_conf (f_config sample_filter)) = ''openai''" "ModelMappings (f_config sample_filter) \<noteq> []"
    "GetTraceID (f_state sample_filter) = Ret ''T''"
    by (simp_all add: sample_request_defs GetTraceID_def)
  moreover have "parse_params (d_codec sample_deps) (f_body sample_filter) = Inr sample_params"
    by (simp add: sample_request_defs)
  moreover have "well_formed sample_params" by (simp add: well_formed_def sample_params_def)
  moreover have "route_of sample_filter (p_Model sample_params) = Some ((sample_rule ''base'' [])\<lparr>r_Backend := SglangBackend\<rparr>)"
    by (simp add: route_of_def sample_request_defs GetModelMappings_def matches_def)
  ultimately show ?thesis
    using request_routed [of sample_filter "''T''" sample_deps] by (auto simp: sample_params_def sample_rule_def)
qed

subsection \<open>Sending a request\<close>

lemma f_AddRequest_target:
  "f_AddRequest d now f q = Ret (f', q') \<Longrightarrow>
     target f' = target f \<and> cb_override (f_callbacks f') = cb_override (f_callbacks f)"
  by (auto simp: f_AddRequest_def UniqueId_def Let_def target_def set_log_def split: prod.splits option.splits if_splits)

lemma send_request_target:
  assumes "send_request d now reqData h f q = Ret (Continue, f', q')"
  shows "target f' = target (f\<lparr>f_serverIp := h_ip h\<rparr>) \<and> cb_override (f_callbacks f') = cb_override (f_callbacks f)"
  using assms
proof (cases rule: send_request_cases)
  case (counted f1 f2)
  from f_AddRequest_target [OF counted(1)] counted(3-5) show ?thesis
    by (simp add: setSendFinishTimestamp_def target_def)
qed (simp add: failedToConvertRequest_def)

lemma target_aware: "target f = target f' \<Longrightarrow> f_isModelCacheAwareEnable f = f_isModelCacheAwareEnable f'"
  by (simp add: target_def f_isModelCacheAwareEnable_def)

lemma take_request_keeps:
  "take_request d reqData f = Ret f' \<Longrightarrow> f_config f' = f_config f \<and> f_cluster f' = rd_Cluster reqData \<and>
     f_modelName f' = rd_ModelName reqData"
  by (auto simp: take_request_def PromptDataHash_def log_options_def Let_def split: option.splits if_splits)

lemma read_request_config: "read_request d f = (r, f') \<Longrightarrow> f_config f' = f_config f"
  by (auto simp: read_request_def Let_def split: run.splits option.splits prod.splits sum.splits if_splits)

lemma read_request_refuses:
  "read_request d f = (Ret (Inl a), f') \<Longrightarrow> \<exists>l. a = LocalReply l \<and> lr_code l \<in> {400, 404}"
  by (auto simp: read_request_def badRequest_def NewGatewayErrorResponseWithMsg_def Let_def
      split: run.splits option.splits prod.splits sum.splits if_splits)

lemma ChooseServer_answers:
  "ChooseServer glb up ctx cl ty cb g = (Ret (Inr h), cb', g') \<Longrightarrow>
     glb (WithValue ctx (LBCtxKey KeyClusterName) (AString cl)) cl ty g = (Ret (Inr h), g') \<and>
     up (Address h) = None \<and> cb_override cb' = Some (Address h)"
  by (auto simp: ChooseServer_def Let_def split: prod.splits run.splits sum.splits option.splits)

text \<open>The context a filter asks the balancer with.\<close>

definition balancer_context :: "proxy_filter \<Rightarrow> ctx" where
  "balancer_context f = WithValue (initLoadBalanceContext f) (LBCtxKey KeyClusterName) (AString (f_cluster f))"

definition saved_for :: "task \<Rightarrow> string \<Rightarrow> string \<Rightarrow> 64 word list \<Rightarrow> bool" where
  "saved_for t cluster ip hs \<longleftrightarrow> t_URL t = MetaDataCenterCacheSavePath \<and>
     t_Body t = JObj [(''cluster'', JStr cluster), (''prompt_hash'', marshal_hashes hs), (''ip'', JStr ip)]"

lemma balancer_context_hashes:
  "f_isModelCacheAwareEnable f \<Longrightarrow> balancer_context f (LBCtxKey KeyPromptHash) = Some (AHashes (f_promptHash f))"
  by (simp add: balancer_context_def initLoadBalanceContext_def setPromptsContext_def Let_def
      KeyPromptHash_def KeyClusterName_def)

lemma SaveKVCache_saves:
  "f_isModelCacheAwareEnable f \<Longrightarrow>
   \<exists>t. f_SaveKVCache d f q = snd (d_submit d t q) \<and> saved_for t (f_cluster f) (f_serverIp f) (f_promptHash f)"
  by (auto simp: f_SaveKVCache_def SaveKVCache_def saved_for_def)

lemma SaveKVCache_off: "\<not> f_isModelCacheAwareEnable f \<Longrightarrow> f_SaveKVCache d f q = q"
  by (simp add: f_SaveKVCache_def)

text \<open>
  C9. A request is answered or sent to the host the balancer chose.  \<open>DecodeRequest\<close> either
  answers the client 400 or 404 and tells the metadata center nothing, or it lets the request
  continue: then the balancer of the request's cluster chose the host, Envoy accepted its address as
  the upstream, and what the filter later saves as cached at that host are, under the same cluster,
  the very hashes the balancer was asked with.
\<close>

theorem request_sent_to_chosen_host:
  assumes "f_DecodeRequest d now f g q = Ret (action, f', g', q')"
  shows "(\<exists>l. action = LocalReply l \<and> (lr_code l = 400 \<or> lr_code l = 404) \<and> q' = q) \<or>
    (action = Continue \<and> (\<exists>f2 h.
       d_balancer d (balancer_context f2) (f_cluster f2) (Algorithm (plugin_conf (f_config f))) g = (Ret (Inr h), g') \<and>
       d_upstream d (Address h) = None \<and> cb_override (f_callbacks f') = Some (Address h) \<and>
       f_serverIp f' = h_ip h \<and> f_cluster f' = f_cluster f2 \<and>
       (if f_isModelCacheAwareEnable f' then
          \<exists>hs. balancer_context f2 (LBCtxKey KeyPromptHash) = Some (AHashes hs) \<and>
            (\<forall>p. \<exists>t. f_SaveKVCache d f' p = snd (d_submit d t p) \<and> saved_for t (f_cluster f2) (h_ip h) hs)
        else \<forall>p. f_SaveKVCache d f' p = p)))"
  using assms
proof (cases rule: f_DecodeRequest_cases)
  case answered
  from read_request_refuses [OF answered(1)] answered(3) show ?thesis by auto
next
  case no_host
  then show ?thesis by (auto simp: noUpstream_def NewGatewayErrorResponse_def NewGatewayErrorResponseWithMsg_def)
next
  case (sent reqData f1 f2 cb h)
  have conf: "f_config f2 = f_config f"
    using read_request_config [OF sent(1)] take_request_keeps [OF sent(2)] by simp
  from ChooseServer_answers [OF sent(3)] conf
  have chosen: "d_balancer d (balancer_context f2) (f_cluster f2) (Algorithm (plugin_conf (f_config f))) g = (Ret (Inr h), g')"
    "d_upstream d (Address h) = None" "cb_override cb = Some (Address h)"
    by (simp_all add: balancer_context_def)
  from sent(4) show ?thesis
  proof (cases rule: send_request_cases)
    case (refused err)
    then show ?thesis by (auto simp: failedToConvertRequest_def NewGatewayErrorResponseWithMsg_def)
  next
    case (counted f3 f4)
    from send_request_target [OF sent(4) [unfolded counted(6)]] chosen(3)
    have f': "target f' = target (f2\<lparr>f_serverIp := h_ip h\<rparr>)" "cb_override (f_callbacks f') = Some (Address h)"
      by (simp_all add: target_def)
    then have same: "f_serverIp f' = h_ip h" "f_cluster f' = f_cluster f2" "f_promptHash f' = f_promptHash f2"
      "f_isModelCacheAwareEnable f2 = f_isModelCacheAwareEnable f'"
      by (simp_all add: target_def f_isModelCacheAwareEnable_def)
    have saved: "\<exists>hs. balancer_context f2 (LBCtxKey KeyPromptHash) = Some (AHashes hs) \<and>
        (\<forall>p. \<exists>t. f_SaveKVCache d f' p = snd (d_submit d t p) \<and> saved_for t (f_cluster f2) (h_ip h) hs)"
      if "f_isModelCacheAwareEnable f'"
      using that same SaveKVCache_saves [OF that] balancer_context_hashes [of f2] by auto
    show ?thesis
      using counted(6) chosen f'(2) same(1,2) saved SaveKVCache_off [of f' d]
      by (intro disjI2 conjI exI [of _ f2] exI [of _ h]) auto
  qed
qed

theorem request_sent_to_chosen_host_witness:
  "\<exists>f' q' hs t. f_DecodeRequest sample_deps 1 sample_filter () ((), []) = Ret (Continue, f', (), q') \<and>
     f_serverIp f' = ''10.0.0.1'' \<and> cb_override (f_callbacks f') = Some (Address (BuildHost ''c'' ''10.0.0.1'' 80 1)) \<and>
     f_SaveKVCache sample_deps f' q' = snd (d_submit sample_deps t q') \<and> saved_for t ''c'' ''10.0.0.1'' hs"
proof -
  from sample_decode obtain f' q' where dec: "f_DecodeRequest sample_deps 1 sample_filter () ((), []) = Ret (Continue, f', (), q')"
    and f': "f_cluster f' = ''c''" "f_isModelCacheAwareEnable f'"
    by blast
  have bal: "d_balancer sample_deps ctx cl ty g = (Ret (Inr (BuildHost cl ''10.0.0.1'' 80 1)), g)" for ctx cl ty g
    by (simp add: sample_deps_def sample_deps_on_def)
  from request_sent_to_chosen_host [OF dec] f'(2) obtain f2 h hs where
    f2: "d_balancer sample_deps (balancer_context f2) (f_cluster f2) (Algorithm (plugin_conf (f_config sample_filter))) () = (Ret (Inr h), ())"
      "cb_override (f_callbacks f') = Some (Address h)" "f_serverIp f' = h_ip h" "f_cluster f' = f_cluster f2"
    and saved: "\<forall>p. \<exists>t. f_SaveKVCache sample_deps f' p = snd (d_submit sample_deps t p) \<and> saved_for t (f_cluster f2) (h_ip h) hs"
    by force
  from f2(1,4) bal f'(1) have h: "h = BuildHost ''c'' ''10.0.0.1'' 80 1" by simp
  from saved obtain t where "f_SaveKVCache sample_deps f' q' = snd (d_submit sample_deps t q')"
    "saved_for t (f_cluster f2) (h_ip h) hs" by blast
  with dec f2(2-4) f'(1) h show ?thesis by (intro exI [of _ f'] exI [of _ q']) (auto simp: BuildHost_def)
qed

subsection \<open>What the balancer is told\<close>

lemmas lb_keys = KeyClusterName_def KeyPromptHash_def KeyLoadAwareEnable_def KeyCacheAwareEnable_def
  KeyCandidatePercent_def KeyCacheRatioWeight_def KeyLoadRequestWeight_def KeyLoadPrefillWeight_def
  KeyTraceId_def KeyModelName_def KeyFilterCallback_def

text \<open>
  C27. The rule of a model reaches the balancer.  With a load balancing rule for the model, the
  balancer's two switches, its percentage of candidates and its three weights are those of the rule,
  and the filter's switches agree with them; without one the balancer takes its global values while
  the filter counts the request as load aware and cache aware, so the two disagree exactly when a
  global switch is off.
\<close>

theorem rule_reaches_balancer:
  "(case FindLbMappingRule (f_config f) (f_modelName f) of
      Some r \<Rightarrow>
        isModelLoadAwareEnable g (balancer_context f) = LoadAwareEnable r \<and>
        f_isModelLoadAwareEnable f = LoadAwareEnable r \<and>
        isModelCacheAwareEnable g (balancer_context f) = CacheAwareEnable r \<and>
        f_isModelCacheAwareEnable f = CacheAwareEnable r \<and>
        candidateNumFromContext g (balancer_context f) hosts =
          min (max 1 (go_quot (wrap64 (int (length hosts) * CandidatePercent r)) 100)) (int (length hosts)) \<and>
        weight_of (balancer_context f) KeyCacheRatioWeight InferLbCacheRatioWeight = CacheRadioWeight r \<and>
        weight_of (balancer_context f) KeyLoadRequestWeight InferLbRequestLoadWeight = RequestLoadWeight r \<and>
        weight_of (balancer_context f) KeyLoadPrefillWeight InferLbPrefillLoadWeight = PrefillLoadWeight r
    | None \<Rightarrow>
        isModelLoadAwareEnable g (balancer_context f) = g_load_enable g \<and> f_isModelLoadAwareEnable f \<and>
        isModelCacheAwareEnable g (balancer_context f) = g_cache_enable g \<and> f_isModelCacheAwareEnable f)"
proof (cases "FindLbMappingRule (f_config f) (f_modelName f)")
  case None
  then show ?thesis
    by (simp add: balancer_context_def initLoadBalanceContext_def setPromptsContext_def setLoadBalanceConfig_def
        isModelLoadAwareEnable_def isModelCacheAwareEnable_def f_isModelLoadAwareEnable_def
        f_isModelCacheAwareEnable_def background_def lb_keys Let_def)
next
  case (Some r)
  then obtain m where "LbMappingConfigs (f_config f) = Some m"
    by (auto simp: FindLbMappingRule_def split: option.splits)
  with Some show ?thesis
    by (simp add: balancer_context_def initLoadBalanceContext_def setPromptsContext_def setLoadBalanceConfig_def
        isModelLoadAwareEnable_def isModelCacheAwareEnable_def f_isModelLoadAwareEnable_def
        f_isModelCacheAwareEnable_def candidateNumFromContext_def weight_of_def GetValueFromCtx_def
        background_def lb_keys Let_def)
qed

subsection \<open>The body of a response\<close>

definition accepts_all :: "('g, 'q) deps \<Rightarrow> bool" where
  "accepts_all d \<longleftrightarrow> (\<forall>b. d_buffer_set d b = None)"

definition resp :: "proxy_filter \<Rightarrow> bool \<times> bool \<times> openai_transcoder option" where
  "resp f = (f_isStream f, f_dropRespData f, f_transcoder f)"

lemma resp_updates [simp]:
  "resp (f\<lparr>f_isIncreaseRecorded := b\<rparr>) = resp f" "resp (f\<lparr>f_isPromptLengthDeleted := b\<rparr>) = resp f"
  "resp (f\<lparr>f_promptDecreaseTimer := b\<rparr>) = resp f" "resp (f\<lparr>f_timer_armed := b\<rparr>) = resp f"
  "resp (f\<lparr>f_fistRtTimestamp := n\<rparr>) = resp f" "resp (f\<lparr>f_lastRtTimestamp := n\<rparr>) = resp f"
  "resp (set_log k v f) = resp f" "resp (f\<lparr>f_uniqueId := u\<rparr>) = resp f"
  by (simp_all add: resp_def)

lemma resp_DeletePromptLength: "DeletePromptLength d f q = (f', q') \<Longrightarrow> resp f' = resp f"
  by (auto simp: DeletePromptLength_def delete_prompt_length_def StopPromptDecreaseTimer_def UniqueId_def Let_def
      split: prod.splits option.splits if_splits)

lemma resp_setTokenTimestamp: "setTokenTimestamp d now f q = (f', q') \<Longrightarrow> resp f' = resp f"
  by (auto simp: setTokenTimestamp_def Let_def split: prod.splits if_splits dest: resp_DeletePromptLength)

lemma doRespData_length:
  assumes "doRespData d h (Some b) f = Ret (Continue, h', Some b', f')" "\<not> f_isStream f" "\<not> f_dropRespData f" "accepts_all d"
  shows "h' ''content-length'' = Some (show_length b')"
  using assms
  by (auto simp: doRespData_def Let_def accepts_all_def badResponse_def badResponseInternal_def
      split: option.splits prod.splits if_splits)

lemma backend_error_length:
  assumes "backend_error d status h (Some b) f = (Continue, h', Some b', f')" "accepts_all d"
    "h ''content-length'' = Some (show_length b)"
  shows "h' ''content-length'' = Some (show_length b')"
  using assms
  by (auto simp: backend_error_def Let_def accepts_all_def split: option.splits if_splits)

text \<open>
  The content length tells the truth.  When the filter passes on a response it collected whole -
  an answer it converted, an error of the backend it passed or rewrote - and the content length was
  right before, it is the length of the body after, as long as Envoy accepts the new body.
\<close>

theorem content_length_true:
  assumes "f_EncodeResponse d h (Some b) f q = Ret (Continue, h', Some b', f', q')"
    and "\<not> f_isStream f" "\<not> f_dropRespData f" "accepts_all d" "h ''content-length'' = Some (show_length b)"
  shows "h' ''content-length'' = Some (show_length b')"
proof -
  obtain f1 q1 where del: "DeletePromptLength d f q = (f1, q1)" by (rule prod.exhaust)
  from resp_DeletePromptLength [OF this] assms(2,3) have f1: "\<not> f_isStream f1" "\<not> f_dropRespData f1"
    by (simp_all add: resp_def)
  show ?thesis
  proof (cases "header_status h \<ge> 400")
    case True
    with assms(1) del obtain f2 where "backend_error d (header_status h) h (Some b) f2 = (Continue, h', Some b', f')"
      by (auto simp: f_EncodeResponse_def Let_def split: if_splits prod.splits)
    then show ?thesis using assms(4,5) by (rule backend_error_length)
  next
    case False
    with assms(1) del have "doRespData d h (Some b) f1 = Ret (Continue, h', Some b', f')"
      by (auto simp: f_EncodeResponse_def Let_def)
    from doRespData_length [OF this f1 assms(4)] show ?thesis .
  qed
qed

definition sample_answered :: proxy_filter where
  "sample_answered = sample_filter\<lparr>f_transcoder := Some ((NewOpenAITranscoder None False)\<lparr>backendProtocol := SglangBackend\<rparr>)\<rparr>"

definition sample_error_headers :: header_map where
  "sample_error_headers = [''content-length'' \<mapsto> show_length ''boom'']"

text \<open>An error of the backend without a JSON body, rewritten by a codec that marshals to \<open>{}\<close>.\<close>

definition sample_rewriting :: "(unit, unit \<times> trace) deps" where
  "sample_rewriting = sample_deps\<lparr>d_codec := sample_codec\<lparr>marshal_json := (\<lambda>_. Some ''{}'')\<rparr>\<rparr>"

theorem content_length_true_witness:
  "\<exists>h' f' q'. f_EncodeResponse sample_rewriting (sample_error_headers('':status'' \<mapsto> ''500'')) (Some ''boom'') sample_answered
       ((), []) = Ret (Continue, h', Some ''{}'', f', q') \<and> h' ''content-length'' = Some (show_length ''{}'')"
proof -
  let ?h = "sample_error_headers('':status'' \<mapsto> ''500'')"
  have status: "header_status ?h = 500"
    by (simp add: header_status_def header_get_def) code_simp
  have "\<exists>h' f' q'. f_EncodeResponse sample_rewriting ?h (Some ''boom'') sample_answered ((), []) =
      Ret (Continue, h', Some ''{}'', f', q')"
    unfolding f_EncodeResponse_def status
    by (simp add: DeletePromptLength_def prompt_length_due_def sample_answered_def sample_rewriting_def
        sample_request_defs isLocalReplay_def backend_error_def setLlmErrorMessage_def Encode_def Let_def)
  then obtain h' f' q' where run: "f_EncodeResponse sample_rewriting ?h (Some ''boom'') sample_answered ((), []) =
      Ret (Continue, h', Some ''{}'', f', q')" by blast
  have "\<not> f_isStream sample_answered" "\<not> f_dropRespData sample_answered" "accepts_all sample_rewriting"
    "?h ''content-length'' = Some (show_length ''boom'')"
    by (simp_all add: sample_answered_def sample_rewriting_def sample_request_defs accepts_all_def sample_error_headers_def)
  from content_length_true [OF run this] run show ?thesis by blast
qed

subsection \<open>A stream that starts with an error\<close>

text \<open>
  The pieces of a streamed response, one \<open>EncodeData\<close> after the other on the headers kept by
  \<open>EncodeHeaders\<close>; the result collects the bodies.
\<close>

fun encode_pieces ::
  "('g, 'q) deps \<Rightarrow> header_map \<Rightarrow> (int \<times> bytes) list \<Rightarrow> proxy_filter \<Rightarrow> 'q
     \<Rightarrow> ((result_action \<times> bytes option) list \<times> header_map \<times> proxy_filter \<times> 'q) run" where
  "encode_pieces d h [] f q = Ret ([], h, f, q)"
| "encode_pieces d h ((now, b) # ps) f q =
     run_bind (f_EncodeData d now h b f q) (\<lambda>(action, h, body, f, q).
       run_bind (encode_pieces d h ps f q) (\<lambda>(bodies, h, f, q). Ret ((action, body) # bodies, h, f, q)))"

lemma EncodeData_dropped:
  assumes "f_dropRespData f"
  shows "\<exists>f' q'. f_EncodeData d now h b f q = Ret (Continue, h, Some [], f', q') \<and> f_dropRespData f'"
proof -
  obtain f1 q1 where "setTokenTimestamp d now f q = (f1, q1)" by (rule prod.exhaust)
  with assms resp_setTokenTimestamp [OF this] show ?thesis
    by (simp add: f_EncodeData_def doRespData_def resp_def)
qed

lemma encode_pieces_dropped:
  "f_dropRespData f \<Longrightarrow> \<exists>f' q'. encode_pieces d h ps f q = Ret (replicate (length ps) (Continue, Some []), h, f', q')"
proof (induction ps arbitrary: f q)
  case (Cons p ps)
  obtain now b where p: "p = (now, b)" by (rule prod.exhaust)
  from EncodeData_dropped [OF Cons.prems, of d now h b q] obtain f1 q1 where
    one: "f_EncodeData d now h b f q = Ret (Continue, h, Some [], f1, q1)" "f_dropRespData f1" by blast
  from Cons.IH [OF one(2)] obtain f2 q2 where
    "encode_pieces d h ps f1 q1 = Ret (replicate (length ps) (Continue, Some []), h, f2, q2)" by blast
  with one(1) show ?case by (simp add: p)
qed simp

lemma first_error_reported:
  assumes "isStream t" "plain_backend (backendProtocol t)" "remainBuf t = []" "chunkCount t = 0"
    "responseMessages (t\<lparr>remainBuf := b\<rparr>) = (Inr (e # msgs), t1)" "e \<noteq> DONE"
    "parse_chunk cd e = None" "parse_error_chunk cd e = Some er" "le_object er \<noteq> []"
  shows "\<exists>t2. GetResponseData cd b t =
    ((Some (Encode (marshal_json cd) (JObj (marshal_error_response er))), Some (ErrorString FirstChunkError)), t2)"
proof -
  have "chunkCount t1 = 0"
    using assms(4,5) by (auto simp: responseMessages_def Let_def split: if_splits)
  then show ?thesis
    using assms by (auto simp: GetResponseData_def convertOpenAiResp_def Let_def message_loop.simps(2))
qed


definition sample_live :: openai_transcoder where
  "sample_live = (NewOpenAITranscoder None False)\<lparr>isStream := True, backendProtocol := SglangBackend\<rparr>"

definition sample_error :: llm_error_response where
  "sample_error = \<lparr>le_object = ''error'', le_message = ''no'', le_type = [], le_param = None, le_code = 400\<rparr>"

definition sample_failing :: "(unit, unit \<times> trace) deps" where
  "sample_failing = sample_deps\<lparr>d_codec := sample_codec\<lparr>parse_chunk := (\<lambda>_. None),
     parse_error_chunk := (\<lambda>_. Some sample_error), marshal_json := (\<lambda>_. Some ''{}'')\<rparr>\<rparr>"


subsection \<open>Taking the prompt back\<close>

definition queue_accepts :: "(task \<Rightarrow> 's \<Rightarrow> dispatch_error option \<times> 's) \<Rightarrow> bool" where
  "queue_accepts submit \<longleftrightarrow> (\<forall>t s. fst (submit t s) = None)"

lemma DeletePromptLength_done:
  assumes "d_submit d = traced submit" "queue_accepts submit" "f_isModelLoadAwareEnable f" "f_isIncreaseRecorded f"
    "f_uniqueId f \<in> {[], d_uuid d}" "DeletePromptLength d f q = (f', q')"
  shows "f_isPromptLengthDeleted f' \<and> f_isIncreaseRecorded f'"
proof (cases "f_isPromptLengthDeleted f")
  case False
  with assms(3,4) have due: "prompt_length_due f" by (simp add: prompt_length_due_def)
  from delete_prompt_length_submits [OF assms(1,5), of q] assms(6) due obtain s ok r where
    eff: "q' = (s, snd q @ [(inference_task ''DELETE'' MetaDataCenterLoadPromptLength r, ok)])"
      "view f' = (f_isIncreaseRecorded f, ok \<or> f_isPromptLengthDeleted f, False,
         f_timer_armed f \<and> \<not> f_promptDecreaseTimer f, d_uuid d, f_isModelLoadAwareEnable f)"
    by (auto simp: DeletePromptLength_def)
  have "DeletePromptLength d f q = (f', q') \<Longrightarrow> f_isPromptLengthDeleted f'"
    using assms(1,2) due
    by (auto simp: DeletePromptLength_def delete_prompt_length_def DeleteRequestPrompt_def traced_def Let_def
        queue_accepts_def split: prod.splits option.splits) (metis fst_conv option.distinct(1))
  with assms(4,6) eff(2) show ?thesis by (simp add: view_def)
qed (use assms in \<open>simp add: DeletePromptLength_def prompt_length_due_def\<close>)


lemma EncodeData_returns:
  assumes "f_transcoder f \<noteq> None"
  shows "\<exists>a h' b' f' q'. f_EncodeData d now h b f q = Ret (a, h', b', f', q')"
proof -
  obtain f1 q1 where stamp: "setTokenTimestamp d now f q = (f1, q1)" by (rule prod.exhaust)
  from resp_setTokenTimestamp [OF this] assms obtain t where "f_transcoder f1 = Some t" by (auto simp: resp_def)
  with stamp show ?thesis
    by (cases "f_dropRespData f1") (auto simp: f_EncodeData_def doRespData_def Let_def split: prod.splits option.splits)
qed


text \<open>
  The guards of \<open>DeletePromptLength\<close> are not protected from the timer: if the timer's goroutine has
  passed them when a callback takes the prompt back, both delete it.
\<close>

lemma timer_race_deletes_twice:
  assumes "d_submit d = traced submit" "f_uniqueId f \<in> {[], d_uuid d}" "prompt_length_due f"
    "DeletePromptLength d f q = (f1, q1)" "delete_prompt_length d f1 q1 = (f2, q2)"
  shows "\<exists>r r' ok ok'. snd q2 = snd q @
    [(inference_task ''DELETE'' MetaDataCenterLoadPromptLength r, ok),
     (inference_task ''DELETE'' MetaDataCenterLoadPromptLength r', ok')]"
proof -
  from delete_prompt_length_submits [OF assms(1,2), of q] assms(3,4) obtain s ok r where
    q1: "q1 = (s, snd q @ [(inference_task ''DELETE'' MetaDataCenterLoadPromptLength r, ok)])" and "f_uniqueId f1 = d_uuid d"
    by (auto simp: DeletePromptLength_def view_def)
  then have "f_uniqueId f1 \<in> {[], d_uuid d}" by simp
  from delete_prompt_length_submits [OF assms(1) this, of q1] assms(5) q1 show ?thesis by auto
qed

text \<open>A response below 400 to a request that was never decoded reads a nil transcoder.\<close>

lemma undecoded_success_panics:
  "f_transcoder f = None \<Longrightarrow> header_status (addCommonResponseHeaders (d_hostname d) h) < 400 \<Longrightarrow>
   f_EncodeHeaders d h endStream f q = Panic"
  by (simp add: f_EncodeHeaders_def Let_def)

end
