(* ===== verification/Gateway.thy ===== *)
theory Gateway
  imports FilterOutcomes ConfigValidator Discovery
begin

text \<open>
  The gateway put together: the filter with the cluster managers and the inference balancer behind
  it, for a configuration loaded by \<open>Init\<close>.

  The fields the balancer adds to the access log of a request are kept beside the filter's own, in the
  state of the balancer.
\<close>

type_synonym gateway_state = "inference_lb manager \<times> plugin_state"

definition gateway_balancer ::
  "lb_env \<Rightarrow> provider \<Rightarrow> ctx \<Rightarrow> string \<Rightarrow> string \<Rightarrow> gateway_state \<Rightarrow> (string + host) run \<times> gateway_state" where
  "gateway_balancer e p ctx cl ty g =
     (let (r, m, ps) = ManagerChooseHost (pick_inference e) inference_factories p ctx cl ty (fst g) (snd g)
      in (r, m, ps))"

definition sound_env :: "lb_env \<Rightarrow> bool" where
  "sound_env e \<longleftrightarrow> (case e of (sort_slice, intn, g, q) \<Rightarrow> slice_sorter sort_slice \<and> valid_random intn \<and> calm_queries q)"

lemma sound_env_usable: "sound_env e \<Longrightarrow> usable_inference e (balancer_context f)"
  by (auto simp: sound_env_def usable_inference_def balancer_context_def)

lemma Init_keeps [simp]:
  "Protocol (plugin_conf (Init srt c)) = Protocol (plugin_conf c)"
  "ModelMappingRule (plugin_conf (Init srt c)) = ModelMappingRule (plugin_conf c)"
  by (simp_all add: Init_def updateMetrics_def initLogger_def Let_def split: option.split)

lemma Init_mappings:
  assumes "valid_config (plugin_conf c)" "ModelMappingRule (plugin_conf c) \<noteq> []"
  shows "ModelMappings (Init srt c) = buildModelMappings srt (ModelMappingRule (plugin_conf c))"
    "ModelMappings (Init srt c) \<noteq> []"
proof -
  show eq: "ModelMappings (Init srt c) = buildModelMappings srt (ModelMappingRule (plugin_conf c))"
    using assms(2) by (simp add: Init_def updateMetrics_def initLogger_def Let_def split: option.split)
  have "\<forall>(k, rules) \<in> set (ModelMappingRule (plugin_conf c)). rules \<noteq> []"
    using assms(1) by (auto simp: valid_config_def)
  then show "ModelMappings (Init srt c) \<noteq> []"
    using assms(2) unfolding eq by (cases "ModelMappingRule (plugin_conf c)") (auto simp: buildModelMappings_def)
qed

lemma gateway_balancer_chooses:
  assumes "manager_run (pick_inference e) inference_factories p I m" "sound_env e"
    "gateway_balancer e p (balancer_context f) cl ty (m, ps) = (r, g')"
  shows "r \<noteq> Panic" "manager_run (pick_inference e) inference_factories p I (fst g')"
    "r = Ret (Inr h) \<Longrightarrow> \<exists>eps \<in> announced p I cl. \<exists>ep \<in> set eps. h_ip h = ep_Address ep \<and> h_port h = ep_Port ep"
proof -
  from assms(3) have run: "ManagerChooseHost (pick_inference e) inference_factories p (balancer_context f) cl ty m ps =
      (r, fst g', snd g')"
    by (auto simp: gateway_balancer_def Let_def split: prod.splits)
  note ann = ManagerChooseHost_announced [OF assms(1) sound_env_usable [OF assms(2)] run]
  show "r \<noteq> Panic" using ann by simp
  show "manager_run (pick_inference e) inference_factories p I (fst g')"
    by (rule manager_run.chosen [OF assms(1) run])
  show "r = Ret (Inr h) \<Longrightarrow> \<exists>eps \<in> announced p I cl. \<exists>ep \<in> set eps. h_ip h = ep_Address ep \<and> h_port h = ep_Port ep"
    using ann by auto
qed

text \<open>
  C1. End to end: a request goes to a server its most specific rule allows.  For a valid configuration
  loaded by \<open>Init\<close> and cluster managers in any state they can reach, a request that \<open>DecodeRequest\<close>
  lets continue names a model with a rule that its headers match, no matching rule of the model asks for
  more headers, and the upstream set for it is the address of an endpoint the provider announced for
  the cluster of that very rule; the managers are left in a state they can reach.
\<close>

theorem request_reaches_announced_server:
  assumes config: "f_config f = Init srt c" "valid_config (plugin_conf c)" "Protocol (plugin_conf c) = ''openai''"
      "ModelMappingRule (plugin_conf c) \<noteq> []" "distinct (map fst (ModelMappingRule (plugin_conf c)))" "slice_sorter srt"
    and managers: "manager_run (pick_inference e) inference_factories p I m" "sound_env e"
    and decode: "d_balancer d = gateway_balancer e p" "f_DecodeRequest d now f (m, ps) q = Ret (Continue, f', g', q')"
  shows "\<exists>msg rules rule eps ep h.
    parse_params (d_codec d) (f_body f) = Inr msg \<and> map_of (ModelMappingRule (plugin_conf c)) (p_Model msg) = Some rules \<and>
    rule \<in> set rules \<and> matches (cb_headers (f_callbacks f)) rule \<and>
    (\<forall>r' \<in> set rules. matches (cb_headers (f_callbacks f)) r' \<longrightarrow> length (r_Headers r') \<le> length (r_Headers rule)) \<and>
    eps \<in> announced p I (r_Cluster rule) \<and> ep \<in> set eps \<and> h_ip h = ep_Address ep \<and> h_port h = ep_Port ep \<and>
    cb_override (f_callbacks f') = Some (Address h) \<and> f_serverIp f' = h_ip h \<and>
    manager_run (pick_inference e) inference_factories p I (fst g')"
  using decode(2)
proof (cases rule: f_DecodeRequest_cases)
  case answered
  from read_request_refuses [OF answered(1)] show ?thesis by auto
next
  case no_host
  then show ?thesis by (simp add: noUpstream_def)
next
  case (sent reqData f1 f2 cb h)
  let ?rules = "ModelMappingRule (plugin_conf c)" and ?get = "cb_headers (f_callbacks f)"
  obtain tid where "GetTraceID (f_state f) = Ret tid"
    using sent(1) by (cases "GetTraceID (f_state f)") (auto simp: read_request_def)
  from read_request_routes [OF _ _ this, of d] config(1,3) Init_mappings [OF config(2,4), of srt] sent(1)
  obtain msg rule where msg: "parse_params (d_codec d) (f_body f) = Inr msg" "route_of f (p_Model msg) = Some rule"
    "rd_Cluster reqData = r_Cluster rule"
    by (fastforce split: sum.splits option.splits if_splits)
  have cand: "GetCandidateRule (GetModelMappings (buildModelMappings srt ?rules) (p_Model msg)) ?get = Some rule"
    using msg(2) Init_mappings(1) [OF config(2,4), of srt] config(1) by (simp add: route_of_def GetCandidateRule_find)
  then obtain rules where rules: "map_of ?rules (p_Model msg) = Some rules"
    using mappings_of [OF config(5), of srt "p_Model msg"]
    by (cases "map_of ?rules (p_Model msg)") (auto simp: GetCandidateRule_find)
  note best = GetCandidateRule_best [OF config(6,5) rules, of ?get, unfolded cand option.case]
  have cluster: "f_cluster f2 = r_Cluster rule" using take_request_keeps [OF sent(2)] msg(3) by simp
  from ChooseServer_answers [OF sent(3)] decode(1) cluster
  have chosen: "gateway_balancer e p (balancer_context f2) (r_Cluster rule) (Algorithm (plugin_conf (f_config f2))) (m, ps) =
      (Ret (Inr h), g')" and over: "cb_override cb = Some (Address h)"
    by (simp_all add: balancer_context_def)
  from gateway_balancer_chooses [OF managers chosen] obtain eps ep where
    ep: "eps \<in> announced p I (r_Cluster rule)" "ep \<in> set eps" "h_ip h = ep_Address ep" "h_port h = ep_Port ep"
      "manager_run (pick_inference e) inference_factories p I (fst g')" by blast
  from send_request_target [OF sent(4)] over
  have "cb_override (f_callbacks f') = Some (Address h)" "f_serverIp f' = h_ip h"
    by (simp_all add: target_def)
  with msg(1) rules best ep show ?thesis by blast
qed

subsection \<open>A sample gateway\<close>

definition sample_gateway_config :: llm_config where
  "sample_gateway_config = sample_llm_config\<lparr>plugin_conf := (plugin_conf sample_llm_config)
     \<lparr>Algorithm := ''inference_lb'', ModelMappingRule := [(''m'', [(sample_rule ''base'' [])\<lparr>r_Backend := ''vllm''\<rparr>])]\<rparr>\<rparr>"

definition sample_gateway_deps :: "(gateway_state, unit \<times> trace) deps" where
  "sample_gateway_deps =
     \<lparr>d_codec = sample_codec\<lparr>parse_params := (\<lambda>_. Inr sample_params)\<rparr>, d_split = False,
      d_balancer = gateway_balancer sample_env sample_provider,
      d_upstream = (\<lambda>_. None), d_buffer_set = (\<lambda>_. None), d_submit = traced (\<lambda>t s. (None, s)),
      d_sum64 = (\<lambda>_. 0), d_uuid = ''u'', d_stats = init_metrics (\<lambda>_. []), d_hostname = ''gw'',
      d_format_time = (\<lambda>_. [])\<rparr>"

definition sample_gateway_filter :: proxy_filter where
  "sample_gateway_filter = filterFactory (Init insertion_sort sample_gateway_config)
     \<lparr>ps_access_log = None, ps_trace_id = Some (AString ''T'')\<rparr>
     \<lparr>cb_headers = Map.empty, cb_refreshed = False, cb_override = None\<rparr> [] None"

definition sample_gateway_run :: "(result_action \<times> proxy_filter \<times> gateway_state \<times> unit \<times> trace) run" where
  "sample_gateway_run = f_DecodeRequest sample_gateway_deps 1 sample_gateway_filter (NewClusterManager, fresh_state) ((), [])"

lemma sample_gateway_continues:
  "(case sample_gateway_run of Ret (Continue, f', g', q') \<Rightarrow> f_serverIp f' = ''a'' | _ \<Rightarrow> False)"
  by code_simp

lemma sample_gateway_valid: "valid_config (plugin_conf sample_gateway_config)"
  using RuneCount_bound [of "''vllm''"] RuneCount_bound [of "''base''"] RuneCount_bound [of "''c''"] RuneCount_bound [of "[]"]
  by (simp add: valid_config_def sample_gateway_config_def sample_llm_config_def sample_rule_def valid_rule_def
      del: RuneCount_zero)

theorem request_reaches_announced_server_witness:
  "\<exists>f' g' q' h. f_DecodeRequest sample_gateway_deps 1 sample_gateway_filter (NewClusterManager, fresh_state) ((), []) =
       Ret (Continue, f', g', q') \<and>
     cb_override (f_callbacks f') = Some (Address h) \<and> h_ip h = ''a'' \<and> h_port h = 80"
proof -
  obtain a f' g' q' where eq: "sample_gateway_run = Ret (a, f', g', q')"
    using sample_gateway_continues by (cases sample_gateway_run) auto
  have "a = Continue" using sample_gateway_continues [unfolded eq] by (cases a) simp_all
  with eq have run: "f_DecodeRequest sample_gateway_deps 1 sample_gateway_filter (NewClusterManager, fresh_state) ((), []) =
      Ret (Continue, f', g', q')" by (simp add: sample_gateway_run_def)
  have env: "sound_env sample_env"
    using sample_usable by (simp add: sound_env_def usable_inference_def sample_env_def)
  have conf: "f_config sample_gateway_filter = Init insertion_sort sample_gateway_config"
    "d_balancer sample_gateway_deps = gateway_balancer sample_env sample_provider"
    by (simp_all add: sample_gateway_filter_def filterFactory_def sample_gateway_deps_def)
  have rules: "Protocol (plugin_conf sample_gateway_config) = ''openai''"
    "ModelMappingRule (plugin_conf sample_gateway_config) \<noteq> []"
    "distinct (map fst (ModelMappingRule (plugin_conf sample_gateway_config)))"
    by (simp_all add: sample_gateway_config_def sample_llm_config_def)
  obtain eps ep h cl where ep: "eps \<in> announced sample_provider {} cl" "ep \<in> set eps"
      "h_ip h = ep_Address ep" "h_port h = ep_Port ep" "cb_override (f_callbacks f') = Some (Address h)"
    using request_reaches_announced_server [OF conf(1) sample_gateway_valid rules insertion.slice_sorter_axioms
        manager_run.fresh env conf(2) run]
    by (elim exE conjE) (rule that, assumption+)
  then have "h_ip h = ''a'' \<and> h_port h = 80"
    by (auto simp: announced_def sample_provider_def sample_endpoint_def)
  with run ep(5) show ?thesis by blast
qed

end
