(* ===== verification/QueueOrder.thy ===== *)
theory QueueOrder
  imports AsyncRequest
begin

text \<open>
  In which order the workers of \<^verbatim>\<open>pkg/async_request/async_request.go\<close> finish the tasks: an
  abstract queue, the proof that the goroutines of \<open>AsyncRequest\<close> implement it, what it means for
  one worker, and what several workers allow.
\<close>

subsection \<open>The abstract queue\<close>

text \<open>
  A bounded queue served by \<open>n\<close> workers, without channel, workers and shutdown: \<open>acc\<close> are the tasks
  accepted, \<open>op\<close> those not finished, oldest first, and \<open>dn\<close> those finished, in that order.  A task is
  accepted while fewer than \<open>cap\<close> are open, and any of the \<open>n\<close> oldest open tasks may be finished next.
\<close>

inductive fifo_run :: "nat \<Rightarrow> nat \<Rightarrow> 'a list \<Rightarrow> 'a list \<Rightarrow> 'a list \<Rightarrow> bool" for n cap where
  fresh: "fifo_run n cap [] [] []"
| accept: "fifo_run n cap acc op dn \<Longrightarrow> length op < cap \<Longrightarrow> fifo_run n cap (acc @ [t]) (op @ [t]) dn"
| finish: "fifo_run n cap acc op dn \<Longrightarrow> i < n \<Longrightarrow> i < length op \<Longrightarrow>
     fifo_run n cap acc (take i op @ drop (Suc i) op) (dn @ [op ! i])"

lemma fifo_run_one: "fifo_run n cap acc op dn \<Longrightarrow> n = 1 \<Longrightarrow> acc = dn @ op"
proof (induction rule: fifo_run.induct)
  case (finish acc op dn i)
  then show ?case by (cases op) simp_all
qed simp_all

lemma fifo_run_open: "fifo_run n cap acc op dn \<Longrightarrow> subseq op acc"
proof (induction rule: fifo_run.induct)
  case (finish acc op dn i)
  have "subseq (take i op @ drop (Suc i) op) (take i op @ drop i op)"
    by (rule list_emb_append_mono) (use finish in \<open>auto simp: Cons_nth_drop_Suc [symmetric]\<close>)
  with finish show ?case by (metis append_take_drop_id subseq_order.trans)
qed (auto simp: list_emb_append_mono)

lemma subseq_mset: "subseq xs ys \<Longrightarrow> mset xs \<subseteq># mset ys"
  by (induction rule: list_emb.induct)
    (auto simp: mset_subset_eq_add_right intro: subset_mset.order_trans)

subsection \<open>The goroutines implement it\<close>

text \<open>A queue in motion stands for its open tasks: those with the workers, then those in the channel.\<close>

definition aq_open :: "async_queue \<Rightarrow> task list \<Rightarrow> bool" where
  "aq_open aq op \<longleftrightarrow> (\<exists>taken. op = taken @ tasks aq \<and> mset taken = mset (busy (workers aq)))"

lemma busy_length: "length (busy ws) \<le> length ws"
  by (induction ws) (auto simp: busy_def busy1_def split: worker.split)

lemma aq_open_length: "aq_open aq op \<Longrightarrow> mset op = mset (tasks aq) + mset (busy (workers aq))"
  by (auto simp: aq_open_def)

lemma busy_has_idle: "i < length ws \<Longrightarrow> ws ! i = WIdle \<Longrightarrow> length (busy ws) < length ws"
proof (induction ws arbitrary: i)
  case (Cons w ws)
  from busy_length [of ws] have len: "length (busy ws) < Suc (length ws)" by simp
  show ?case
    using Cons len by (cases i) (fastforce simp: busy_def busy1_def split: worker.split)+
qed simp

lemma aq_openI: "mset taken = mset (busy (workers aq)) \<Longrightarrow> op = taken @ tasks aq \<Longrightarrow> aq_open aq op"
  by (auto simp: aq_open_def)

definition aq_room :: "queue_config \<Rightarrow> nat" where
  "aq_room cfg = nat (QueueSize cfg) + nat (WorkerCount cfg)"

definition aq_sim :: "queue_config \<Rightarrow> async_queue \<Rightarrow> bool" where
  "aq_sim cfg aq \<longleftrightarrow>
     (\<exists>op. aq_open aq op \<and> fifo_run (nat (WorkerCount cfg)) (aq_room cfg) (accepted aq) op (map o_task (handled aq)))"

lemma aq_simI:
  "aq_open aq op \<Longrightarrow>
   fifo_run (nat (WorkerCount cfg)) (aq_room cfg) (accepted aq) op (map o_task (handled aq)) \<Longrightarrow> aq_sim cfg aq"
  by (auto simp: aq_sim_def)

lemma aq_sim_send:
  assumes "aq_inv cfg aq" "aq_sim cfg aq" "waiting receiver aq \<or> int (length (tasks aq)) < QueueSize cfg"
  shows "aq_sim cfg (send receiver t aq)"
proof -
  from assms(2) obtain op where op: "aq_open aq op"
    "fifo_run (nat (WorkerCount cfg)) (aq_room cfg) (accepted aq) op (map o_task (handled aq))"
    by (auto simp: aq_sim_def)
  have workers: "length (workers aq) = nat (WorkerCount cfg)" using assms(1) by (simp add: aq_inv_def aq_bounds_def)
  have len: "length op = length (tasks aq) + length (busy (workers aq))"
    using arg_cong [OF aq_open_length [OF op(1)], of size] by simp
  show ?thesis
  proof (cases "waiting receiver aq")
    case True
    then obtain i where i: "receiver = Some i" "tasks aq = []" "i < length (workers aq)" "workers aq ! i = WIdle"
      by (auto simp: waiting_def split: option.splits)
    with busy_has_idle [OF i(3,4)] len workers have "length op < aq_room cfg" by (simp add: aq_room_def)
    from fifo_run.accept [OF op(2) this, of t] op(1) i True show ?thesis
      by (auto simp: aq_sim_def aq_open_def send_def busy_idle intro!: exI [of _ "op @ [t]"])
  next
    case False
    with assms(3) len busy_length [of "workers aq"] workers have "length op < aq_room cfg"
      by (simp add: aq_room_def)
    from fifo_run.accept [OF op(2) this, of t] False
    have "fifo_run (nat (WorkerCount cfg)) (aq_room cfg) (accepted (send receiver t aq)) (op @ [t])
        (map o_task (handled (send receiver t aq)))" by (simp add: send_def)
    moreover from op(1) False have "aq_open (send receiver t aq) (op @ [t])"
      by (auto simp: aq_open_def send_def)
    ultimately show ?thesis by (rule aq_simI [rotated])
  qed
qed

lemma aq_sim_take:
  assumes "aq_sim cfg aq" "i < length (workers aq)" "workers aq ! i = WIdle" "tasks aq = t # ts"
  shows "aq_sim cfg (take_task i aq)"
proof -
  have "aq_open (take_task i aq) op" if "aq_open aq op" for op
    using that assms(2-) by (fastforce simp: aq_open_def take_task_def busy_idle intro: exI [of _ "_ @ [t]"])
  with assms(1,4) show ?thesis by (auto simp: aq_sim_def take_task_def)
qed

lemma aq_sim_finish:
  assumes "aq_inv cfg aq" "aq_sim cfg aq" "i < length (workers aq)" "workers aq ! i = WBusy t"
  shows "aq_sim cfg (finish_task handler i t aq)"
proof -
  from assms(2) obtain taken where op: "mset taken = mset (busy (workers aq))"
    "fifo_run (nat (WorkerCount cfg)) (aq_room cfg) (accepted aq) (taken @ tasks aq) (map o_task (handled aq))"
    by (auto simp: aq_sim_def aq_open_def)
  have workers: "length (workers aq) = nat (WorkerCount cfg)" using assms(1) by (simp add: aq_inv_def aq_bounds_def)
  note fin = busy_finish [OF assms(3,4)]
  with op(1) have "t \<in># mset taken" by (metis union_single_eq_member)
  then obtain k where k: "k < length taken" "taken ! k = t" by (metis in_set_conv_nth set_mset_mset)
  let ?rest = "take k taken @ drop (Suc k) taken"
  have "add_mset t (mset ?rest) = mset taken"
    using k by (metis Cons_nth_drop_Suc append_take_drop_id mset.simps(2) mset_append union_mset_add_mset_right)
  with fin op(1) have rest: "mset ?rest = mset (busy ((workers aq)[i := WIdle]))"
    by (metis add_mset_remove_trivial)
  have "length taken = length (busy (workers aq))" using op(1) by (metis size_mset)
  with k(1) busy_length [of "workers aq"] workers have "k < nat (WorkerCount cfg)" by simp
  from fifo_run.finish [OF op(2) this] k
  have "fifo_run (nat (WorkerCount cfg)) (aq_room cfg) (accepted aq) (?rest @ tasks aq) (map o_task (handled aq) @ [t])"
    by (simp add: nth_append)
  moreover from rest have "aq_open (finish_task handler i t aq) (?rest @ tasks aq)"
    by (intro aq_openI) (simp_all add: finish_task_def)
  ultimately show ?thesis by (intro aq_simI) (simp_all add: finish_task_def)
qed

lemma aq_sim_step: "aq_step aq aq' \<Longrightarrow> aq_inv cfg aq \<Longrightarrow> aq_sim cfg aq \<Longrightarrow> aq_sim cfg aq'"
proof (induction rule: aq_step.induct)
  case (dispatch aq receiver pick_done t e aq')
  from dispatch(3) have "aq_config aq = cfg" by (simp add: aq_inv_def aq_bounds_def)
  with Dispatch_cases [OF dispatch(2)] dispatch(3,4) show ?case by (auto intro: aq_sim_send)
next
  case (take_one i aq)
  then show ?case by (cases "tasks aq") (simp_all add: aq_sim_take)
next
  case (take_zero i aq)
  then show ?case using list_all_done_idle by (auto simp: aq_inv_def aq_lifecycle_def)
next
  case (leave i aq)
  then show ?case by (auto simp: aq_sim_def aq_open_def busy_done)
next
  case (shut_begin aq)
  then show ?case by (auto simp: aq_sim_def aq_open_def Shutdown_begin_def)
next
  case (shut_end aq)
  then show ?case by (auto simp: aq_sim_def aq_open_def Shutdown_end_def)
qed (simp add: aq_sim_finish)

lemma aq_reachable_sim: "aq_reachable cfg aq \<Longrightarrow> aq_sim cfg aq"
proof (induction rule: aq_reachable.induct)
  case (start aq)
  then have "aq_open aq []" "accepted aq = []" "handled aq = []"
    by (auto simp: NewAsyncQueue_def aq_open_def busy_def split: if_splits)
  then show ?case using fifo_run.fresh by (auto simp: aq_sim_def)
next
  case (step aq aq')
  then show ?case using aq_sim_step aq_reachable_inv by blast
qed

subsection \<open>What follows for the order\<close>

lemma aq_sim_one:
  assumes "aq_inv cfg aq" "aq_sim cfg aq" "WorkerCount cfg = 1"
  shows "accepted aq = map o_task (handled aq) @ busy (workers aq) @ tasks aq"
proof -
  from assms(2) obtain taken where op: "mset taken = mset (busy (workers aq))"
    "fifo_run (nat (WorkerCount cfg)) (aq_room cfg) (accepted aq) (taken @ tasks aq) (map o_task (handled aq))"
    by (auto simp: aq_sim_def aq_open_def)
  have "length (busy (workers aq)) \<le> 1"
    using busy_length [of "workers aq"] assms(1,3) by (simp add: aq_inv_def aq_bounds_def)
  with op(1) have "taken = busy (workers aq)"
    by (cases "busy (workers aq)") auto
  with fifo_run_one [OF op(2)] assms(3) show ?thesis by simp
qed

text \<open>
  C14. The queue implements the bounded queue of the specification: whatever the goroutines did, the
  tasks accepted, open and handled are those of a run of a queue that holds at most \<open>QueueSize\<close> plus
  \<open>WorkerCount\<close> open tasks and always finishes one of its \<open>WorkerCount\<close> oldest.
\<close>

theorem queue_refines_fifo:
  assumes "aq_reachable cfg aq"
  shows "\<exists>op. fifo_run (nat (WorkerCount cfg)) (nat (QueueSize cfg) + nat (WorkerCount cfg))
        (accepted aq) op (map o_task (handled aq)) \<and>
      subseq op (accepted aq) \<and> suffix (tasks aq) op \<and>
      mset op = mset (tasks aq) + mset (busy (workers aq))"
proof -
  from aq_reachable_sim [OF assms] obtain op where op: "aq_open aq op"
    "fifo_run (nat (WorkerCount cfg)) (aq_room cfg) (accepted aq) op (map o_task (handled aq))"
    by (auto simp: aq_sim_def)
  moreover have "suffix (tasks aq) op" using op(1) by (auto simp: aq_open_def suffix_def)
  ultimately show ?thesis
    using fifo_run_open [OF op(2)] aq_open_length [OF op(1)] by (auto simp: aq_room_def)
qed

text \<open>
  With one worker the tasks are handled in the order in which they were accepted: those handled,
  then the one at work, then those in the channel are the accepted tasks, one by one.
\<close>

theorem one_worker_in_order:
  assumes "aq_reachable cfg aq" "WorkerCount cfg = 1"
  shows "accepted aq = map o_task (handled aq) @ busy (workers aq) @ tasks aq"
  using aq_reachable_inv [OF assms(1)] aq_reachable_sim [OF assms(1)] assms(2) by (rule aq_sim_one)

text \<open>
  With two workers or more, the default being 100, the order is lost: of two tasks accepted one
  after the other the second can be handled to its end while the first is still being tried.
\<close>

theorem workers_overtake:
  assumes "2 \<le> WorkerCount cfg" "0 \<le> QueueSize cfg"
  shows "\<exists>aq. aq_reachable cfg aq \<and> accepted aq = [with_timeout cfg t1, with_timeout cfg t2] \<and>
     busy (workers aq) = [with_timeout cfg t1] \<and> handled aq = [run_task handler cfg (with_timeout cfg t2)]"
proof -
  obtain n where n: "nat (WorkerCount cfg) = Suc (Suc n)"
    using assms(1) by (metis Suc_le_D Suc_le_mono nat_mono nat_2)
  define aq0 where "aq0 = \<lparr>aq_config = cfg, tasks = [], chanClosed = False, cancelled = False, isClosed = False,
      shutting = False, workers = replicate (nat (WorkerCount cfg)) WIdle, accepted = [], handled = []\<rparr>"
  define aq1 where "aq1 = send (Some 0) (with_timeout cfg t1) aq0"
  define aq2 where "aq2 = send (Some 1) (with_timeout cfg t2) aq1"
  have r0: "aq_reachable cfg aq0"
    by (rule aq_reachable.start) (use assms in \<open>simp add: NewAsyncQueue_def aq0_def\<close>)
  have "aq_step aq0 aq1"
    by (rule aq_step.dispatch [of _ "Some 0" False t1 None])
      (simp_all add: aq0_def aq1_def Dispatch_def send_ready_def waiting_def n)
  from aq_reachable.step [OF r0 this] have r1: "aq_reachable cfg aq1" .
  have "aq_step aq1 aq2"
    by (rule aq_step.dispatch [of _ "Some 1" False t2 None])
      (simp_all add: aq0_def aq1_def aq2_def send_def Dispatch_def send_ready_def waiting_def n Let_def)
  from aq_reachable.step [OF r1 this] have r2: "aq_reachable cfg aq2" .
  have ws: "workers aq2 = WBusy (with_timeout cfg t1) # WBusy (with_timeout cfg t2) # replicate n WIdle"
    by (simp add: aq0_def aq1_def aq2_def send_def waiting_def n)
  have "aq_step aq2 (finish_task handler 1 (with_timeout cfg t2) aq2)"
    by (rule aq_step.finish_one) (simp_all add: ws)
  from aq_reachable.step [OF r2 this]
  have "aq_reachable cfg (finish_task handler 1 (with_timeout cfg t2) aq2)" .
  moreover have "busy (replicate n WIdle) = []" by (induction n) (simp_all add: busy_def)
  ultimately show ?thesis
    by (intro exI [of _ "finish_task handler 1 (with_timeout cfg t2) aq2"])
      (simp add: finish_task_def ws busy_def, simp add: aq0_def aq1_def aq2_def send_def waiting_def n)
qed

subsection \<open>The queue settles\<close>

text \<open>The steps of the goroutines that run by themselves: the workers, and a shutdown that waits for them.\<close>

inductive worker_step :: "async_queue \<Rightarrow> async_queue \<Rightarrow> bool" where
  take_one: "i < length (workers aq) \<Longrightarrow> workers aq ! i = WIdle \<Longrightarrow> tasks aq \<noteq> [] \<Longrightarrow> worker_step aq (take_task i aq)"
| finish_one: "i < length (workers aq) \<Longrightarrow> workers aq ! i = WBusy t \<Longrightarrow> worker_step aq (finish_task handler i t aq)"
| leave: "i < length (workers aq) \<Longrightarrow> workers aq ! i = WIdle \<Longrightarrow> cancelled aq \<Longrightarrow>
     worker_step aq (aq\<lparr>workers := (workers aq)[i := WDone]\<rparr>)"
| shut_end: "shutting aq \<Longrightarrow> list_all (\<lambda>w. w = WDone) (workers aq) \<Longrightarrow> worker_step aq (Shutdown_end aq)"

lemma worker_step_aq: "worker_step aq aq' \<Longrightarrow> aq_step aq aq'"
  by (induction rule: worker_step.induct) (auto intro: aq_step.intros)

text \<open>The steps that are left: two for a waiting task, one for a task at work, a worker, a shutdown.\<close>

definition present :: "worker list \<Rightarrow> nat" where
  "present ws = length (filter (\<lambda>w. w \<noteq> WDone) ws)"

definition work_left :: "async_queue \<Rightarrow> nat" where
  "work_left aq = 2 * length (tasks aq) + length (busy (workers aq)) + present (workers aq) + of_bool (shutting aq)"

lemma present_update:
  "i < length ws \<Longrightarrow> present (ws[i := w]) + of_bool (ws ! i \<noteq> WDone) = present ws + of_bool (w \<noteq> WDone)"
proof (induction ws arbitrary: i)
  case (Cons a ws)
  show ?case
  proof (cases i)
    case (Suc j)
    with Cons.prems Cons.IH [of j] show ?thesis by (simp add: present_def)
  qed (simp add: present_def)
qed simp

lemma busy_update_length:
  "i < length ws \<Longrightarrow> length (busy (ws[i := w])) + length (busy1 (ws ! i)) = length (busy ws) + length (busy1 w)"
  using busy_update [of i ws w] by (metis size_mset size_union)

lemma worker_step_work: "worker_step aq aq' \<Longrightarrow> work_left aq' < work_left aq"
proof (induction rule: worker_step.induct)
  case (take_one i aq)
  then obtain t ts where "tasks aq = t # ts" by (cases "tasks aq") auto
  with take_one present_update [of i "workers aq" "WBusy t"] busy_update_length [of i "workers aq" "WBusy t"]
  show ?case by (simp add: work_left_def take_task_def)
next
  case (finish_one i aq t handler)
  with present_update [of i "workers aq" WIdle] busy_update_length [of i "workers aq" WIdle] show ?case
    by (simp add: work_left_def finish_task_def)
next
  case (leave i aq)
  with present_update [of i "workers aq" WDone] busy_update_length [of i "workers aq" WDone] show ?case
    by (simp add: work_left_def)
qed (simp add: work_left_def Shutdown_end_def)

lemma worker_steps_work: "(worker_step ^^ n) aq aq' \<Longrightarrow> n + work_left aq' \<le> work_left aq"
proof (induction n arbitrary: aq')
  case (Suc n)
  then obtain aq1 where "(worker_step ^^ n) aq aq1" "worker_step aq1 aq'" by auto
  with Suc.IH worker_step_work show ?case by fastforce
qed simp

lemma worker_steps_reachable:
  assumes "aq_reachable cfg aq" "(worker_step ^^ n) aq aq'"
  shows "aq_reachable cfg aq' \<and> accepted aq' = accepted aq"
  using assms(2)
proof (induction n arbitrary: aq')
  case (Suc n)
  then obtain aq1 where "(worker_step ^^ n) aq aq1" and last: "worker_step aq1 aq'" by auto
  with Suc.IH have "aq_reachable cfg aq1" "accepted aq1 = accepted aq" by auto
  moreover from last have "accepted aq' = accepted aq1"
    by cases (auto simp: take_task_def finish_task_def Shutdown_end_def split: list.split)
  ultimately show ?case using aq_reachable.step worker_step_aq [OF last] by auto
qed (use assms(1) in simp)

text \<open>A worker leaves only when the context is cancelled.\<close>

lemma done_cancelled: "aq_reachable cfg aq \<Longrightarrow> WDone \<in> set (workers aq) \<Longrightarrow> cancelled aq"
proof (induction rule: aq_reachable.induct)
  case (start aq)
  then show ?case by (auto simp: NewAsyncQueue_def split: if_splits)
next
  case (step aq aq')
  have sub: "WDone \<in> set (ws[i := w]) \<Longrightarrow> w \<noteq> WDone \<Longrightarrow> WDone \<in> set ws" for ws i w
    using set_update_subset_insert [of ws i w] by auto
  from step.hyps(2) step.IH step.prems show ?case
    by cases
      (auto simp: take_task_def finish_task_def Shutdown_begin_def Shutdown_end_def send_def
        dest!: Dispatch_cases sub split: list.splits if_splits)
qed

lemma worker_stuck:
  assumes "aq_reachable cfg aq" "\<nexists>aq'. worker_step aq aq'"
  shows "busy (workers aq) = [] \<and> (if isClosed aq then chanClosed aq else tasks aq = [] \<or> WorkerCount cfg = 0)"
proof -
  have inv: "aq_inv cfg aq" by (rule aq_reachable_inv [OF assms(1)])
  have not_busy: "workers aq ! i \<noteq> WBusy t" if "i < length (workers aq)" for i t
    using assms(2) that worker_step.finish_one by blast
  then have "\<forall>w \<in> set (workers aq). busy1 w = []" by (auto simp: in_set_conv_nth busy1_def split: worker.split)
  then have "busy (workers aq) = []" by (simp add: busy_def)
  moreover have "chanClosed aq" if "isClosed aq"
  proof -
    have "cancelled aq" using inv that by (simp add: aq_inv_def aq_lifecycle_def)
    then have "workers aq ! i = WDone" if "i < length (workers aq)" for i
      using assms(2) that not_busy worker_step.leave by (cases "workers aq ! i") blast+
    then have "list_all (\<lambda>w. w = WDone) (workers aq)" by (simp add: list_all_length)
    then have "\<not> shutting aq" using assms(2) worker_step.shut_end by blast
    with inv that show ?thesis by (simp add: aq_inv_def aq_lifecycle_def)
  qed
  moreover have "tasks aq = []" if "\<not> isClosed aq" "WorkerCount cfg \<noteq> 0"
  proof -
    have "\<not> cancelled aq" using inv that(1) by (simp add: aq_inv_def aq_lifecycle_def)
    have "0 \<le> WorkerCount cfg" using assms(1)
      by (induction rule: aq_reachable.induct) (auto simp: NewAsyncQueue_def split: if_splits)
    with inv that(2) have "0 < length (workers aq)" by (simp add: aq_inv_def aq_bounds_def)
    moreover from this \<open>\<not> cancelled aq\<close> not_busy done_cancelled [OF assms(1)] have "workers aq ! 0 = WIdle"
      by (cases "workers aq ! 0") (auto simp: in_set_conv_nth)
    ultimately show ?thesis using assms(2) worker_step.take_one by blast
  qed
  ultimately show ?thesis by auto
qed

text \<open>
  C16. The queue settles.  Without new tasks the workers come to rest after at most two steps for each task in
  the channel and one for each task at work, each worker and a shutdown, in whatever order they run; at rest a
  queue that was not shut down, and has a worker, has handled every task it ever accepted, and one that was
  is closed for good.
\<close>

theorem queue_settles:
  assumes "aq_reachable cfg aq" "(worker_step ^^ n) aq aq'"
  shows "n \<le> 2 * length (tasks aq) + length (busy (workers aq)) + length (workers aq) + 1 \<and>
    ((\<exists>aq''. worker_step aq' aq'') \<or>
     (if isClosed aq' then chanClosed aq'
      else WorkerCount cfg = 0 \<or> mset (map o_task (handled aq')) = mset (accepted aq)))"
proof -
  have "present (workers aq) \<le> length (workers aq)" by (simp add: present_def)
  then have "work_left aq \<le> 2 * length (tasks aq) + length (busy (workers aq)) + length (workers aq) + 1"
    by (cases "shutting aq") (simp_all add: work_left_def)
  with worker_steps_work [OF assms(2)]
  have "n \<le> 2 * length (tasks aq) + length (busy (workers aq)) + length (workers aq) + 1" by linarith
  moreover from worker_steps_reachable [OF assms] have run: "aq_reachable cfg aq'" "accepted aq' = accepted aq" by auto
  have "mset (accepted aq') = mset (tasks aq') + mset (busy (workers aq')) + mset (map o_task (handled aq'))"
    using aq_reachable_inv [OF run(1)] by (simp add: aq_inv_def aq_accounts_def)
  with worker_stuck [OF run(1)] run(2)
  have "(\<exists>aq''. worker_step aq' aq'') \<or>
     (if isClosed aq' then chanClosed aq'
      else WorkerCount cfg = 0 \<or> mset (map o_task (handled aq')) = mset (accepted aq))"
    by (cases "\<exists>aq''. worker_step aq' aq''") (auto split: if_splits)
  ultimately show ?thesis by simp
qed

theorem queue_settles_witness:
  "\<exists>aq'. (worker_step ^^ 2) sample_queue1 aq' \<and> (2::nat) \<le> 2 * 1 + 0 + 1 + 1 \<and>
     ((\<exists>aq''. worker_step aq' aq'') \<or> mset (map o_task (handled aq')) = mset (accepted sample_queue1))"
proof -
  let ?t = "sample_task\<lparr>t_Timeout := 100\<rparr>"
  let ?taken = "take_task 0 sample_queue1"
  have one: "worker_step sample_queue1 ?taken"
    by (rule worker_step.take_one) (simp_all add: sample_queue1_def sample_queue_def)
  have two: "worker_step ?taken (finish_task (\<lambda>_. None) 0 ?t ?taken)"
    by (rule worker_step.finish_one) (simp_all add: take_task_def sample_queue1_def sample_queue_def)
  let ?over = "finish_task (\<lambda>_. None) 0 ?t ?taken"
  have steps: "(worker_step ^^ 2) sample_queue1 ?over" using one two by (auto simp: numeral_2_eq_2)
  have "\<not> isClosed ?over" "WorkerCount sample_queue_config \<noteq> 0"
    by (simp_all add: finish_task_def take_task_def sample_queue1_def sample_queue_def sample_queue_config_def)
  with queue_settles [OF sample_queue1_reachable steps]
  have "(\<exists>aq''. worker_step ?over aq'') \<or> mset (map o_task (handled ?over)) = mset (accepted sample_queue1)" by simp
  with steps show ?thesis by (intro exI [of _ ?over] conjI) simp_all
qed

theorem queue_refines_fifo_witness:
  "\<exists>op. fifo_run 1 2 (accepted sample_queue1) op [] \<and> mset op = {#sample_task\<lparr>t_Timeout := 100\<rparr>#}"
  using queue_refines_fifo [OF sample_queue1_reachable]
  by (auto simp: sample_queue1_def sample_queue_def sample_queue_config_def busy_def numeral_2_eq_2)

theorem one_worker_in_order_witness:
  "accepted sample_queue1 = map o_task (handled sample_queue1) @ busy (workers sample_queue1) @ tasks sample_queue1"
  using one_worker_in_order [OF sample_queue1_reachable] by (simp add: sample_queue_config_def)

theorem workers_overtake_witness:
  "\<exists>aq. aq_reachable (sample_queue_config\<lparr>WorkerCount := 2\<rparr>) aq \<and>
     map t_Method (accepted aq) = [''POST'', ''DELETE''] \<and> map (t_Method \<circ> o_task) (handled aq) = [''DELETE''] \<and>
     map t_Method (busy (workers aq)) = [''POST'']"
proof -
  have conf: "2 \<le> WorkerCount (sample_queue_config\<lparr>WorkerCount := 2\<rparr>)" "0 \<le> QueueSize (sample_queue_config\<lparr>WorkerCount := 2\<rparr>)"
    by (simp_all add: sample_queue_config_def)
  have meth: "t_Method (with_timeout cfg t) = t_Method t" for cfg t by (simp add: with_timeout_def)
  from workers_overtake [OF conf, of sample_task "sample_task\<lparr>t_Method := ''DELETE''\<rparr>" "\<lambda>_. None"]
  obtain aq where "aq_reachable (sample_queue_config\<lparr>WorkerCount := 2\<rparr>) aq"
    "map t_Method (accepted aq) = [''POST'', ''DELETE'']" "map (t_Method \<circ> o_task) (handled aq) = [''DELETE'']"
    "map t_Method (busy (workers aq)) = [''POST'']"
    by (auto simp: meth sample_task_def)
  then show ?thesis by (intro exI [of _ aq] conjI)
qed

end
