(* ===== verification/RequestQueue.thy ===== *)
theory RequestQueue
  imports FilterLifecycle QueueOrder
begin

text \<open>
  The filter of \<open>FilterLifecycle\<close> on the real queue: the tasks a request submits are followed
  through the channel and the workers of \<open>AsyncRequest\<close> while other requests, the workers and a
  shutdown of the queue run between its callbacks.
\<close>

subsection \<open>A callback submits at most one task\<close>

definition submits :: "('g, 'q) deps \<Rightarrow> 'q \<Rightarrow> 'q \<Rightarrow> bool" where
  "submits d q q' \<longleftrightarrow> q' = q \<or> (\<exists>t. q' = snd (d_submit d t q))"

lemma submits_refl [simp]: "submits d q q"
  by (simp add: submits_def)

lemma submits_task: "d_submit d t q = (e, q') \<Longrightarrow> submits d q q'"
  by (auto simp: submits_def intro: exI [of _ t])

lemma submits_add: "f_AddRequest d now f q = Ret (f', q') \<Longrightarrow> submits d q q'"
  by (cases "UniqueId (d_uuid d) f")
    (auto simp: f_AddRequest_def AddRequest_def Let_def
      split: if_splits prod.splits option.splits run.splits dest: submits_task)

lemma submits_delete_prompt: "DeletePromptLength d f q = (f', q') \<Longrightarrow> submits d q q'"
  by (auto simp: DeletePromptLength_def delete_prompt_length_def DeleteRequestPrompt_def Let_def
      split: if_splits prod.splits option.splits dest: submits_task)

lemma submits_decrease: "DecreaseMetaDataCenter d f q = (f', q') \<Longrightarrow> submits d q q'"
  by (auto simp: DecreaseMetaDataCenter_def DeleteRequest_def Let_def
      split: if_splits prod.splits dest: submits_task)

lemma submits_save: "submits d q (f_SaveKVCache d f q)"
  by (auto simp: submits_def f_SaveKVCache_def SaveKVCache_def)

lemma request_step_submits:
  assumes "request_step env d (ph, f, g, q) (ph', f', g', q')"
  shows "submits d q q' \<or> (env (g, fst q) (g', fst q') \<and> snd q' = snd q)"
  using assms
proof (cases rule: request_stepE [consumes 1, case_names decode headers whole piece timer log others])
  case (decode now action)
  from DecodeRequest_counts [OF decode(3)] show ?thesis by (auto dest: submits_add)
next
  case headers
  from EncodeHeaders_keeps [OF headers(4)] submits_save [of d q f] show ?thesis by auto
next
  case whole
  from EncodeResponse_deletes [OF whole(4)] show ?thesis by (auto dest: submits_delete_prompt)
next
  case piece
  from EncodeData_deletes [OF piece(4)] show ?thesis by (auto dest: submits_delete_prompt)
next
  case timer
  then show ?thesis by (auto simp: timer_fires_def dest: submits_delete_prompt)
next
  case log
  from OnLog_decreases [OF log(2)] show ?thesis by (auto split: if_splits dest: submits_decrease [OF sym])
qed auto

subsection \<open>The queue under the filter\<close>

text \<open>Between two callbacks: one step of the queue, and whatever \<open>R\<close> allows the managers.\<close>

definition queue_env :: "('g \<Rightarrow> 'g \<Rightarrow> bool) \<Rightarrow> 'g \<times> async_queue \<Rightarrow> 'g \<times> async_queue \<Rightarrow> bool" where
  "queue_env R s s' \<longleftrightarrow> R (fst s) (fst s') \<and> (snd s' = snd s \<or> aq_step (snd s) (snd s'))"

text \<open>The tasks of a request the queue took, as it keeps them.\<close>

definition taken_tasks :: "queue_config \<Rightarrow> trace \<Rightarrow> task list" where
  "taken_tasks cfg tr = map (with_timeout cfg \<circ> fst) (List.filter snd tr)"

lemma taken_tasks_simps [simp]:
  "taken_tasks cfg [] = []"
  "taken_tasks cfg (tr @ tr') = taken_tasks cfg tr @ taken_tasks cfg tr'"
  "taken_tasks cfg ((t, ok) # tr) = (if ok then [with_timeout cfg t] else []) @ taken_tasks cfg tr"
  by (simp_all add: taken_tasks_def)

lemma aq_step_accepted: "aq_step aq aq' \<Longrightarrow> prefix (accepted aq) (accepted aq')"
proof (induction rule: aq_step.induct)
  case (dispatch aq receiver pick_done t e aq')
  from Dispatch_cases [OF dispatch(2)] show ?case by (auto simp: send_def)
next
  case (take_one i aq)
  then show ?case by (cases "tasks aq") (simp_all add: take_task_def)
qed (simp_all add: finish_task_def Shutdown_begin_def Shutdown_end_def)

lemma enqueue_reachable:
  assumes "aq_reachable cfg aq" "enqueue pick t aq = (e, aq')"
  shows "aq_reachable cfg aq'"
proof (cases "shutting aq")
  case True
  with aq_reachable_inv [OF assms(1)] have "isClosed aq" by (simp add: aq_inv_def aq_lifecycle_def)
  with assms show ?thesis by (simp add: enqueue_def Dispatch_def)
next
  case False
  show ?thesis
  proof (cases "Dispatch (pick aq) False t aq")
    case (Ret r)
    with assms(2) have "Dispatch (pick aq) False t aq = Ret (e, aq')" by (simp add: enqueue_def)
    from aq_reachable.step [OF assms(1) aq_step.dispatch [OF False this]] show ?thesis .
  qed (use assms in \<open>simp add: enqueue_def\<close>)
qed

lemma enqueue_accepted:
  assumes "aq_reachable cfg aq" "enqueue pick t aq = (e, aq')"
  shows "accepted aq' = accepted aq @ taken_tasks cfg [(t, e = None)]"
proof (cases e)
  case None
  have "aq_config aq = cfg" using aq_reachable_inv [OF assms(1)] by (simp add: aq_inv_def aq_bounds_def)
  with None assms(2) queue_sink.submit_accepted [of pick t aq aq'] show ?thesis by (simp add: fill_in_def)
qed (use assms queue_sink.submit_refused [of pick t aq] in auto)

definition queue_follows :: "queue_config \<Rightarrow> async_queue \<times> trace \<Rightarrow> bool" where
  "queue_follows cfg q \<longleftrightarrow> aq_reachable cfg (fst q) \<and> subseq (taken_tasks cfg (snd q)) (accepted (fst q))"

lemma queue_follows_submits:
  assumes "d_submit d = traced (enqueue pick)" "submits d q q'" "queue_follows cfg q"
  shows "queue_follows cfg q'"
proof (cases "q' = q")
  case False
  with assms(1,2) obtain t where q': "q' = snd (traced (enqueue pick) t q)" by (auto simp: submits_def)
  obtain e aq where e: "enqueue pick t (fst q) = (e, aq)" by (rule prod.exhaust)
  with q' have "q' = (aq, snd q @ [(t, e = None)])" by (simp add: traced_def)
  with assms(3) enqueue_reachable [OF _ e] enqueue_accepted [OF _ e] show ?thesis
    by (auto simp: queue_follows_def intro!: list_emb_append_mono)
qed (use assms in simp)

lemma queue_follows_env:
  assumes "queue_env R (g, fst q) (g', fst q')" "snd q' = snd q" "queue_follows cfg q"
  shows "queue_follows cfg q'"
proof -
  from assms(1) have "fst q' = fst q \<or> aq_step (fst q) (fst q')" by (simp add: queue_env_def)
  then show ?thesis
  proof
    assume "aq_step (fst q) (fst q')"
    with assms(2,3) prefix_imp_subseq [OF aq_step_accepted [OF this]] show ?thesis
      by (auto simp: queue_follows_def intro: aq_reachable.step subseq_order.trans)
  qed (use assms in \<open>simp add: queue_follows_def\<close>)
qed

lemma request_run_follows:
  assumes "request_run (queue_env R) d f0 (g0, aq0) st"
    and "d_submit d = traced (enqueue pick)" "aq_reachable cfg aq0"
  shows "case st of (ph, f, g, q) \<Rightarrow> queue_follows cfg q"
  using assms(1)
proof (induction)
  case (start g s)
  with assms(3) show ?case by (simp add: queue_follows_def)
next
  case (step st st')
  obtain ph f g q where st: "st = (ph, f, g, q)" by (metis prod.exhaust)
  obtain ph' f' g' q' where st': "st' = (ph', f', g', q')" by (metis prod.exhaust)
  from step.IH st have follows: "queue_follows cfg q" by simp
  from request_step_submits [OF step.hyps(2) [unfolded st st']] have "queue_follows cfg q'"
  proof (elim disjE conjE)
    assume "submits d q q'"
    from queue_follows_submits [OF assms(2) this follows] show ?thesis .
  next
    assume "queue_env R (g, fst q) (g', fst q')" "snd q' = snd q"
    from queue_follows_env [OF this follows] show ?thesis .
  qed
  then show ?case by (simp add: st')
qed

subsection \<open>What becomes of the tasks of a request\<close>

text \<open>
  A task the queue took for a request is never lost: at any moment of the request, with other
  requests, the workers and a shutdown of the queue running between its callbacks, the tasks it
  submitted and the queue accepted are among those accepted, in their order, and each of them is
  waiting in the channel, at a worker or handled.
\<close>

theorem request_tasks_kept:
  assumes "d_submit d = traced (enqueue pick)" "aq_reachable cfg aq0"
    and "request_run (queue_env R) d f0 (g0, aq0) (ph, f, g, aq, tr)"
  shows "subseq (taken_tasks cfg tr) (accepted aq) \<and>
    mset (taken_tasks cfg tr) \<subseteq># mset (tasks aq) + mset (busy (workers aq)) + mset (map o_task (handled aq))"
proof -
  from request_run_follows [OF assms(3,1,2)] have run: "aq_reachable cfg aq" "subseq (taken_tasks cfg tr) (accepted aq)"
    by (simp_all add: queue_follows_def)
  with subseq_mset [OF run(2)] aq_reachable_inv [OF run(1)] show ?thesis by (simp add: aq_inv_def aq_accounts_def)
qed

lemma subseq_around:
  "subseq (a # taken_tasks cfg [(t, ok)]) (before @ a # between @ taken_tasks cfg [(t, ok)])"
  by (metis append_Cons append_Nil list_emb_append2 subseq_Cons2 subseq_order.refl)

text \<open>
  C3. The load of a request from the filter to the center.  With one worker, once the request is over
  and the queue has drained, either the request was never counted, or the task that adds its load
  has been handled and, unless the queue refused it, the task that takes its load back has been handled
  after it, under the same id.
\<close>

theorem request_load_handled:
  assumes "d_submit d = traced (enqueue pick)" "aq_reachable cfg aq0" "WorkerCount cfg = 1"
    and "request_run (queue_env R) d (filterFactory c ps cb body meta) (g0, aq0) (Logged, f, g, aq, tr)"
    and "tasks aq = []" "busy (workers aq) = []"
  shows "quiet tr \<or>
    (\<exists>a tr' t ok. tr = tr' @ [(t, ok)] \<and> (a, True) \<in> set tr' \<and> add_task a \<and> remove_task t \<and>
       task_id a = Some (JStr (d_uuid d)) \<and> task_id t = Some (JStr (d_uuid d)) \<and>
       subseq (with_timeout cfg a # (if ok then [with_timeout cfg t] else [])) (map o_task (handled aq)))"
proof -
  from request_run_follows [OF assms(4,1,2)] have run: "aq_reachable cfg aq" "subseq (taken_tasks cfg tr) (accepted aq)"
    by (simp_all add: queue_follows_def)
  have order: "subseq (taken_tasks cfg tr) (map o_task (handled aq))"
    using aq_sim_one [OF aq_reachable_inv [OF run(1)] aq_reachable_sim [OF run(1)] assms(3)] run(2) assms(5,6) by simp
  from request_run_accounted [OF assms(4,1)] have "accounted (d_uuid d) Logged f tr" by simp
  from accounted_logged [OF this] show ?thesis
  proof (elim disjE exE conjE)
    fix tr' t ok n
    assume tr: "tr = tr' @ [(t, ok)]" "remove_task t" "task_id t = Some (JStr (d_uuid d))"
      and "counted (JStr (d_uuid d)) n tr'"
    then obtain before a between where a: "tr' = before @ [(a, True)] @ between" "add_task a"
      "task_id a = Some (JStr (d_uuid d))"
      by (auto simp: counted_def)
    with tr(1) have "taken_tasks cfg tr = taken_tasks cfg before @ with_timeout cfg a #
        taken_tasks cfg between @ taken_tasks cfg [(t, ok)]"
      by simp
    with subseq_around order
    have "subseq (with_timeout cfg a # taken_tasks cfg [(t, ok)]) (map o_task (handled aq))"
      by (metis subseq_order.trans)
    with tr a show ?thesis by (intro disjI2 exI [of _ a] exI [of _ tr'] exI [of _ t] exI [of _ ok]) simp
  qed simp
qed

subsection \<open>A sample request on a sample queue\<close>

definition sample_queue_deps :: "(unit, async_queue \<times> trace) deps" where
  "sample_queue_deps = sample_deps_on (enqueue (\<lambda>_. None))"

lemma sample_submit: "d_submit sample_queue_deps = traced (enqueue (\<lambda>_. None))"
  by (simp add: sample_queue_deps_def sample_deps_on_def)

text \<open>The sample queue after it has handled some tasks.\<close>

definition sample_drained :: "task list \<Rightarrow> outcome list \<Rightarrow> async_queue" where
  "sample_drained ts rs = sample_queue\<lparr>accepted := ts, handled := rs\<rparr>"

lemma sample_enqueue:
  "enqueue (\<lambda>_. None) t (sample_drained ts rs) =
     (None, sample_drained ts rs\<lparr>tasks := [with_timeout sample_queue_config t],
              accepted := ts @ [with_timeout sample_queue_config t]\<rparr>)"
  by (simp add: enqueue_def Dispatch_def sample_drained_def sample_queue_def send_ready_def waiting_def
      send_def Let_def) (simp add: sample_queue_config_def)

text \<open>The one worker takes the task and handles it at the first attempt.\<close>

lemma sample_drains:
  assumes "request_run (queue_env (=)) d f0 init (ph, f, g, snd (enqueue (\<lambda>_. None) t (sample_drained ts rs)), tr)"
  shows "\<exists>ts' rs'. request_run (queue_env (=)) d f0 init (ph, f, g, sample_drained ts' rs', tr)"
proof -
  let ?t = "with_timeout sample_queue_config t"
  let ?full = "snd (enqueue (\<lambda>_. None) t (sample_drained ts rs))"
  have "workers ?full = [WIdle]" "tasks ?full = [?t]"
    by (simp_all add: sample_enqueue) (simp add: sample_drained_def sample_queue_def)
  then have take: "aq_step ?full (take_task 0 ?full)" by (intro aq_step.take_one) simp_all
  let ?taken = "take_task 0 ?full"
  have "workers ?taken = [WBusy ?t]"
    by (simp add: sample_enqueue take_task_def) (simp add: sample_drained_def sample_queue_def)
  then have "aq_step ?taken (finish_task (\<lambda>_. None) 0 ?t ?taken)" by (intro aq_step.finish_one) simp_all
  with take have env: "queue_env (=) (g, ?full) (g, ?taken)"
      "queue_env (=) (g, ?taken) (g, finish_task (\<lambda>_. None) 0 ?t ?taken)"
    by (simp_all add: queue_env_def)
  have "finish_task (\<lambda>_. None) 0 ?t ?taken =
      sample_drained (ts @ [?t]) (rs @ [run_task (\<lambda>_. None) sample_queue_config ?t])"
    by (simp add: sample_enqueue take_task_def finish_task_def)
      (simp add: sample_drained_def sample_queue_def)
  with request_run.step [OF request_run.step [OF assms request_step.others [where env = "queue_env (=)", OF env(1)]] request_step.others [where env = "queue_env (=)", OF env(2)]]
  show ?thesis by auto
qed

lemma sample_queue_run:
  "\<exists>f ts rs tr a. request_run (queue_env (=)) sample_queue_deps sample_filter ((), sample_queue)
     (Logged, f, (), sample_drained ts rs, tr) \<and> (a, True) \<in> set tr \<and> add_task a"
proof -
  let ?run = "request_run (queue_env (=)) sample_queue_deps sample_filter ((), sample_queue)"
  have fresh: "sample_queue = sample_drained [] []" by (simp add: sample_drained_def sample_queue_def)
  from sample_decode_on [of "enqueue (\<lambda>_. None)" "sample_drained [] []"
      "\<lambda>r. snd (enqueue (\<lambda>_. None) (inference_task ''POST'' MetaDataCenterLoadPath r) (sample_drained [] []))"]
  obtain f r where dec: "f_DecodeRequest sample_queue_deps 1 sample_filter () (sample_drained [] [], []) =
      Ret (Continue, f, (), snd (enqueue (\<lambda>_. None) (inference_task ''POST'' MetaDataCenterLoadPath r) (sample_drained [] [])),
           [(inference_task ''POST'' MetaDataCenterLoadPath r, True)])"
    and rec: "f_isIncreaseRecorded f"
    unfolding sample_queue_deps_def by (auto simp: sample_enqueue)
  let ?tr = "[(inference_task ''POST'' MetaDataCenterLoadPath r, True)]"
  from sample_drains [OF request_run.step [OF request_run.start request_step.decode [OF dec]]] fresh
  obtain ts rs where run: "?run (Decoded, f, (), sample_drained ts rs, ?tr)" by auto
  obtain f' aq tr where log: "f_OnLog sample_queue_deps f (sample_drained ts rs, ?tr) = (f', aq, tr)"
    by (metis prod.exhaust)
  from request_run.step [OF run request_step.log [OF _ log]] have logged: "?run (Logged, f', (), aq, tr)" by simp
  from request_step_submits [OF request_step.log [OF _ log], of Decoded "(=)"]
  have "submits sample_queue_deps (sample_drained ts rs, ?tr) (aq, tr)" by (auto simp: submits_def)
  then consider "aq = sample_drained ts rs" "tr = ?tr"
    | t e where "aq = snd (enqueue (\<lambda>_. None) t (sample_drained ts rs))" "tr = ?tr @ [(t, e)]"
    by (auto simp: submits_def sample_submit traced_def Let_def case_prod_unfold)
  then show ?thesis
  proof cases
    case 1
    with logged show ?thesis by fastforce
  next
    case (2 t e)
    with sample_drains [of sample_queue_deps sample_filter "((), sample_queue)" Logged f' "()"] logged
    obtain ts' rs' where "?run (Logged, f', (), sample_drained ts' rs', tr)" by blast
    with 2 show ?thesis by fastforce
  qed
qed

theorem request_tasks_kept_witness:
  "\<exists>f aq tr a. request_run (queue_env (=)) sample_queue_deps sample_filter ((), sample_queue) (Logged, f, (), aq, tr) \<and>
     add_task a \<and> mset (taken_tasks sample_queue_config tr) \<subseteq># mset (map o_task (handled aq)) \<and>
     with_timeout sample_queue_config a \<in># mset (map o_task (handled aq))"
proof -
  from sample_queue_run obtain f ts rs tr a where run: "request_run (queue_env (=)) sample_queue_deps sample_filter
      ((), sample_queue) (Logged, f, (), sample_drained ts rs, tr)" "(a, True) \<in> set tr" "add_task a" by blast
  from request_tasks_kept [OF sample_submit sample_queue_reachable run(1)]
  have sub: "mset (taken_tasks sample_queue_config tr) \<subseteq># mset (map o_task (handled (sample_drained ts rs)))"
    by (simp add: sample_drained_def sample_queue_def busy_def)
  from run(2) have "with_timeout sample_queue_config a \<in># mset (taken_tasks sample_queue_config tr)"
    by (force simp: taken_tasks_def)
  with sub run(1,3) show ?thesis by (meson mset_subset_eqD)
qed

theorem request_load_handled_witness:
  "\<exists>f aq tr a t ts. request_run (queue_env (=)) sample_queue_deps sample_filter ((), sample_queue)
       (Logged, f, (), aq, tr @ [t]) \<and> add_task a \<and> remove_task (fst t) \<and>
     task_id a = Some (JStr ''u'') \<and> task_id (fst t) = Some (JStr ''u'') \<and>
     subseq (with_timeout sample_queue_config a # ts) (map o_task (handled aq))"
proof -
  from sample_queue_run obtain f ts rs tr a where run: "request_run (queue_env (=)) sample_queue_deps sample_filter
      ((), sample_queue) (Logged, f, (), sample_drained ts rs, tr)" "(a, True) \<in> set tr" "add_task a" by blast
  then have "\<not> quiet tr" by (auto simp: quiet_def)
  moreover have one: "WorkerCount sample_queue_config = 1" and uuid: "d_uuid sample_queue_deps = ''u''"
    and drained: "tasks (sample_drained ts rs) = []" "busy (workers (sample_drained ts rs)) = []"
    by (simp_all add: sample_queue_config_def sample_queue_deps_def sample_deps_on_def sample_drained_def
        sample_queue_def busy_def)
  ultimately obtain b tr' t ok ts' where "tr = tr' @ [(t, ok)]" "add_task b" "remove_task t"
    "task_id b = Some (JStr ''u'')" "task_id t = Some (JStr ''u'')"
    "subseq (with_timeout sample_queue_config b # ts') (map o_task (handled (sample_drained ts rs)))"
    using request_load_handled [OF sample_submit sample_queue_reachable one run(1) [unfolded sample_filter_def] drained]
    unfolding uuid by blast
  with run(1) show ?thesis
    by (intro exI [of _ f] exI [of _ "sample_drained ts rs"] exI [of _ tr'] exI [of _ b] exI [of _ "(t, ok)"]
        exI [of _ ts']) simp
qed

end
