(* ===== verification/PromptRace.thy ===== *)
theory PromptRace
  imports RequestQueue
begin

text \<open>
  \<open>DeletePromptLength\<close> of \<^verbatim>\<open>plugins/llmproxy/metadata_center.go\<close> run by two goroutines at once: the
  timer that \<open>AddRequest\<close> starts and the callbacks of Envoy, without a lock between them.  The
  function is cut into its steps (guards, stopping the timer, submitting the task, setting the flag),
  which may interleave; \<open>OnLog\<close> is one step, and the steps of the two goroutines are taken to be
  sequentially consistent.
\<close>

subsection \<open>The function step by step\<close>

text \<open>Where a goroutine is in the function; \<open>Off\<close> is a goroutine that has not called it.\<close>

datatype deleter = Off | Called | Guarded | Stopped | Answered "dispatch_error option" | Finished

fun deleter_move ::
    "('g, 'q) deps \<Rightarrow> deleter \<times> proxy_filter \<times> 'q \<Rightarrow> deleter \<times> proxy_filter \<times> 'q" where
  "deleter_move d (Called, f, q) = (if prompt_length_due f then (Guarded, f, q) else (Finished, f, q))"
| "deleter_move d (Guarded, f, q) = (Stopped, StopPromptDecreaseTimer f, q)"
| "deleter_move d (Stopped, f, q) =
     (let (rid, f) = UniqueId (d_uuid d) f;
          (err, q) = DeleteRequestPrompt (d_submit d) (mc_context f) rid q
      in (Answered err, f, q))"
| "deleter_move d (Answered None, f, q) = (Finished, f\<lparr>f_isPromptLengthDeleted := True\<rparr>, q)"
| "deleter_move d (Answered (Some e), f, q) = (Finished, f, q)"
| "deleter_move d (Off, f, q) = (Off, f, q)"
| "deleter_move d (Finished, f, q) = (Finished, f, q)"

text \<open>With nobody else at work the four steps are the function.\<close>

lemma deleter_alone:
  "(deleter_move d ^^ 4) (Called, f, q) = (let (f', q') = DeletePromptLength d f q in (Finished, f', q'))"
proof (cases "prompt_length_due f")
  case True
  obtain rid f1 where u: "UniqueId (d_uuid d) (StopPromptDecreaseTimer f) = (rid, f1)" by (rule prod.exhaust)
  obtain err q1 where s: "DeleteRequestPrompt (d_submit d) (mc_context f1) rid q = (err, q1)" by (rule prod.exhaust)
  from True u s show ?thesis
    by (cases err) (simp_all add: DeletePromptLength_def delete_prompt_length_def numeral_eq_Suc)
qed (simp add: DeletePromptLength_def numeral_eq_Suc)

subsection \<open>The two goroutines\<close>

text \<open>
  A state is the place of the timer's goroutine, that of the callback, whether the request is over,
  the filter and the queue.  The timer fires once; a callback may call the function again and again until
  the request is over; other requests change the queue at any moment.
\<close>

type_synonym 's race = "deleter \<times> deleter \<times> bool \<times> proxy_filter \<times> 's \<times> trace"

inductive race_step :: "('g, 's \<times> trace) deps \<Rightarrow> 's race \<Rightarrow> 's race \<Rightarrow> bool" for d where
  fire: "f_timer_armed f \<Longrightarrow> race_step d (Off, c, over, f, q) (Called, c, over, f\<lparr>f_timer_armed := False\<rparr>, q)"
| timer: "deleter_move d (p, f, q) = (p', f', q') \<Longrightarrow> race_step d (p, c, over, f, q) (p', c, over, f', q')"
| call: "c \<in> {Off, Finished} \<Longrightarrow> race_step d (p, c, False, f, q) (p, Called, False, f, q)"
| callback: "deleter_move d (c, f, q) = (c', f', q') \<Longrightarrow> race_step d (p, c, over, f, q) (p, c', over, f', q')"
| log: "c \<in> {Off, Finished} \<Longrightarrow> f_OnLog d f q = (f', q') \<Longrightarrow> race_step d (p, c, False, f, q) (p, c, True, f', q')"
| others: "race_step d (p, c, over, f, s, tr) (p, c, over, f, s', tr)"

inductive race_run :: "('g, 's \<times> trace) deps \<Rightarrow> proxy_filter \<Rightarrow> 's \<times> trace \<Rightarrow> 's race \<Rightarrow> bool" for d f q where
  start: "race_run d f q (Off, Off, False, f, q)"
| step: "race_run d f q st \<Longrightarrow> race_step d st st' \<Longrightarrow> race_run d f q st'"

inductive_cases race_stepE: "race_step d (p, c, over, f, q) (p', c', over', f', q')"

subsection \<open>How many deletions there can be\<close>

text \<open>The accepted deletions of a prompt in a trace.\<close>

definition prompts :: "trace \<Rightarrow> nat" where
  "prompts tr = length (List.filter (\<lambda>(t, ok). prompt_task t \<and> ok) tr)"

lemma prompts_simps [simp]:
  "prompts [] = 0" "prompts (tr @ tr') = prompts tr + prompts tr'"
  "prompts ((t, ok) # tr) = of_bool (prompt_task t \<and> ok) + prompts tr"
  by (simp_all add: prompts_def)

definition removes :: "trace \<Rightarrow> nat" where
  "removes tr = length (List.filter (\<lambda>(t, ok). remove_task t) tr)"

lemma removes_simps [simp]:
  "removes [] = 0" "removes (tr @ tr') = removes tr + removes tr'"
  "removes ((t, ok) # tr) = of_bool (remove_task t) + removes tr"
  by (simp_all add: removes_def)

text \<open>How many more deletions the timer and the callbacks can still have accepted.\<close>

definition timer_budget :: "deleter \<Rightarrow> nat" where
  "timer_budget p = (case p of Answered _ \<Rightarrow> 0 | Finished \<Rightarrow> 0 | _ \<Rightarrow> 1)"

definition callback_budget :: "deleter \<Rightarrow> bool \<Rightarrow> nat" where
  "callback_budget c deleted =
     (case c of Guarded \<Rightarrow> 1 | Stopped \<Rightarrow> 1 | Answered None \<Rightarrow> 0 | _ \<Rightarrow> of_bool (\<not> deleted))"

text \<open>Behind the removal of the request at most one accepted deletion of its prompt follows, the timer's.\<close>

definition removed_once :: "nat \<Rightarrow> trace \<Rightarrow> bool" where
  "removed_once n tr \<longleftrightarrow> (\<exists>tr1 t ok tr2. tr = tr1 @ [(t, ok)] @ tr2 \<and> remove_task t \<and>
     removes tr1 = 0 \<and> removes tr2 = 0 \<and> prompts tr2 + n \<le> 1)"

lemma removed_once_mono: "removed_once n tr \<Longrightarrow> m \<le> n \<Longrightarrow> removed_once m tr"
  unfolding removed_once_def
  by (elim exE conjE, intro exI conjI) (assumption, assumption, assumption, assumption, simp)

lemma removed_once_snoc:
  assumes "removed_once 1 tr" "\<not> remove_task t"
  shows "removed_once 0 (tr @ [(t, ok)])"
proof -
  from assms(1) obtain tr1 t1 ok1 tr2 where tr: "tr = tr1 @ [(t1, ok1)] @ tr2" "remove_task t1"
    "removes tr1 = 0" "removes tr2 = 0" "prompts tr2 = 0"
    by (auto simp: removed_once_def)
  with assms(2) show ?thesis
    unfolding removed_once_def
    by (intro exI [of _ tr1] exI [of _ t1] exI [of _ ok1] exI [of _ "tr2 @ [(t, ok)]"]) simp
qed

lemma removed_once_log: "removes tr = 0 \<Longrightarrow> remove_task t \<Longrightarrow> n \<le> 1 \<Longrightarrow> removed_once n (tr @ [(t, ok)])"
  unfolding removed_once_def by (intro exI [of _ tr] exI [of _ t] exI [of _ ok] exI [of _ "[]"]) simp

definition live :: "string \<Rightarrow> proxy_filter \<Rightarrow> bool" where
  "live uuid f \<longleftrightarrow> f_isIncreaseRecorded f \<and> f_isModelLoadAwareEnable f \<and> f_uniqueId f \<in> {[], uuid}"

definition race_inv :: "string \<Rightarrow> 's race \<Rightarrow> bool" where
  "race_inv uuid st \<longleftrightarrow>
     (case st of (p, c, over, f, q) \<Rightarrow>
        live uuid f \<and>
        prompts (snd q) + timer_budget p + callback_budget c (f_isPromptLengthDeleted f) \<le> 2 \<and>
        (if over then c \<in> {Off, Finished} \<and> removed_once (timer_budget p) (snd q) else removes (snd q) = 0))"

text \<open>What one step of the function does.\<close>

lemma deleter_move_cases:
  assumes "deleter_move d (p, f, q) = (p', f', q')" "d_submit d = traced submit" "live (d_uuid d) f"
  obtains (silent) "q' = q" "live (d_uuid d) f'" "f_isPromptLengthDeleted f' = f_isPromptLengthDeleted f"
      "p' = p \<and> p \<in> {Off, Finished} \<or> p = Called \<and> p' = Finished \<or> p = Guarded \<and> p' = Stopped \<or>
       p = Called \<and> p' = Guarded \<and> \<not> f_isPromptLengthDeleted f \<or> (\<exists>e. p = Answered (Some e) \<and> p' = Finished)"
  | (submitted) s e t where "q' = (s, snd q @ [(t, e = None)])" "prompt_task t" "\<not> remove_task t"
      "live (d_uuid d) f'" "f_isPromptLengthDeleted f' = f_isPromptLengthDeleted f" "p = Stopped" "p' = Answered e"
  | (flagged) "q' = q" "live (d_uuid d) f'" "f_isPromptLengthDeleted f'" "p = Answered None" "p' = Finished"
proof (cases p)
  case Called
  with assms(1,3) show ?thesis
    by (intro silent) (auto simp: live_def prompt_length_due_def split: if_splits)
next
  case Guarded
  with assms(1,3) view_StopPromptDecreaseTimer [of f] show ?thesis
    by (intro silent) (auto simp: live_def view_def)
next
  case Stopped
  from assms(3) have "f_uniqueId f \<in> {[], d_uuid d}" by (simp add: live_def)
  from UniqueId_eq [OF this] obtain f1 where u: "UniqueId (d_uuid d) f = (d_uuid d, f1)"
    "f_isIncreaseRecorded f1 = f_isIncreaseRecorded f" "f_isPromptLengthDeleted f1 = f_isPromptLengthDeleted f"
    "f_isModelLoadAwareEnable f1 = f_isModelLoadAwareEnable f" "f_uniqueId f1 = d_uuid d"
    by (auto simp: view_def)
  define t where "t = inference_task ''DELETE'' MetaDataCenterLoadPromptLength (delete_request (mc_context f1) (d_uuid d))"
  obtain e s where "submit t (fst q) = (e, s)" by (rule prod.exhaust)
  with assms(1,2) Stopped u(1) have "p' = Answered e" "f' = f1" "q' = (s, snd q @ [(t, e = None)])"
    by (auto simp: DeleteRequestPrompt_def traced_def t_def)
  with u Stopped assms(3) show ?thesis by (intro submitted [of s t e]) (auto simp: live_def t_def)
next
  case (Answered err)
  with assms(1,3) show ?thesis
    by (cases err) (auto simp: live_def intro: silent flagged)
qed (use assms(1,3) in \<open>auto intro: silent\<close>)

lemma timer_budget_simps [simp]:
  "timer_budget Off = 1" "timer_budget Called = 1" "timer_budget Guarded = 1" "timer_budget Stopped = 1"
  "timer_budget (Answered e) = 0" "timer_budget Finished = 0"
  by (simp_all add: timer_budget_def)

lemma callback_budget_simps [simp]:
  "callback_budget Off b = of_bool (\<not> b)" "callback_budget Called b = of_bool (\<not> b)"
  "callback_budget Finished b = of_bool (\<not> b)" "callback_budget Guarded b = 1" "callback_budget Stopped b = 1"
  "callback_budget (Answered None) b = 0" "callback_budget (Answered (Some e)) b = of_bool (\<not> b)"
  by (simp_all add: callback_budget_def)

lemma callback_budget_flag: "callback_budget c True \<le> callback_budget c b"
  by (cases c) (auto simp: callback_budget_def split: option.split)

lemma race_inv_timer:
  assumes "race_inv (d_uuid d) (p, c, over, f, q)" "deleter_move d (p, f, q) = (p', f', q')" "d_submit d = traced submit"
  shows "race_inv (d_uuid d) (p', c, over, f', q')"
proof -
  from assms(1) have "live (d_uuid d) f" by (simp add: race_inv_def)
  from assms(2,3) this show ?thesis
  proof (cases rule: deleter_move_cases)
    case silent
    then have "timer_budget p' \<le> timer_budget p" by auto
    with silent(1-3) assms(1) removed_once_mono [of "timer_budget p" "snd q" "timer_budget p'"] show ?thesis
      by (simp add: race_inv_def split: if_splits)
  next
    case (submitted s e t)
    from submitted assms(1) removed_once_snoc [of "snd q" t "e = None"] show ?thesis
      by (cases e) (simp_all add: race_inv_def split: if_splits)
  next
    case flagged
    with callback_budget_flag [of c "f_isPromptLengthDeleted f"] assms(1) show ?thesis
      by (simp add: race_inv_def split: if_splits)
  qed
qed

lemma race_inv_callback:
  assumes "race_inv (d_uuid d) (p, c, over, f, q)" "deleter_move d (c, f, q) = (c', f', q')" "d_submit d = traced submit"
  shows "race_inv (d_uuid d) (p, c', over, f', q')"
proof -
  from assms(1) have "live (d_uuid d) f" by (simp add: race_inv_def)
  from assms(2,3) this show ?thesis
  proof (cases rule: deleter_move_cases)
    case silent
    then have "callback_budget c' (f_isPromptLengthDeleted f) \<le> callback_budget c (f_isPromptLengthDeleted f)"
      "c \<in> {Off, Finished} \<longrightarrow> c' = c" by auto
    with silent(1-3) assms(1) show ?thesis by (auto simp: race_inv_def split: if_splits)
  next
    case (submitted s e t)
    with assms(1) show ?thesis by (cases e) (simp_all add: race_inv_def split: if_splits)
  next
    case flagged
    with assms(1) show ?thesis by (simp add: race_inv_def split: if_splits)
  qed
qed

lemma race_inv_log:
  assumes "race_inv (d_uuid d) (p, c, False, f, q)" "c \<in> {Off, Finished}" "f_OnLog d f q = (f', q')"
    "d_submit d = traced submit"
  shows "race_inv (d_uuid d) (p, c, True, f', q')"
proof -
  from assms(1) have live: "live (d_uuid d) f" by (simp add: race_inv_def)
  from OnLog_decreases [OF assms(3)] live obtain f0 f1 where f01: "view f0 = view f" "view f' = view f1"
    "DecreaseMetaDataCenter d f0 q = (f1, q')"
    by (metis live_def)
  with live have "f_uniqueId f0 \<in> {[], d_uuid d}" "f_isModelLoadAwareEnable f0" by (simp_all add: view_def live_def)
  from DecreaseMetaDataCenter_submits [OF assms(4) this, of q] f01
  obtain s ok r where q': "q' = (s, snd q @ [(inference_task ''DELETE'' MetaDataCenterLoadPath r, ok)])"
    "view f' = (f_isIncreaseRecorded f, f_isPromptLengthDeleted f, False,
       f_timer_armed f0 \<and> \<not> f_promptDecreaseTimer f0, d_uuid d, True)"
    by (auto simp: view_def)
  then have live': "live (d_uuid d) f'" "f_isPromptLengthDeleted f' = f_isPromptLengthDeleted f"
    using live by (simp_all add: view_def live_def)
  have "timer_budget p \<le> 1" by (cases p) simp_all
  with removed_once_log [of "snd q" "inference_task ''DELETE'' MetaDataCenterLoadPath r" "timer_budget p" ok] q' live'
    assms(1,2) show ?thesis
    by (simp add: race_inv_def)
qed

lemma race_inv_step:
  assumes "race_step d (p, c, over, f, q) (p', c', over', f', q')" "d_submit d = traced submit"
    "race_inv (d_uuid d) (p, c, over, f, q)"
  shows "race_inv (d_uuid d) (p', c', over', f', q')"
  using assms(1)
proof (cases rule: race_stepE [consumes 1, case_names fire timer call callback log others])
  case fire
  have "live (d_uuid d) (f\<lparr>f_timer_armed := False\<rparr>) = live (d_uuid d) f" by (simp add: live_def)
  with fire assms(3) show ?thesis by (simp add: race_inv_def split: if_splits)
next
  case timer
  with race_inv_timer [OF assms(3) _ assms(2)] show ?thesis by simp
next
  case call
  with assms(3) show ?thesis by (auto simp: race_inv_def)
next
  case callback
  with race_inv_callback [OF assms(3) _ assms(2)] show ?thesis by simp
next
  case log
  with race_inv_log [of d p c f q f' q'] assms(2,3) show ?thesis by simp
next
  case others
  with assms(3) show ?thesis by (simp add: race_inv_def split: if_splits)
qed

lemma race_run_inv:
  assumes "race_run d f q st" "d_submit d = traced submit" "race_inv (d_uuid d) (Off, Off, False, f, q)"
  shows "race_inv (d_uuid d) st"
  using assms(1)
proof induction
  case (step st st')
  obtain p c over f1 q1 where st: "st = (p, c, over, f1, q1)" by (metis prod.exhaust)
  obtain p' c' over' f2 q2 where st': "st' = (p', c', over', f2, q2)" by (metis prod.exhaust)
  from race_inv_step [of d p c over f1 q1 p' c' over' f2 q2] step assms(2) show ?case by (simp add: st st')
qed (use assms in simp)

text \<open>After \<open>DecodeRequest\<close>, a request that was counted may start the race.\<close>

lemma counted_race_inv:
  assumes "accounted uuid Decoded f (snd q)" "f_isIncreaseRecorded f"
  shows "race_inv uuid (Off, Off, False, f, q)"
proof -
  from assms obtain before a between where tr: "snd q = before @ [(a, True)] @ between" "quiet before" "add_task a"
    "\<forall>(t, ok) \<in> set between. \<not> add_task t \<and> \<not> remove_task t \<and> (prompt_task t \<longrightarrow> task_id t = Some (JStr uuid))"
    "length (List.filter (\<lambda>(t, ok). prompt_task t \<and> ok) between) = of_bool (f_isPromptLengthDeleted f)"
    by (auto simp: accounted_def counted_def)
  have "removes before = 0" "prompts before = 0"
    using tr(2) by (auto simp: quiet_def removes_def prompts_def filter_empty_conv)
  moreover have "removes between = 0" "prompts between = of_bool (f_isPromptLengthDeleted f)"
    using tr(4,5) by (auto simp: removes_def prompts_def filter_empty_conv)
  moreover have "\<not> remove_task a" "\<not> prompt_task a" using tr(3) by (auto simp: add_task_def remove_task_def prompt_task_def)
  ultimately show ?thesis
    using assms tr(1) by (simp add: race_inv_def live_def accounted_def)
qed

text \<open>
  C8. However the timer's goroutine and the callbacks interleave inside \<open>DeletePromptLength\<close>, at most two
  deletions of the prompt of a counted request are accepted; and when the request is over it has been
  removed exactly once, with at most one of these deletions behind the removal.
\<close>

theorem prompt_race_bounded:
  assumes "d_submit d = traced submit"
    and "request_run env d (filterFactory conf ps cb body meta) init (Decoded, f0, g, q0)" "f_isIncreaseRecorded f0"
    and "race_run d f0 q0 (p, c, over, f, s, tr)"
  shows "prompts tr \<le> 2 \<and> (if over then removed_once 0 tr else removes tr = 0)"
proof -
  from request_run_accounted [OF assms(2,1)] have "accounted (d_uuid d) Decoded f0 (snd q0)" by simp
  from race_run_inv [OF assms(4,1) counted_race_inv [OF this assms(3)]] show ?thesis
    using removed_once_mono [of "timer_budget p" tr 0] by (simp add: race_inv_def split: if_splits)
qed

subsection \<open>The worst case happens\<close>

lemma race_callbacks:
  "race_run d f0 q0 (p, c, over, f, q) \<Longrightarrow> (deleter_move d ^^ n) (c, f, q) = (c', f', q') \<Longrightarrow>
   race_run d f0 q0 (p, c', over, f', q')"
proof (induction n arbitrary: c' f' q')
  case (Suc n)
  obtain c1 f1 q1 where n: "(deleter_move d ^^ n) (c, f, q) = (c1, f1, q1)" by (metis prod.exhaust)
  with Suc.prems(2) have "deleter_move d (c1, f1, q1) = (c', f', q')" by simp
  from race_run.step [OF Suc.IH [OF Suc.prems(1) n] race_step.callback [OF this]] show ?case .
qed simp

definition accepting :: "(task \<Rightarrow> 's \<Rightarrow> dispatch_error option \<times> 's) \<Rightarrow> bool" where
  "accepting submit \<longleftrightarrow> (\<forall>t s. fst (submit t s) = None)"

lemma submits_accepting:
  assumes "d_submit d = traced submit" "accepting submit" "submits d q (s, snd q @ [(t, ok)])"
  shows ok
proof -
  from assms(3) obtain t' where "(s, snd q @ [(t, ok)]) = snd (d_submit d t' q)"
    unfolding submits_def by (metis append_self_conv not_Cons_self2 snd_conv)
  with assms(1,2) show ?thesis by (auto simp: traced_def accepting_def Let_def case_prod_unfold)
qed

text \<open>
  The bound is reached: when the timer has passed the guards and a callback then deletes the prompt and
  the request ends before the timer goes on, the queue takes the deletion of the prompt, the removal of
  the request and the deletion of the prompt once more, of a request no longer there.
\<close>

lemma prompt_race_worst:
  assumes "d_submit d = traced submit" "accepting submit" "live (d_uuid d) f" "f_timer_armed f"
    "\<not> f_isPromptLengthDeleted f"
  shows "\<exists>p c f' s p1 r p2. race_run d f q (p, c, True, f', s, snd q @ [(p1, True), (r, True), (p2, True)]) \<and>
    prompt_task p1 \<and> remove_task r \<and> prompt_task p2"
proof -
  let ?f = "f\<lparr>f_timer_armed := False\<rparr>"
  have due: "prompt_length_due ?f" using assms(3,5) by (simp add: prompt_length_due_def live_def)
  have "race_run d f q (Called, Off, False, ?f, q)"
    by (rule race_run.step [OF race_run.start race_step.fire [OF assms(4)]])
  from race_run.step [OF this race_step.timer, of Guarded ?f q] due
  have "race_run d f q (Guarded, Off, False, ?f, q)" by simp
  from race_run.step [OF this race_step.call] have called: "race_run d f q (Guarded, Called, False, ?f, q)" by simp
  have "f_uniqueId ?f \<in> {[], d_uuid d}" using assms(3) by (simp add: live_def)
  from delete_prompt_length_submits [OF assms(1) this, of q] due obtain f1 s1 ok1 r1 where del:
    "DeletePromptLength d ?f q = (f1, s1, snd q @ [(inference_task ''DELETE'' MetaDataCenterLoadPromptLength r1, ok1)])"
    (is "_ = (_, _, _ @ [(?p1, _)])") and live1: "live (d_uuid d) f1"
    using assms(3) by (auto simp: DeletePromptLength_def view_def live_def)
  with submits_accepting [OF assms(1,2) submits_delete_prompt] have ok1: ok1 by blast
  from race_callbacks [OF called, of 4] del ok1
  have run1: "race_run d f q (Guarded, Finished, False, f1, s1, snd q @ [(?p1, True)])" by (simp add: deleter_alone)
  let ?q1 = "(s1, snd q @ [(?p1, True)])"
  obtain f2 q2 where log: "f_OnLog d f1 ?q1 = (f2, q2)" by (rule prod.exhaust)
  from OnLog_decreases [OF log] live1 obtain f0 f2' where f0: "view f0 = view f1" "view f2 = view f2'"
    "DecreaseMetaDataCenter d f0 ?q1 = (f2', q2)" by (metis live_def)
  with live1 have "f_uniqueId f0 \<in> {[], d_uuid d}" "f_isModelLoadAwareEnable f0" by (simp_all add: view_def live_def)
  from DecreaseMetaDataCenter_submits [OF assms(1) this, of ?q1] f0 live1 obtain s2 ok2 r2 where q2:
    "q2 = (s2, snd ?q1 @ [(inference_task ''DELETE'' MetaDataCenterLoadPath r2, ok2)])" (is "_ = (_, _ @ [(?r, _)])")
    and live2: "live (d_uuid d) f2"
    by (auto simp: view_def live_def)
  from submits_accepting [OF assms(1,2), of ?q1] submits_decrease [OF f0(3)] q2 have ok2: ok2 by blast
  from race_run.step [OF run1 race_step.log [OF _ log]] q2 ok2
  have "race_run d f q (Guarded, Finished, True, f2, s2, snd q @ [(?p1, True), (?r, True)])" by simp
  from race_run.step [OF this race_step.timer [of d Guarded]]
  have run3: "race_run d f q (Stopped, Finished, True, StopPromptDecreaseTimer f2, s2, snd q @ [(?p1, True), (?r, True)])"
    by simp
  let ?f3 = "StopPromptDecreaseTimer f2" and ?q3 = "(s2, snd q @ [(?p1, True), (?r, True)])"
  from live2 view_StopPromptDecreaseTimer [of f2] have live3: "live (d_uuid d) ?f3" by (simp add: view_def live_def)
  obtain p f4 q4 where move: "deleter_move d (Stopped, ?f3, ?q3) = (p, f4, q4)" by (metis prod.exhaust)
  from move assms(1) live3 show ?thesis
  proof (cases rule: deleter_move_cases)
    case (submitted s e t)
    have "submits d ?q3 q4"
      using move by (auto simp: DeleteRequestPrompt_def Let_def split: prod.splits dest: submits_task)
    with submits_accepting [OF assms(1,2), of ?q3] submitted(1) have "e = None" by blast
    with race_run.step [OF run3 race_step.timer [OF move]] submitted
    have "race_run d f q (p, Finished, True, f4, s, snd q @ [(?p1, True), (?r, True), (t, True)])" by simp
    with submitted(2) show ?thesis
      by (intro exI [of _ p] exI [of _ Finished] exI [of _ f4] exI [of _ s] exI [of _ ?p1] exI [of _ ?r] exI [of _ t]) simp
  qed simp_all
qed

subsection \<open>A sample request that is not streamed\<close>

definition sample_whole_deps :: "(unit, unit \<times> trace) deps" where
  "sample_whole_deps = sample_deps\<lparr>d_codec := sample_codec\<lparr>parse_params := (\<lambda>_. Inr (sample_params\<lparr>p_Stream := False\<rparr>))\<rparr>\<rparr>"

lemma sample_decode_whole:
  "(case f_DecodeRequest sample_whole_deps 1 sample_filter () ((), []) of
      Ret (Continue, f, g, s, [(t, ok)]) \<Rightarrow> ok \<and>
        f_isIncreaseRecorded f \<and> f_isModelLoadAwareEnable f \<and> f_uniqueId f = ''u'' \<and> f_timer_armed f \<and>
        \<not> f_isPromptLengthDeleted f
    | _ \<Rightarrow> False)"
  by code_simp

lemma continues_cases:
  assumes "case r of Ret (Continue, f, g, s, [(t, ok)]) \<Rightarrow> ok \<and> P f | _ \<Rightarrow> False"
  shows "\<exists>f g s t. r = Ret (Continue, f, g, s, [(t, True)]) \<and> P f"
proof (cases r)
  case (Ret x)
  obtain a f g s tr where x: "x = (a, f, g, s, tr)" by (metis prod.exhaust)
  with assms Ret have "a = Continue" by (cases a) simp_all
  with assms Ret x obtain y where "tr = [y]" by (cases tr; cases "tl tr") auto
  with assms Ret x \<open>a = Continue\<close> show ?thesis by (cases y) auto
qed (use assms in simp)

theorem prompt_race_bounded_witness:
  "\<exists>f0 t p c f tr. request_run (=) sample_whole_deps sample_filter ((), ()) (Decoded, f0, (), (), [(t, True)]) \<and>
     race_run sample_whole_deps f0 ((), [(t, True)]) (p, c, True, f, (), tr) \<and>
     length tr = 4 \<and> prompts tr = 2 \<and> removed_once 0 tr"
proof -
  let ?run = "f_DecodeRequest sample_whole_deps 1 sample_filter () ((), [])"
  from continues_cases [OF sample_decode_whole]
  obtain f0 t where dec: "?run = Ret (Continue, f0, (), (), [(t, True)])"
    and f0: "f_isIncreaseRecorded f0" "live ''u'' f0" "f_timer_armed f0" "\<not> f_isPromptLengthDeleted f0"
    by (auto simp: live_def)
  have start: "request_run (=) sample_whole_deps sample_filter ((), ()) (Decoded, f0, (), (), [(t, True)])"
    by (rule request_run.step [OF request_run.start [OF refl] request_step.decode [OF dec]])
  have sub: "d_submit sample_whole_deps = traced (\<lambda>t s. (None, s))" "d_uuid sample_whole_deps = ''u''"
    "accepting (\<lambda>t (s :: unit). (None, s))"
    by (simp_all add: sample_whole_deps_def sample_deps_def sample_deps_on_def accepting_def)
  from prompt_race_worst [OF sub(1,3) _ f0(3,4), of "((), [(t, True)])"] f0(2) sub(2)
  obtain p c f p1 r p2 where race: "race_run sample_whole_deps f0 ((), [(t, True)])
      (p, c, True, f, (), [(t, True), (p1, True), (r, True), (p2, True)])"
    and kinds: "prompt_task p1" "remove_task r" "prompt_task p2" by auto
  let ?tr = "[(t, True), (p1, True), (r, True), (p2, True)]"
  from prompt_race_bounded [OF sub(1) start [unfolded sample_filter_def] f0(1) race]
  have "prompts ?tr \<le> 2" "removed_once 0 ?tr" by auto
  moreover have "2 \<le> prompts ?tr" using kinds by simp
  ultimately have "prompts ?tr = 2 \<and> removed_once 0 ?tr" by linarith
  with start race show ?thesis
    by (intro exI [of _ f0] exI [of _ t] exI [of _ p] exI [of _ c] exI [of _ f] exI [of _ ?tr]) simp
qed

end
