(* ===== verification/ContextTypes.thy ===== *)
theory ContextTypes
  imports FilterOutcomes
begin

text \<open>
  A type system for the contexts the filter hands to the load balancer and to the metadata center.
  \<open>context.WithValue\<close> accepts a value of any type under any key and \<open>GetValueFromCtx\<close> falls back to its
  default, and \<open>MustGetValueFromCtx\<close> panics, when the value has another type than the reader asks for.
  Every key is given the type at which \<^verbatim>\<open>inference_lb.go\<close> and \<^verbatim>\<open>metadata_center.go\<close> read it; contexts
  built by well typed steps are well typed, and every reader then finds what was stored.
\<close>

subsection \<open>Types of values and keys\<close>

datatype go_type = TString | TInt | TBool | THashes | TSelector | TMatchInfo | TCallbacks

fun type_of :: "any \<Rightarrow> go_type" where
  "type_of (AString _) = TString"
| "type_of (AInt _) = TInt"
| "type_of (ABool _) = TBool"
| "type_of (AHashes _) = THashes"
| "type_of (ASelector _) = TSelector"
| "type_of (AMatchInfo _) = TMatchInfo"
| "type_of ACallbacks = TCallbacks"

text \<open>The types at which the code reads its keys.\<close>

definition key_types :: "(ctx_key \<times> go_type) list" where
  "key_types =
     [(LBCtxKey KeyFilterCallback, TCallbacks), (LBCtxKey KeyClusterName, TString), (LBCtxKey KeyModelName, TString),
      (LBCtxKey KeyTraceId, TString), (LBCtxKey KeyPromptHash, THashes), (LBCtxKey KeyHostMatchInfo, TMatchInfo),
      (LBCtxKey KeyLbSelector, TSelector), (LBCtxKey KeyLoadAwareEnable, TBool), (LBCtxKey KeyCacheAwareEnable, TBool),
      (LBCtxKey KeyCandidatePercent, TInt), (LBCtxKey KeyCacheRatioWeight, TInt), (LBCtxKey KeyLoadRequestWeight, TInt),
      (LBCtxKey KeyLoadPrefillWeight, TInt), (LBCtxKey KeyMetaTraceId, TString), (McCtxKey ''trace_id'', TString)]"

definition key_type :: "ctx_key \<Rightarrow> go_type option" where
  "key_type k = map_of key_types k"

lemma key_type_simps [simp]:
  "key_type (LBCtxKey KeyFilterCallback) = Some TCallbacks" "key_type (LBCtxKey KeyClusterName) = Some TString"
  "key_type (LBCtxKey KeyModelName) = Some TString" "key_type (LBCtxKey KeyTraceId) = Some TString"
  "key_type (LBCtxKey KeyPromptHash) = Some THashes" "key_type (LBCtxKey KeyHostMatchInfo) = Some TMatchInfo"
  "key_type (LBCtxKey KeyLbSelector) = Some TSelector" "key_type (LBCtxKey KeyLoadAwareEnable) = Some TBool"
  "key_type (LBCtxKey KeyCacheAwareEnable) = Some TBool" "key_type (LBCtxKey KeyCandidatePercent) = Some TInt"
  "key_type (LBCtxKey KeyCacheRatioWeight) = Some TInt" "key_type (LBCtxKey KeyLoadRequestWeight) = Some TInt"
  "key_type (LBCtxKey KeyLoadPrefillWeight) = Some TInt" "key_type (LBCtxKey KeyMetaTraceId) = Some TString"
  "key_type (McCtxKey ''trace_id'') = Some TString"
  by (simp_all add: key_type_def key_types_def lb_keys KeyLbSelector_def KeyHostMatchInfo_def KeyMetaTraceId_def)

subsection \<open>The typing relation\<close>

inductive typed_ctx :: "ctx \<Rightarrow> bool" where
  background: "typed_ctx background"
| with_value: "typed_ctx ctx \<Longrightarrow> key_type k = Some (type_of v) \<Longrightarrow> typed_ctx (WithValue ctx k v)"

lemma typed_ctx_lookup: "typed_ctx ctx \<Longrightarrow> ctx k = Some v \<Longrightarrow> key_type k = Some (type_of v)"
  by (induction rule: typed_ctx.induct) (auto simp: background_def split: if_splits)

text \<open>A projection that accepts exactly the values of one type.\<close>

definition reads_at :: "(any \<Rightarrow> 'a option) \<Rightarrow> go_type \<Rightarrow> bool" where
  "reads_at as ty \<longleftrightarrow> (\<forall>v. as v \<noteq> None \<longleftrightarrow> type_of v = ty)"

lemma reads_at_simps [simp]:
  "reads_at as_string TString" "reads_at as_int TInt" "reads_at as_bool TBool" "reads_at as_hashes THashes"
  "reads_at as_selector TSelector"
  by (auto simp: reads_at_def as_string_def as_int_def as_bool_def as_hashes_def as_selector_def split: any.splits)

text \<open>A reader of a typed context gets the stored value, and its default only when nothing is stored.\<close>

lemma typed_ctx_reads:
  assumes "typed_ctx ctx" "reads_at as ty" "key_type (LBCtxKey key) = Some ty" "ctx (LBCtxKey key) = Some v"
  shows "\<exists>x. as v = Some x \<and> GetValueFromCtx as ctx key d = x \<and> MustGetValueFromCtx as ctx key = Ret x"
proof -
  from typed_ctx_lookup [OF assms(1,4)] assms(3) have "type_of v = ty" by simp
  with assms(2) obtain x where "as v = Some x" by (auto simp: reads_at_def)
  with assms(4) show ?thesis by (simp add: MustGetValueFromCtx_def)
qed

subsection \<open>The contexts of the program\<close>

declare typed_ctx.intros [simp]

lemma typed_setLoadBalanceConfig [simp]: "typed_ctx ctx \<Longrightarrow> typed_ctx (setLoadBalanceConfig f ctx model)"
  by (simp add: setLoadBalanceConfig_def Let_def split: option.split)

lemma typed_setPromptsContext [simp]: "typed_ctx ctx \<Longrightarrow> typed_ctx (setPromptsContext f ctx)"
  by (simp add: setPromptsContext_def)

lemma typed_initLoadBalanceContext [simp]: "typed_ctx (initLoadBalanceContext f)"
  by (simp add: initLoadBalanceContext_def Let_def)

lemma typed_setHostMatchInfo [simp]: "typed_ctx ctx \<Longrightarrow> typed_ctx (setHostMatchInfo ctx stat)"
  by (simp add: setHostMatchInfo_def split: option.split)

text \<open>The contexts the balancer works with for one filter: what it gets and what it derives from it.\<close>

inductive lb_context :: "proxy_filter \<Rightarrow> ctx \<Rightarrow> bool" for f where
  given: "lb_context f (balancer_context f)"
| trace: "lb_context f ctx \<Longrightarrow>
     lb_context f (WithValue ctx (LBCtxKey KeyMetaTraceId) (AString (GetValueFromCtx as_string ctx KeyTraceId [])))"
| matched: "lb_context f ctx \<Longrightarrow> lb_context f (setHostMatchInfo ctx stat)"

lemma lb_context_typed: "lb_context f ctx \<Longrightarrow> typed_ctx ctx"
  by (induction rule: lb_context.induct) (simp_all add: balancer_context_def del: WithValue_lookup)

lemma lb_context_cluster:
  "lb_context f ctx \<Longrightarrow> MustGetValueFromCtx as_string ctx KeyClusterName = Ret (f_cluster f)"
  by (induction rule: lb_context.induct)
    (auto simp: balancer_context_def MustGetValueFromCtx_def setHostMatchInfo_def lb_keys KeyMetaTraceId_def
      KeyHostMatchInfo_def split: option.splits)



end
