(* ===== verification/Degradation.thy ===== *)
theory Degradation
  imports ClusterManager LlmConfig
begin

text \<open>
  What the gateway does when something it relies on is missing: the metadata center does not answer the
  balancer of \<^verbatim>\<open>inference_lb.go\<close>, or the configuration names an algorithm without a factory; and what the
  configuration of \<^verbatim>\<open>config.go\<close> makes of the grey routing the design notes propose.
\<close>

subsection \<open>The metadata center does not answer\<close>

text \<open>A center that has nothing cached.\<close>

definition without_cache :: "lb_queries \<Rightarrow> lb_queries" where
  "without_cache q = q\<lparr>query_cache := (\<lambda>_ _ _ _. (Ret (Inr []), 0))\<rparr>"

lemma without_cache_load [simp]: "query_load (without_cache q) = query_load q"
  by (simp add: without_cache_def)

lemma getClusterMetric_without_cache [simp]:
  "getClusterMetric g (without_cache q) ctx cl ps = getClusterMetric g q ctx cl ps"
  by (simp add: getClusterMetric_def Let_def)

lemma cache_stats_without_cache:
  "fst (getEndpointCacheStats g (without_cache q) ctx ps) = Ret (Inr [])"
  by (simp add: getEndpointCacheStats_def without_cache_def Let_def)

lemma cache_stats_failed:
  assumes "fst (query_cache q ctx (GetValueFromCtx as_string ctx KeyClusterName [])
      (GetValueFromCtx as_hashes ctx KeyPromptHash []) DefaultTopK_lb) = Ret (Inl err)"
  shows "fst (getEndpointCacheStats g q ctx ps) \<in> {Ret (Inl err), Ret (Inr [])}"
  using assms by (auto simp: getEndpointCacheStats_def Let_def split: prod.splits)

lemma GetCandidate_without_cache:
  assumes "fst (getEndpointCacheStats g q ctx fresh_state) \<in> {Ret (Inl err), Ret (Inr [])}"
  shows "fst (GetCandidateByStats srt g q ctx cl hosts n ps) =
    fst (GetCandidateByStats srt g (without_cache q) ctx cl hosts n ps)"
proof -
  obtain r ps1 where cm: "getClusterMetric g q ctx cl ps = (r, ps1)" by (rule prod.exhaust)
  obtain c ps2 where c: "getEndpointCacheStats g q ctx ps1 = (c, ps2)" by (rule prod.exhaust)
  obtain c' ps3 where c': "getEndpointCacheStats g (without_cache q) ctx ps1 = (c', ps3)" by (rule prod.exhaust)
  from assms cache_stats_state [of g q ctx fresh_state ps1] c have "c = Ret (Inl err) \<or> c = Ret (Inr [])" by auto
  moreover from cache_stats_without_cache [of g q ctx ps1] c' have "c' = Ret (Inr [])" by simp
  ultimately show ?thesis
    using c c' by (cases r) (auto simp: GetCandidateByStats_def getEndpointStatsByClusterName_def cm Let_def)
qed

lemma no_load_no_ranking:
  assumes "fst (query_load q ctx (GetValueFromCtx as_string ctx KeyClusterName [])) = Inl err"
  shows "fst (GetCandidateByStats srt g q ctx cl hosts n ps) = Ret hosts"
proof -
  from assms obtain us where "query_load q ctx (GetValueFromCtx as_string ctx KeyClusterName []) = (Inl err, us)"
    by (cases "query_load q ctx (GetValueFromCtx as_string ctx KeyClusterName [])") simp
  then have "\<exists>e ps1. getClusterMetric g q ctx cl ps = (Inl e, ps1)"
    by (simp add: getClusterMetric_def Let_def)
  with unranked_when_failed show ?thesis by fastforce
qed


text \<open>An algorithm nobody registered: every request of the cluster is refused, none falls back.\<close>

lemma unknown_algorithm_refused:
  assumes "ty \<noteq> ''inference_lb''" "m_clusters m cl = None" "pr_info p cl = Inr info" "ci_Endpoints info \<noteq> []"
  shows "fst (ManagerChooseHost pick inference_factories p ctx cl ty m s) =
    Ret (Inl (''no cluster('' @ ci_Name info @ '') for lbType, err: fail CreateLbByType with type '' @ ty))"
  using assms
  by (simp add: ManagerChooseHost_def NextServer_def GetCluster_def newCluster_def NewLbManager_def
      CreateLbByType_def inference_factories_def RegisterLbType_def lb_RoundRobin_def Let_def)


subsection \<open>Grey routing over two clusters\<close>

text \<open>
  The example of \<^verbatim>\<open>learning/index.md\<close> (Section 3.2): requests of one tenant go to a rule with a cluster and a
  backend of its own.  \<open>Parse\<close> rejects it, whatever the sorting routine: all rules of a model must name one
  cluster.
\<close>

definition grey_example :: llm_config where
  "grey_example = sample_llm_config\<lparr>plugin_conf := (plugin_conf sample_llm_config)\<lparr>ModelMappingRule :=
     [(''qwen3'',
        [(sample_rule ''qwen3-canary'' [\<lparr>hv_Key = ''x-tenant'', hv_Value = ''premium''\<rparr>])
           \<lparr>r_Cluster := ''cluster-b'', r_Backend := ''vllm''\<rparr>,
         (sample_rule ''qwen3-prod'' [])\<lparr>r_Cluster := ''cluster-a'', r_Backend := ''sglang''\<rparr>])]\<rparr>\<rparr>"

lemma grey_example_rejected:
  "fst (Parse srt grey_example mgr) = Some (MismatchedCluster ''cluster-a'' ''cluster-b'')"
  by (simp add: Parse_def grey_example_def sample_llm_config_def validateRules_def sample_rule_def Let_def)

end
