(* ===== verification/ClusterRace.thy ===== *)
theory ClusterRace
  imports ClusterManager
begin

text \<open>
  \<open>Manager.ChooseHost\<close> of \<^verbatim>\<open>pkg/aigateway/clustermanager/manager.go\<close> called by many requests at once.
  \<open>ManagerChooseHost\<close> takes the whole call as one step; here it is cut into the look-up without the lock,
  the lock, the look-up behind it, the creation of the cluster, the watch, the store and the choice, and the
  steps of the callers and the announcements of the provider interleave.

  A \<^verbatim>\<open>*Cluster\<close> is an index into the list of the clusters made so far, so that callers share it as in the
  code.  \<open>NextServer\<close> is one step: it has the same protocol one level below, and the balancer it asks does
  not change the cluster.
\<close>

record 'lb cm_shared =
  s_map :: "string \<rightharpoonup> nat"
  s_heap :: "'lb cluster list"
  s_lock :: "nat option"
  s_watched :: "string list"

datatype call_point =
    Asking | Missed | Holding | Created nat | Watched nat | Found nat | Replied "(string + host) run"

record 's caller =
  ca_ctx :: ctx
  ca_name :: string
  ca_type :: string
  ca_state :: 's
  ca_at :: call_point

definition fresh_shared :: "'lb cm_shared" where
  "fresh_shared = \<lparr>s_map = Map.empty, s_heap = [], s_lock = None, s_watched = []\<rparr>"

definition shared_update :: "'lb lb_factories \<Rightarrow> cluster_info \<Rightarrow> 'lb cm_shared \<Rightarrow> 'lb cm_shared" where
  "shared_update factories info sh =
     (case s_map sh (ci_Name info) of
        Some r \<Rightarrow> sh\<lparr>s_heap := (s_heap sh)[r := cluster_updateServers factories info (s_heap sh ! r)]\<rparr>
      | None \<Rightarrow> sh)"

text \<open>One step of caller \<open>i\<close>; None where it waits for the lock or has returned.\<close>

definition caller_move ::
  "('lb \<Rightarrow> ctx \<Rightarrow> 's \<Rightarrow> host option run \<times> 's) \<Rightarrow> 'lb lb_factories \<Rightarrow> provider \<Rightarrow> nat
     \<Rightarrow> 's caller \<times> 'lb cm_shared \<Rightarrow> ('s caller \<times> 'lb cm_shared) option" where
  "caller_move pick factories p i st =
     (let c = fst st; sh = snd st; name = ca_name c in
      case ca_at c of
        Asking \<Rightarrow>
          Some (c\<lparr>ca_at := (case s_map sh name of Some r \<Rightarrow> Found r | None \<Rightarrow> Missed)\<rparr>, sh)
      | Missed \<Rightarrow> (if s_lock sh = None then Some (c\<lparr>ca_at := Holding\<rparr>, sh\<lparr>s_lock := Some i\<rparr>) else None)
      | Holding \<Rightarrow>
          (case s_map sh name of
             Some r \<Rightarrow> Some (c\<lparr>ca_at := Found r\<rparr>, sh)
           | None \<Rightarrow>
               (case pr_info p name of
                  Inl err \<Rightarrow> Some (c\<lparr>ca_at := Replied (Ret (Inl (name @ '': '' @ err)))\<rparr>, sh\<lparr>s_lock := None\<rparr>)
                | Inr info \<Rightarrow>
                    if length (ci_Endpoints info) = 0
                    then Some (c\<lparr>ca_at := Replied (Ret (Inl (name @ '': <nil>'')))\<rparr>, sh\<lparr>s_lock := None\<rparr>)
                    else Some (c\<lparr>ca_at := Created (length (s_heap sh))\<rparr>, sh\<lparr>s_heap := s_heap sh @ [newCluster info]\<rparr>)))
      | Created r \<Rightarrow>
          Some (c\<lparr>ca_at := Watched r\<rparr>,
                foldl (\<lambda>sh info. shared_update factories info sh) (sh\<lparr>s_watched := s_watched sh @ [name]\<rparr>) (pr_watch p name))
      | Watched r \<Rightarrow> Some (c\<lparr>ca_at := Found r\<rparr>, sh\<lparr>s_map := (s_map sh)(name \<mapsto> r)\<rparr>)
      | Found r \<Rightarrow>
          (let (res, cl, s) = NextServer pick factories (ca_ctx c) (ca_type c) (s_heap sh ! r) (ca_state c) in
           Some (c\<lparr>ca_state := s, ca_at := Replied res\<rparr>,
                 sh\<lparr>s_heap := (s_heap sh)[r := cl], s_lock := (if s_lock sh = Some i then None else s_lock sh)\<rparr>))
      | Replied res \<Rightarrow> None)"

inductive race_reaches ::
  "('lb \<Rightarrow> ctx \<Rightarrow> 's \<Rightarrow> host option run \<times> 's) \<Rightarrow> 'lb lb_factories \<Rightarrow> provider \<Rightarrow> cluster_info set
     \<Rightarrow> (nat \<rightharpoonup> 's caller) \<Rightarrow> 'lb cm_shared \<Rightarrow> bool" for pick fs p where
  fresh: "race_reaches pick fs p {} Map.empty fresh_shared"
| called: "race_reaches pick fs p I ts sh \<Longrightarrow> ts i = None \<Longrightarrow>
     race_reaches pick fs p I (ts(i \<mapsto> \<lparr>ca_ctx = ctx, ca_name = name, ca_type = ty, ca_state = s, ca_at = Asking\<rparr>)) sh"
| moved: "race_reaches pick fs p I ts sh \<Longrightarrow> ts i = Some c \<Longrightarrow> caller_move pick fs p i (c, sh) = Some (c', sh') \<Longrightarrow>
     race_reaches pick fs p I (ts(i \<mapsto> c')) sh'"
| announced: "race_reaches pick fs p I ts sh \<Longrightarrow>
     race_reaches pick fs p (insert info I) ts (shared_update fs info sh)"

subsection \<open>One caller alone\<close>

text \<open>The atomic manager a shared state stands for.\<close>

definition manager_of :: "'lb cm_shared \<Rightarrow> 'lb manager" where
  "manager_of sh = \<lparr>m_clusters = (\<lambda>n. map_option (\<lambda>r. s_heap sh ! r) (s_map sh n)), m_watched = s_watched sh\<rparr>"

text \<open>The references are those of clusters made, and no cluster has two names.\<close>

definition refs_ok :: "'lb cm_shared \<Rightarrow> bool" where
  "refs_ok sh \<longleftrightarrow> (\<forall>n r. s_map sh n = Some r \<longrightarrow> r < length (s_heap sh)) \<and> inj_on (s_map sh) (dom (s_map sh))"

lemma refs_ok_inj: "refs_ok sh \<Longrightarrow> s_map sh n = Some r \<Longrightarrow> s_map sh n' = Some r \<Longrightarrow> n = n'"
  by (auto simp: refs_ok_def inj_on_def dom_def)

lemma shared_update_keeps [simp]:
  "s_map (shared_update fs info sh) = s_map sh" "length (s_heap (shared_update fs info sh)) = length (s_heap sh)"
  "s_lock (shared_update fs info sh) = s_lock sh" "s_watched (shared_update fs info sh) = s_watched sh"
  "refs_ok (shared_update fs info sh) = refs_ok sh"
  by (simp_all add: shared_update_def refs_ok_def split: option.split)

lemma manager_of_set:
  assumes "refs_ok sh" "s_map sh n = Some r"
  shows "manager_of (sh\<lparr>s_heap := (s_heap sh)[r := c]\<rparr>) =
    (manager_of sh)\<lparr>m_clusters := (m_clusters (manager_of sh))(n \<mapsto> c)\<rparr>"
proof -
  have "r < length (s_heap sh)" using assms by (auto simp: refs_ok_def)
  moreover have "r \<noteq> r'" if "s_map sh n' = Some r'" "n' \<noteq> n" for n' r'
    using that refs_ok_inj [OF assms] by blast
  ultimately show ?thesis
    using assms(2) by (fastforce simp: manager_of_def fun_eq_iff intro!: option.map_cong nth_list_update_neq)
qed

lemma manager_of_update:
  assumes "refs_ok sh"
  shows "manager_of (shared_update fs info sh) = updateServers fs info (manager_of sh)"
proof (cases "s_map sh (ci_Name info)")
  case (Some r)
  with manager_of_set [OF assms Some] show ?thesis
    by (simp add: shared_update_def updateServers_def) (simp add: manager_of_def)
qed (simp add: shared_update_def updateServers_def manager_of_def)

lemma manager_of_updates:
  "refs_ok sh \<Longrightarrow> manager_of (foldl (\<lambda>sh info. shared_update fs info sh) sh infos) =
     foldl (\<lambda>m info. updateServers fs info m) (manager_of sh) infos"
  by (induction infos arbitrary: sh) (simp_all add: manager_of_update)

lemma shared_updates_keep [simp]:
  "s_map (foldl (\<lambda>sh info. shared_update fs info sh) sh infos) = s_map sh"
  "length (s_heap (foldl (\<lambda>sh info. shared_update fs info sh) sh infos)) = length (s_heap sh)"
  "s_lock (foldl (\<lambda>sh info. shared_update fs info sh) sh infos) = s_lock sh"
  "s_watched (foldl (\<lambda>sh info. shared_update fs info sh) sh infos) = s_watched sh"
  by (induction infos arbitrary: sh) simp_all

text \<open>An update leaves a cluster alone that has no name yet.\<close>

lemma shared_update_unnamed:
  "\<forall>n. s_map sh n \<noteq> Some r \<Longrightarrow> s_heap (shared_update fs info sh) ! r = s_heap sh ! r"
  by (auto simp: shared_update_def split: option.split) (metis nth_list_update_neq)

lemma shared_updates_unnamed:
  "\<forall>n. s_map sh n \<noteq> Some r \<Longrightarrow> s_heap (foldl (\<lambda>sh info. shared_update fs info sh) sh infos) ! r = s_heap sh ! r"
  by (induction infos arbitrary: sh) (simp_all add: shared_update_unnamed)

text \<open>The caller runs until it has returned or waits.\<close>

fun caller_runs ::
  "('lb \<Rightarrow> ctx \<Rightarrow> 's \<Rightarrow> host option run \<times> 's) \<Rightarrow> 'lb lb_factories \<Rightarrow> provider \<Rightarrow> nat \<Rightarrow> nat
     \<Rightarrow> 's caller \<times> 'lb cm_shared \<Rightarrow> 's caller \<times> 'lb cm_shared" where
  "caller_runs pick fs p i 0 st = st"
| "caller_runs pick fs p i (Suc n) st =
     (case caller_move pick fs p i st of None \<Rightarrow> st | Some st' \<Rightarrow> caller_runs pick fs p i n st')"

text \<open>The shared state when a caller has made, watched and stored a cluster.\<close>

definition storing :: "'lb lb_factories \<Rightarrow> provider \<Rightarrow> nat \<Rightarrow> string \<Rightarrow> cluster_info \<Rightarrow> 'lb cm_shared \<Rightarrow> 'lb cm_shared" where
  "storing fs p i name info sh =
     (let sh1 = sh\<lparr>s_lock := Some i, s_heap := s_heap sh @ [newCluster info], s_watched := s_watched sh @ [name]\<rparr>;
          sh2 = foldl (\<lambda>sh info. shared_update fs info sh) sh1 (pr_watch p name)
      in sh2\<lparr>s_map := (s_map sh2)(name \<mapsto> length (s_heap sh))\<rparr>)"

lemma refs_ok_grow:
  assumes "refs_ok sh" "s_map sh name = None" "length (s_heap sh') = Suc (length (s_heap sh))" "s_map sh' = s_map sh"
  shows "refs_ok sh'" "refs_ok (sh'\<lparr>s_map := (s_map sh')(name \<mapsto> length (s_heap sh))\<rparr>)"
  using assms by (auto simp: refs_ok_def inj_on_def less_Suc_eq) (metis less_irrefl_nat option.inject)+

lemma storing_made:
  assumes "refs_ok sh" "s_map sh name = None"
  shows "s_heap (storing fs p i name info sh) ! length (s_heap sh) = newCluster info"
    "refs_ok (storing fs p i name info sh)" "s_map (storing fs p i name info sh) name = Some (length (s_heap sh))"
    "s_lock (storing fs p i name info sh) = Some i"
proof -
  let ?sh1 = "sh\<lparr>s_lock := Some i, s_heap := s_heap sh @ [newCluster info], s_watched := s_watched sh @ [name]\<rparr>"
  have "\<forall>n. s_map ?sh1 n \<noteq> Some (length (s_heap sh))" using assms(1) by (auto simp: refs_ok_def)
  from shared_updates_unnamed [OF this, of fs "pr_watch p name"]
  show "s_heap (storing fs p i name info sh) ! length (s_heap sh) = newCluster info"
    by (simp add: storing_def Let_def)
  show "refs_ok (storing fs p i name info sh)"
    unfolding storing_def Let_def by (rule refs_ok_grow [OF assms]) simp_all
qed (simp_all add: storing_def Let_def)

lemma manager_of_storing:
  assumes "refs_ok sh" "s_map sh name = None"
  shows "manager_of (storing fs p i name info sh) =
    (WatchCluster fs p name (manager_of sh))
      \<lparr>m_clusters := (m_clusters (WatchCluster fs p name (manager_of sh)))(name \<mapsto> newCluster info)\<rparr>"
proof -
  let ?sh1 = "sh\<lparr>s_lock := Some i, s_heap := s_heap sh @ [newCluster info], s_watched := s_watched sh @ [name]\<rparr>"
  let ?sh2 = "foldl (\<lambda>sh info. shared_update fs info sh) ?sh1 (pr_watch p name)"
  have "manager_of ?sh1 = (manager_of sh)\<lparr>m_watched := m_watched (manager_of sh) @ [name]\<rparr>"
    using assms(1) by (auto simp: manager_of_def refs_ok_def fun_eq_iff nth_append intro!: option.map_cong)
  moreover have "refs_ok ?sh1" by (rule refs_ok_grow [OF assms]) simp_all
  ultimately have "manager_of ?sh2 = WatchCluster fs p name (manager_of sh)"
    by (simp add: manager_of_updates WatchCluster_def)
  moreover have "manager_of (storing fs p i name info sh) = (manager_of ?sh2)
      \<lparr>m_clusters := (m_clusters (manager_of ?sh2))(name \<mapsto> s_heap ?sh2 ! length (s_heap sh))\<rparr>"
    by (simp add: storing_def Let_def manager_of_def fun_eq_iff)
  moreover have "s_heap ?sh2 ! length (s_heap sh) = newCluster info"
    using storing_made(1) [OF assms, of fs p i info] by (simp add: storing_def Let_def)
  ultimately show ?thesis by simp
qed

lemma caller_alone:
  assumes "s_lock sh = None" "refs_ok sh" "ca_at c = Asking"
    and "caller_runs pick fs p i 6 (c, sh) = (c', sh')"
  shows "\<exists>r. ca_at c' = Replied r \<and>
    ManagerChooseHost pick fs p (ca_ctx c) (ca_name c) (ca_type c) (manager_of sh) (ca_state c) =
      (r, manager_of sh', ca_state c') \<and> s_lock sh' = None \<and> refs_ok sh'"
proof (cases "s_map sh (ca_name c)")
  case (Some r)
  obtain res cl s where n: "NextServer pick fs (ca_ctx c) (ca_type c) (s_heap sh ! r) (ca_state c) = (res, cl, s)"
    by (metis prod.exhaust)
  let ?sh = "sh\<lparr>s_heap := (s_heap sh)[r := cl]\<rparr>"
  have "caller_runs pick fs p i 6 (c, sh) = (c\<lparr>ca_state := s, ca_at := Replied res\<rparr>, ?sh\<lparr>s_lock := None\<rparr>)"
    using assms(1,3) Some n by (simp add: numeral_eq_Suc caller_move_def)
  moreover have "manager_of (?sh\<lparr>s_lock := None\<rparr>) = manager_of ?sh" by (simp add: manager_of_def)
  moreover note manager_of_set [OF assms(2) Some, of cl]
  moreover have "refs_ok (?sh\<lparr>s_lock := None\<rparr>)" using assms(2) by (simp add: refs_ok_def)
  ultimately show ?thesis
    using assms(4) Some n
    by (simp add: ManagerChooseHost_def) (simp add: manager_of_def)
next
  case None
  note miss = this
  show ?thesis
  proof (cases "\<exists>info. pr_info p (ca_name c) = Inr info \<and> ci_Endpoints info \<noteq> []")
    case True
    then obtain info where info: "pr_info p (ca_name c) = Inr info" "ci_Endpoints info \<noteq> []" by blast
    let ?r = "length (s_heap sh)"
    let ?sh3 = "storing fs p i (ca_name c) info sh"
    from storing_made [OF assms(2) miss, of fs p i info] have made: "s_heap ?sh3 ! ?r = newCluster info"
      "refs_ok ?sh3" "s_map ?sh3 (ca_name c) = Some ?r" "s_lock ?sh3 = Some i" by simp_all
    obtain res cl s where n: "NextServer pick fs (ca_ctx c) (ca_type c) (newCluster info) (ca_state c) = (res, cl, s)"
      by (metis prod.exhaust)
    have "caller_runs pick fs p i 6 (c, sh) =
        (c\<lparr>ca_state := s, ca_at := Replied res\<rparr>, ?sh3\<lparr>s_heap := (s_heap ?sh3)[?r := cl], s_lock := None\<rparr>)"
      using assms(1,3) miss info n made
      by (simp add: numeral_eq_Suc caller_move_def storing_def Let_def)
    moreover have "refs_ok (?sh3\<lparr>s_heap := (s_heap ?sh3)[?r := cl], s_lock := None\<rparr>)"
      using made(2) by (simp add: refs_ok_def)
    moreover have "manager_of (?sh3\<lparr>s_heap := (s_heap ?sh3)[?r := cl], s_lock := None\<rparr>) =
        manager_of (?sh3\<lparr>s_heap := (s_heap ?sh3)[?r := cl]\<rparr>)" by (simp add: manager_of_def)
    moreover have "m_clusters (manager_of sh) (ca_name c) = None" using miss by (simp add: manager_of_def)
    ultimately show ?thesis
      using assms(4) info n manager_of_set [OF made(2,3), of cl] manager_of_storing [OF assms(2) miss, of fs p i info]
      by (simp add: ManagerChooseHost_def Let_def)
  next
    case False
    then show ?thesis
      using assms miss
      by (cases "pr_info p (ca_name c)")
        (auto simp: numeral_eq_Suc caller_move_def ManagerChooseHost_def refs_ok_def manager_of_def)
  qed
qed

text \<open>
  C29. The atomic manager is what a caller does when nobody interferes: with the lock free, a call that runs
  to its end takes at most six steps, never waits, leaves the lock free, and its answer, the state of the
  request and the managers behind it are those of \<open>ManagerChooseHost\<close>.
\<close>

theorem caller_alone_is_atomic:
  assumes "s_lock sh = None" "refs_ok sh" "ca_at c = Asking"
    and "caller_runs pick fs p i 6 (c, sh) = (c', sh')"
  shows "\<exists>r. ca_at c' = Replied r \<and>
    ManagerChooseHost pick fs p (ca_ctx c) (ca_name c) (ca_type c) (manager_of sh) (ca_state c) =
      (r, manager_of sh', ca_state c') \<and> s_lock sh' = None \<and> refs_ok sh'"
  using assms by (rule caller_alone)

subsection \<open>Many callers\<close>

text \<open>
  What a step of caller \<open>i\<close> (or an announcement) leaves alone: stored clusters stay stored, and nothing the
  holder of the lock relies on changes while it is another caller.
\<close>

definition frame :: "nat option \<Rightarrow> 'lb cm_shared \<Rightarrow> 'lb cm_shared \<Rightarrow> bool" where
  "frame i sh sh' \<longleftrightarrow>
     (\<forall>n r. s_map sh n = Some r \<longrightarrow> s_map sh' n = Some r) \<and> length (s_heap sh) \<le> length (s_heap sh') \<and>
     (\<forall>j. s_lock sh = Some j \<longrightarrow> i \<noteq> Some j \<longrightarrow>
        s_lock sh' = Some j \<and> s_map sh' = s_map sh \<and>
        (\<forall>r. (\<forall>n. s_map sh n \<noteq> Some r) \<longrightarrow> r < length (s_heap sh) \<longrightarrow> s_heap sh' ! r = s_heap sh ! r))"

lemma frame_update: "frame i sh (shared_update fs info sh)"
  by (auto simp: frame_def shared_update_unnamed)

lemma manager_of_name:
  assumes "refs_ok sh" "r < length (s_heap sh)"
  shows "manager_of (sh\<lparr>s_map := (s_map sh)(name \<mapsto> r)\<rparr>) =
    (manager_of sh)\<lparr>m_clusters := (m_clusters (manager_of sh))(name \<mapsto> s_heap sh ! r)\<rparr>"
  by (simp add: manager_of_def fun_eq_iff)

lemma manager_of_made: "refs_ok sh \<Longrightarrow> manager_of (sh\<lparr>s_heap := s_heap sh @ cs\<rparr>) = manager_of sh"
  by (auto simp: manager_of_def refs_ok_def fun_eq_iff nth_append intro!: option.map_cong)

lemma manager_of_lock [simp]: "manager_of (sh\<lparr>s_lock := l\<rparr>) = manager_of sh"
  by (simp add: manager_of_def)

lemma refs_ok_lock [simp]: "refs_ok (sh\<lparr>s_lock := l\<rparr>) = refs_ok sh"
  by (simp add: refs_ok_def)

lemma refs_ok_heap: "refs_ok sh \<Longrightarrow> length (s_heap sh) \<le> length (s_heap sh') \<Longrightarrow> s_map sh' = s_map sh \<Longrightarrow> refs_ok sh'"
  by (force simp: refs_ok_def)

lemma refs_ok_name: "refs_ok sh \<Longrightarrow> r < length (s_heap sh) \<Longrightarrow> \<forall>n. s_map sh n \<noteq> Some r \<Longrightarrow>
    refs_ok (sh\<lparr>s_map := (s_map sh)(name \<mapsto> r)\<rparr>)"
  by (auto simp: refs_ok_def inj_on_def)

context load_balancer
begin

definition shared_ok :: "'lb lb_factories \<Rightarrow> provider \<Rightarrow> cluster_info set \<Rightarrow> 'lb cm_shared \<Rightarrow> bool" where
  "shared_ok fs p I sh \<longleftrightarrow> refs_ok sh \<and> manager_ok fs p I (manager_of sh)"

definition unnamed :: "'lb lb_factories \<Rightarrow> provider \<Rightarrow> cluster_info set \<Rightarrow> 'lb cm_shared \<Rightarrow> string \<Rightarrow> nat \<Rightarrow> bool" where
  "unnamed fs p I sh name r \<longleftrightarrow> s_map sh name = None \<and> r < length (s_heap sh) \<and> (\<forall>n. s_map sh n \<noteq> Some r) \<and>
     cluster_ok fs (host_lists (announced p I name)) (s_heap sh ! r)"

definition caller_ok ::
  "'lb lb_factories \<Rightarrow> provider \<Rightarrow> 'e \<Rightarrow> cluster_info set \<Rightarrow> 'lb cm_shared \<Rightarrow> nat \<Rightarrow> 's caller \<Rightarrow> bool" where
  "caller_ok fs p e I sh i c \<longleftrightarrow>
     (case ca_at c of
        Asking \<Rightarrow> True
      | Missed \<Rightarrow> True
      | Holding \<Rightarrow> s_lock sh = Some i
      | Created r \<Rightarrow> s_lock sh = Some i \<and> unnamed fs p I sh (ca_name c) r
      | Watched r \<Rightarrow> s_lock sh = Some i \<and> unnamed fs p I sh (ca_name c) r
      | Found r \<Rightarrow> s_map sh (ca_name c) = Some r
      | Replied res \<Rightarrow> usable e (ca_ctx c) \<longrightarrow> res \<noteq> Panic \<and>
          (\<forall>h. res = Ret (Inr h) \<longrightarrow> (\<exists>hs \<in> host_lists (announced p I (ca_name c)). h \<in> set hs)))"

lemma host_lists_mono: "I \<subseteq> J \<Longrightarrow> host_lists (announced p I n) \<subseteq> host_lists (announced p J n)"
  unfolding host_lists_def by (intro image_mono announced_mono)

lemma unnamed_frame:
  assumes "unnamed fs p I sh name r" "s_lock sh = Some j" "frame i sh sh'" "i \<noteq> Some j" "I \<subseteq> J"
  shows "unnamed fs p J sh' name r"
proof -
  from assms(2-4) have eq: "s_map sh' = s_map sh" "length (s_heap sh) \<le> length (s_heap sh')"
    "\<And>r. \<forall>n. s_map sh n \<noteq> Some r \<Longrightarrow> r < length (s_heap sh) \<Longrightarrow> s_heap sh' ! r = s_heap sh ! r"
    unfolding frame_def by blast+
  from assms(1) have "s_heap sh' ! r = s_heap sh ! r" by (intro eq(3)) (simp_all add: unnamed_def)
  with assms(1,5) eq(1,2) cluster_ok_mono [OF _ host_lists_mono [OF assms(5)]] show ?thesis by (simp add: unnamed_def)
qed

lemma caller_ok_frame:
  assumes "caller_ok fs p e I sh j c" "frame i sh sh'" "i \<noteq> Some j" "I \<subseteq> J"
  shows "caller_ok fs p e J sh' j c"
proof -
  have lock: "s_lock sh' = Some j" if "s_lock sh = Some j" using that assms(2,3) by (simp add: frame_def)
  have unnamed: "unnamed fs p J sh' n r" if "unnamed fs p I sh n r" "s_lock sh = Some j" for n r
    using unnamed_frame [OF that assms(2-4)] .
  show ?thesis
  proof (cases "ca_at c")
    case (Found r)
    with assms(1,2) show ?thesis by (simp add: caller_ok_def frame_def)
  next
    case (Replied res)
    with assms(1) host_lists_mono [OF assms(4), of p "ca_name c"] show ?thesis
      by (simp add: caller_ok_def) blast
  qed (use assms(1) lock unnamed in \<open>auto simp: caller_ok_def\<close>)
qed

lemma shared_ok_update:
  assumes "registry fs" "shared_ok fs p I sh" "ci_Endpoints info \<in> announced p J (ci_Name info)" "I \<subseteq> J"
  shows "shared_ok fs p J (shared_update fs info sh)"
  using assms updateServers_ok [OF assms(1) _ assms(3,4)] by (simp add: shared_ok_def manager_of_update)

text \<open>What a step of caller \<open>i\<close> does: it keeps the shared state sound, the frame, and its own claim.\<close>

text \<open>A move of a caller that is past its first look-up, from each of its points.\<close>

lemma holding_move_ok:
  assumes "registry fs" "shared_ok fs p I sh" "caller_ok fs p e I sh i c"
    and "caller_move (pick e) fs p i (c, sh) = Some (c', sh')" "ca_at c = Holding"
  shows "shared_ok fs p I sh' \<and> frame (Some i) sh sh' \<and> caller_ok fs p e I sh' i c' \<and> ca_name c' = ca_name c"
proof -
  from assms(2) have refs: "refs_ok sh" and mgr: "manager_ok fs p I (manager_of sh)" by (simp_all add: shared_ok_def)
  note move = assms(4) [unfolded caller_move_def Let_def fst_conv snd_conv]
  from assms(3,5) have lock: "s_lock sh = Some i" by (simp add: caller_ok_def)
  show ?thesis
  proof (cases "s_map sh (ca_name c)")
    case (Some r)
    with move assms(5) assms(2) show ?thesis by (auto simp: caller_ok_def frame_def)
  next
    case None
    show ?thesis
    proof (cases "\<exists>info. pr_info p (ca_name c) = Inr info \<and> ci_Endpoints info \<noteq> []")
      case True
      then obtain info where info: "pr_info p (ca_name c) = Inr info" "ci_Endpoints info \<noteq> []" by blast
      with move assms(5) None have c': "c' = c\<lparr>ca_at := Created (length (s_heap sh))\<rparr>"
        "sh' = sh\<lparr>s_heap := s_heap sh @ [newCluster info]\<rparr>" by simp_all
      have "shared_ok fs p I sh'"
        using refs mgr refs_ok_heap [OF refs, of sh'] by (simp add: shared_ok_def c'(2) manager_of_made)
      moreover have "unnamed fs p I sh' (ca_name c) (length (s_heap sh))"
        using None refs newCluster_ok [OF info(1)] by (auto simp: unnamed_def c'(2) refs_ok_def)
      ultimately show ?thesis using lock by (auto simp: c' caller_ok_def frame_def)
    next
      case False
      with move assms(5) None assms(2) lock show ?thesis
        by (cases "pr_info p (ca_name c)") (auto simp: caller_ok_def frame_def shared_ok_def)
    qed
  qed
qed

lemma created_move_ok:
  assumes "registry fs" "shared_ok fs p I sh" "caller_ok fs p e I sh i c"
    and "caller_move (pick e) fs p i (c, sh) = Some (c', sh')" "ca_at c = Created r"
  shows "shared_ok fs p I sh' \<and> frame (Some i) sh sh' \<and> caller_ok fs p e I sh' i c' \<and> ca_name c' = ca_name c"
proof -
  from assms(2) have refs: "refs_ok sh" and mgr: "manager_ok fs p I (manager_of sh)" by (simp_all add: shared_ok_def)
  note move = assms(4) [unfolded caller_move_def Let_def fst_conv snd_conv]
  let ?sh1 = "sh\<lparr>s_watched := s_watched sh @ [ca_name c]\<rparr>"
  from move assms(5) have c': "c' = c\<lparr>ca_at := Watched r\<rparr>"
    "sh' = foldl (\<lambda>sh info. shared_update fs info sh) ?sh1 (pr_watch p (ca_name c))" by simp_all
  from assms(3,5) have own: "s_lock sh = Some i" "unnamed fs p I sh (ca_name c) r"
    by (simp_all add: caller_ok_def)
  have "refs_ok ?sh1" using refs by (simp add: refs_ok_def)
  then have "manager_of sh' = WatchCluster fs p (ca_name c) (manager_of sh)"
    by (simp add: c'(2) manager_of_updates WatchCluster_def) (simp add: manager_of_def)
  with WatchCluster_ok [OF assms(1) mgr] refs_ok_heap [OF refs, of sh'] have "shared_ok fs p I sh'"
    by (simp add: shared_ok_def c'(2))
  moreover have "unnamed fs p I sh' (ca_name c) r"
    using own(2) shared_updates_unnamed [of ?sh1 r fs] by (simp add: unnamed_def c'(2))
  ultimately show ?thesis using own(1) by (simp add: c' caller_ok_def frame_def)
qed

lemma watched_move_ok:
  assumes "registry fs" "shared_ok fs p I sh" "caller_ok fs p e I sh i c"
    and "caller_move (pick e) fs p i (c, sh) = Some (c', sh')" "ca_at c = Watched r"
  shows "shared_ok fs p I sh' \<and> frame (Some i) sh sh' \<and> caller_ok fs p e I sh' i c' \<and> ca_name c' = ca_name c"
proof -
  from assms(2) have refs: "refs_ok sh" and mgr: "manager_ok fs p I (manager_of sh)" by (simp_all add: shared_ok_def)
  note move = assms(4) [unfolded caller_move_def Let_def fst_conv snd_conv]
  from move assms(5) have c': "c' = c\<lparr>ca_at := Found r\<rparr>" "sh' = sh\<lparr>s_map := (s_map sh)(ca_name c \<mapsto> r)\<rparr>" by simp_all
  from assms(3,5) have own: "s_lock sh = Some i" "unnamed fs p I sh (ca_name c) r"
    by (simp_all add: caller_ok_def)
  with refs_ok_name [OF refs] mgr manager_of_name [OF refs] have "shared_ok fs p I sh'"
    by (auto simp: shared_ok_def c'(2) unnamed_def manager_ok_def)
  with own show ?thesis by (auto simp: c' caller_ok_def frame_def unnamed_def)
qed

lemma found_move_ok:
  assumes "registry fs" "shared_ok fs p I sh" "caller_ok fs p e I sh i c"
    and "caller_move (pick e) fs p i (c, sh) = Some (c', sh')" "ca_at c = Found r"
  shows "shared_ok fs p I sh' \<and> frame (Some i) sh sh' \<and> caller_ok fs p e I sh' i c' \<and> ca_name c' = ca_name c"
proof -
  from assms(2) have refs: "refs_ok sh" and mgr: "manager_ok fs p I (manager_of sh)" by (simp_all add: shared_ok_def)
  note move = assms(4) [unfolded caller_move_def Let_def fst_conv snd_conv]
  obtain res cl s where n: "NextServer (pick e) fs (ca_ctx c) (ca_type c) (s_heap sh ! r) (ca_state c) = (res, cl, s)"
    by (metis prod.exhaust)
  with move assms(5) have c': "c' = c\<lparr>ca_state := s, ca_at := Replied res\<rparr>"
    "sh' = sh\<lparr>s_heap := (s_heap sh)[r := cl], s_lock := (if s_lock sh = Some i then None else s_lock sh)\<rparr>" by simp_all
  from assms(3,5) have name: "s_map sh (ca_name c) = Some r" by (simp add: caller_ok_def)
  with mgr have ok: "cluster_ok fs (host_lists (announced p I (ca_name c))) (s_heap sh ! r)"
    by (auto simp: manager_ok_def manager_of_def)
  from NextServer_ok [OF assms(1) ok n] mgr manager_of_set [OF refs name, of cl] refs_ok_heap [OF refs, of sh']
  have "shared_ok fs p I sh'" by (auto simp: shared_ok_def c'(2) manager_ok_def)
  moreover have "caller_ok fs p e I sh' i c'"
    using NextServer_member [OF assms(1) ok _ n] by (auto simp: caller_ok_def c'(1))
  moreover have "frame (Some i) sh sh'"
    using name by (auto simp: frame_def c'(2)) (metis nth_list_update_neq)
  ultimately show ?thesis by (simp add: c'(1))
qed

lemma caller_move_ok:
  assumes "registry fs" "shared_ok fs p I sh" "caller_ok fs p e I sh i c"
    and "caller_move (pick e) fs p i (c, sh) = Some (c', sh')"
  shows "shared_ok fs p I sh' \<and> frame (Some i) sh sh' \<and> caller_ok fs p e I sh' i c' \<and> ca_name c' = ca_name c"
proof (cases "ca_at c")
  case Asking
  with assms(2,4) show ?thesis
    by (auto simp: caller_move_def Let_def caller_ok_def frame_def split: option.splits)
next
  case Missed
  with assms(2,4) show ?thesis
    by (auto simp: caller_move_def Let_def caller_ok_def frame_def shared_ok_def split: if_splits)
next
  case Holding
  with assms show ?thesis by (rule holding_move_ok)
next
  case (Created r)
  with assms show ?thesis by (rule created_move_ok)
next
  case (Watched r)
  with assms show ?thesis by (rule watched_move_ok)
next
  case (Found r)
  with assms show ?thesis by (rule found_move_ok)
qed (use assms(4) in \<open>simp add: caller_move_def\<close>)

text \<open>A name is watched once: it is stored, or the one caller that holds the lock is about to store it.\<close>

definition watches_ok :: "(nat \<rightharpoonup> 's caller) \<Rightarrow> 'lb cm_shared \<Rightarrow> bool" where
  "watches_ok ts sh \<longleftrightarrow> distinct (s_watched sh) \<and>
     (\<forall>n \<in> set (s_watched sh). s_map sh n = None \<longrightarrow>
        (\<exists>i c r. s_lock sh = Some i \<and> ts i = Some c \<and> ca_name c = n \<and> ca_at c = Watched r))"

definition race_inv ::
  "'lb lb_factories \<Rightarrow> provider \<Rightarrow> 'e \<Rightarrow> cluster_info set \<Rightarrow> (nat \<rightharpoonup> 's caller) \<Rightarrow> 'lb cm_shared \<Rightarrow> bool" where
  "race_inv fs p e I ts sh \<longleftrightarrow>
     shared_ok fs p I sh \<and> (\<forall>i c. ts i = Some c \<longrightarrow> caller_ok fs p e I sh i c) \<and> watches_ok ts sh"

lemma watches_ok_move:
  assumes "watches_ok ts sh" "ts i = Some c" "caller_ok fs p e I sh i c"
    and "caller_move (pick e) fs p i (c, sh) = Some (c', sh')"
  shows "watches_ok (ts(i \<mapsto> c')) sh'"
proof -
  note move = assms(4) [unfolded caller_move_def Let_def fst_conv snd_conv]
  have still: "watches_ok (ts(i \<mapsto> c')) sh'"
    if "s_watched sh' = s_watched sh" "s_map sh' = s_map sh" "\<And>r. ca_at c \<noteq> Watched r"
      "s_lock sh' = s_lock sh \<or> s_lock sh = Some i \<or> s_lock sh = None"
    using that assms(1,2) unfolding watches_ok_def by (auto; metis option.inject)
  show ?thesis
  proof (cases "ca_at c")
    case Holding
    with assms(3) have "s_lock sh = Some i" by (simp add: caller_ok_def)
    with move Holding show ?thesis by (intro still) (auto split: option.splits sum.splits if_splits)
  next
    case (Created r)
    with assms(3) have own: "s_lock sh = Some i" "s_map sh (ca_name c) = None" by (simp_all add: caller_ok_def unnamed_def)
    have new: "ca_name c \<notin> set (s_watched sh)"
      using assms(1,2) own Created unfolding watches_ok_def by fastforce
    have "s_map sh n \<noteq> None" if "n \<in> set (s_watched sh)" for n
      using assms(1,2) own(1) Created that unfolding watches_ok_def by fastforce
    with move Created assms(1) own(1) new show ?thesis by (fastforce simp: watches_ok_def)
  next
    case (Watched r)
    with assms(3) have own: "s_lock sh = Some i" by (simp add: caller_ok_def)
    have "n = ca_name c" if "n \<in> set (s_watched sh)" "s_map sh n = None" for n
      using assms(1,2) own that unfolding watches_ok_def by fastforce
    then have stored: "s_map sh' n \<noteq> None" if "n \<in> set (s_watched sh')" for n
      using move Watched that by (cases "s_map sh n") auto
    have "distinct (s_watched sh')" using assms(1) move Watched by (auto simp: watches_ok_def)
    then show ?thesis unfolding watches_ok_def by (blast dest: stored)
  next
    case (Found r)
    with move show ?thesis by (intro still) (auto split: prod.splits if_splits)
  next
    case Missed
    with move show ?thesis by (intro still) (auto split: if_splits)
  next
    case Asking
    with move show ?thesis by (intro still) auto
  qed (use move in simp)
qed

lemma race_reaches_inv: "race_reaches (pick e) fs p I ts sh \<Longrightarrow> registry fs \<Longrightarrow> race_inv fs p e I ts sh"
proof (induction rule: race_reaches.induct)
  case fresh
  show ?case
    by (simp add: race_inv_def shared_ok_def refs_ok_def manager_ok_def manager_of_def watches_ok_def fresh_shared_def)
next
  case (called I ts sh i ctx name ty s)
  then show ?case by (auto simp: race_inv_def caller_ok_def watches_ok_def) (metis option.distinct(1))
next
  case (moved I ts sh i c c' sh')
  then have inv: "race_inv fs p e I ts sh" by simp
  with moved.hyps(2) have own: "shared_ok fs p I sh" "caller_ok fs p e I sh i c" by (simp_all add: race_inv_def)
  note ok = caller_move_ok [OF moved.prems own moved.hyps(3)]
  have "caller_ok fs p e I sh' j b" if "j \<noteq> i" "ts j = Some b" for j b
    using caller_ok_frame [of fs p e I sh j b "Some i" sh' I] ok inv that by (simp add: race_inv_def)
  moreover from inv have "watches_ok (ts(i \<mapsto> c')) sh'"
    by (intro watches_ok_move [of ts sh i c fs p e I c' sh'] moved.hyps own) (simp add: race_inv_def)
  ultimately show ?case using ok by (simp add: race_inv_def del: fun_upd_apply) (simp add: fun_upd_def)
next
  case (announced I ts sh info)
  then have inv: "race_inv fs p e I ts sh" by simp
  have "ci_Endpoints info \<in> announced p (insert info I) (ci_Name info)" by (auto simp: announced_def)
  with inv have "shared_ok fs p (insert info I) (shared_update fs info sh)"
    by (intro shared_ok_update [OF announced.prems, of p I]) (auto simp: race_inv_def)
  moreover have "caller_ok fs p e (insert info I) (shared_update fs info sh) j b" if "ts j = Some b" for j b
    using caller_ok_frame [of fs p e I sh j b None _ "insert info I", OF _ frame_update] inv that
    by (auto simp: race_inv_def)
  moreover have "watches_ok ts (shared_update fs info sh)" using inv by (simp add: race_inv_def watches_ok_def)
  ultimately show ?case by (simp add: race_inv_def)
qed

end

subsection \<open>Properties\<close>

lemma inference_race:
  assumes "race_reaches (pick_inference e) inference_factories p I ts sh"
  shows "inference_balancer.watches_ok ts sh"
    "ts i = Some c \<Longrightarrow> inference_balancer.caller_ok inference_factories p e I sh i c"
  using inference_balancer.race_reaches_inv [OF assms inference_registry]
  by (simp_all add: inference_balancer.race_inv_def)


text \<open>Requests for one name are served by one and the same cluster.\<close>

lemma callers_share_cluster:
  assumes "race_reaches (pick_inference e) inference_factories p I ts sh"
    and "ts i = Some c" "ca_at c = Found r" "ts j = Some c'" "ca_at c' = Found r'" "ca_name c' = ca_name c"
  shows "r' = r"
  using inference_race(2) [OF assms(1,2)] inference_race(2) [OF assms(1,4)] assms(3,5,6)
  by (simp add: inference_balancer.caller_ok_def)

text \<open>
  An announcement that comes between the creation of a cluster and its storing is lost, although the watch
  has begun: it changes nothing.
\<close>

lemma announcement_lost:
  assumes "race_reaches (pick_inference e) inference_factories p I ts sh"
    and "ts i = Some c" "ca_at c \<in> {Created r, Watched r}" "ci_Name info = ca_name c"
  shows "shared_update inference_factories info sh = sh"
  using inference_race(2) [OF assms(1,2)] assms(3,4)
  by (auto simp: inference_balancer.caller_ok_def inference_balancer.unnamed_def shared_update_def)

subsection \<open>A sample call\<close>

definition sample_caller :: "plugin_state caller" where
  "sample_caller = \<lparr>ca_ctx = sample_ctx, ca_name = ''c'', ca_type = ''inference_lb'', ca_state = fresh_state, ca_at = Asking\<rparr>"

lemma fresh_shared_simps [simp]:
  "s_lock fresh_shared = None" "refs_ok fresh_shared" "manager_of fresh_shared = NewClusterManager"
  by (simp_all add: fresh_shared_def refs_ok_def manager_of_def NewClusterManager_def)

lemma race_runs:
  "race_reaches pick fs p I ts sh \<Longrightarrow> ts i = Some c \<Longrightarrow> caller_runs pick fs p i n (c, sh) = (c', sh') \<Longrightarrow>
   race_reaches pick fs p I (ts(i \<mapsto> c')) sh'"
proof (induction n arbitrary: ts c sh)
  case 0
  then show ?case by (simp add: fun_upd_idem)
next
  case (Suc n)
  show ?case
  proof (cases "caller_move pick fs p i (c, sh)")
    case None
    with Suc.prems show ?thesis by (simp add: fun_upd_idem)
  next
    case (Some st)
    obtain c1 sh1 where st: "st = (c1, sh1)" by (rule prod.exhaust)
    have "caller_runs pick fs p i n (c1, sh1) = (c', sh')" using Suc.prems(3) by (simp add: Some st)
    from Suc.IH [OF race_reaches.moved [OF Suc.prems(1,2) Some [unfolded st]] fun_upd_same this] show ?thesis
      by (simp del: fun_upd_apply)
  qed
qed

lemma caller_move_keeps:
  "caller_move pick fs p i (c, sh) = Some (c', sh') \<Longrightarrow> ca_ctx c' = ca_ctx c \<and> ca_name c' = ca_name c"
  by (auto simp: caller_move_def Let_def split: call_point.splits option.splits sum.splits if_splits prod.splits)

lemma caller_runs_keeps:
  "caller_runs pick fs p i n (c, sh) = (c', sh') \<Longrightarrow> ca_ctx c' = ca_ctx c \<and> ca_name c' = ca_name c"
proof (induction n arbitrary: c sh)
  case (Suc n)
  show ?case
  proof (cases "caller_move pick fs p i (c, sh)")
    case (Some st)
    obtain c1 sh1 where st: "st = (c1, sh1)" by (rule prod.exhaust)
    have "caller_runs pick fs p i n (c1, sh1) = (c', sh')" using Suc.prems by (simp add: Some st)
    with Suc.IH caller_move_keeps [OF Some [unfolded st]] show ?thesis by simp
  qed (use Suc.prems in simp)
qed simp

theorem caller_alone_is_atomic_witness:
  "\<exists>r sh' ps. ManagerChooseHost (pick_inference sample_env) inference_factories sample_provider sample_ctx ''c''
     ''inference_lb'' NewClusterManager fresh_state = (r, manager_of sh', ps) \<and> s_lock sh' = None"
proof -
  obtain c' sh' where run: "caller_runs (pick_inference sample_env) inference_factories sample_provider 0 6
      (sample_caller, fresh_shared) = (c', sh')" by (rule prod.exhaust)
  have "ca_at sample_caller = Asking" by (simp add: sample_caller_def)
  from caller_alone_is_atomic [OF fresh_shared_simps(1,2) this run] show ?thesis
    by (auto simp: sample_caller_def)
qed


end
