(* ===== verification/Startup.thy ===== *)
theory Startup
  imports Discovery
begin

text \<open>
  What runs when the shared object is loaded: the two HTTP servers of \<^verbatim>\<open>cmd/libgolang/init.go\<close> and the file
  of static clusters read by \<^verbatim>\<open>discovery/staticdemo/provider.go\<close>.

  The goroutines of the two servers may come to \<open>ListenAndServe\<close> in either order; the call serves the
  address for ever or fails, which it does in particular when another server has the address
  (\<open>bind\<close> says what else makes it fail).
\<close>

datatype mux = DefaultMux | MetricsMux

record process =
  p_servers :: "(string \<times> mux) list"
  p_logs :: "string list"

definition ListenAndServe ::
    "(string \<Rightarrow> string option) \<Rightarrow> string \<Rightarrow> string \<Rightarrow> mux \<Rightarrow> process \<Rightarrow> process" where
  "ListenAndServe bind failed address m p =
     (case (if address \<in> fst ` set (p_servers p) then Some ''address already in use'' else bind address) of
        Some err \<Rightarrow> p\<lparr>p_logs := p_logs p @ [failed @ err]\<rparr>
      | None \<Rightarrow> p\<lparr>p_servers := p_servers p @ [(address, m)]\<rparr>)"

definition AIGW_PPROF_ADDRESS :: string where "AIGW_PPROF_ADDRESS = ''AIGW_PPROF_ADDRESS''"
definition AIGW_PROMETHEUS_ADDRESS :: string where "AIGW_PROMETHEUS_ADDRESS = ''AIGW_PROMETHEUS_ADDRESS''"

definition startPprof :: "environment \<Rightarrow> (string \<Rightarrow> string option) \<Rightarrow> process \<Rightarrow> process" where
  "startPprof env bind p =
     (let address = env AIGW_PPROF_ADDRESS in
      if address \<noteq> [] then ListenAndServe bind ''pprof server start failed: '' address DefaultMux p else p)"

definition startProm :: "environment \<Rightarrow> (string \<Rightarrow> string option) \<Rightarrow> process \<Rightarrow> process" where
  "startProm env bind p =
     (let address = env AIGW_PROMETHEUS_ADDRESS in
      if address \<noteq> [] then ListenAndServe bind ''Prometheus server start failed: '' '':6061'' MetricsMux p else p)"

text \<open>\<open>pprof_first\<close>: which goroutine listens first.\<close>

definition init_servers :: "bool \<Rightarrow> environment \<Rightarrow> (string \<Rightarrow> string option) \<Rightarrow> process" where
  "init_servers pprof_first env bind =
     (let p = \<lparr>p_servers = [], p_logs = []\<rparr> in
      if pprof_first then startProm env bind (startPprof env bind p) else startPprof env bind (startProm env bind p))"

text \<open>
  The static clusters.  Reading the file may fail; \<^verbatim>\<open>json.Unmarshal\<close> (an argument) answers an error and the
  clusters as it leaves them, which are kept also when there is an error.
\<close>

definition init_clusters ::
    "string + (string + string) \<Rightarrow> (string \<Rightarrow> static_cluster list \<Rightarrow> string option \<times> static_cluster list) \<Rightarrow> static_cluster list" where
  "init_clusters file unmarshal =
     (case file of
        Inl open_err \<Rightarrow> []
      | Inr (Inl read_err) \<Rightarrow> []
      | Inr (Inr data) \<Rightarrow> snd (unmarshal data []))"

lemmas startup_defs = init_servers_def startProm_def startPprof_def ListenAndServe_def Let_def

text \<open>
  The address of the metrics is not the configured one.  Whatever non-empty address the environment asks
  for, the metrics are served at \<open>:6061\<close> or nowhere; with no address they are not served at all, and an
  environment that asks for profiling at \<open>:6061\<close> gets only one of the two servers.
\<close>

theorem metrics_address_fixed:
  "(\<forall>address. (address, MetricsMux) \<in> set (p_servers (init_servers first env bind)) \<longleftrightarrow>
      address = '':6061'' \<and> env AIGW_PROMETHEUS_ADDRESS \<noteq> [] \<and> bind '':6061'' = None \<and>
      \<not> (first \<and> env AIGW_PPROF_ADDRESS = '':6061'')) \<and>
   (\<forall>address. (address, DefaultMux) \<in> set (p_servers (init_servers first env bind)) \<longleftrightarrow>
      address \<noteq> [] \<and> address = env AIGW_PPROF_ADDRESS \<and> bind address = None \<and>
      \<not> (\<not> first \<and> address = '':6061'' \<and> env AIGW_PROMETHEUS_ADDRESS \<noteq> []))"
  by (cases "bind '':6061''"; cases "bind (env AIGW_PPROF_ADDRESS)") (auto simp: startup_defs)

end
