(* ===== verification/PromMetrics.thy ===== *)
theory PromMetrics
  imports Prelude
begin

text \<open>
  The metrics of \<^verbatim>\<open>pkg/prom/metrics.go\<close>: what each variable of the package registers at the start.  The
  library that registers and collects them is not part of the repository; of it the code uses
  \<^verbatim>\<open>ExponentialBuckets(start, factor, count)\<close> (the argument \<open>buckets\<close>), documented as the list
  of \<open>count\<close> bounds of which the first is \<open>start\<close> and each other one \<open>factor\<close> times the one before it,
  and a registry that refuses a second metric of one name.
\<close>

datatype metric_kind = Gauge | GaugeVec | CounterVec | HistogramVec "rat list"

record metric =
  me_kind :: metric_kind
  me_name :: string
  me_help :: string
  me_labels :: "string list"

definition AppVersionInfo :: metric where
  "AppVersionInfo = \<lparr>me_kind = GaugeVec, me_name = ''aigw_version'',
     me_help = ''Version information about AIGateway'', me_labels = [''version'']\<rparr>"

definition ClustersTotal :: metric where
  "ClustersTotal = \<lparr>me_kind = Gauge, me_name = ''watched_clusters_total'',
     me_help = ''Number of watched clusters'', me_labels = []\<rparr>"

definition ClusterEndpoints :: metric where
  "ClusterEndpoints = \<lparr>me_kind = GaugeVec, me_name = ''watched_cluster_endpoints'',
     me_help = ''Number of endpoints for each watched cluster'', me_labels = [''cluster'']\<rparr>"

definition ClusterLabels :: metric where
  "ClusterLabels = \<lparr>me_kind = GaugeVec, me_name = ''watched_cluster_labels'',
     me_help = ''Number of labels for in each cluster'', me_labels = [''cluster'', ''endpoint_address'']\<rparr>"

definition RuleTotal_metric :: metric where
  "RuleTotal_metric = \<lparr>me_kind = Gauge, me_name = ''aigw_rule_total'', me_help = ''Number of rules'', me_labels = []\<rparr>"

definition LbConfigTotal_metric :: metric where
  "LbConfigTotal_metric = \<lparr>me_kind = Gauge, me_name = ''aigw_lbconfig_total'',
     me_help = ''Number of lbconfigs'', me_labels = []\<rparr>"

definition CircuitBreakerState :: metric where
  "CircuitBreakerState = \<lparr>me_kind = GaugeVec, me_name = ''aigw_servicediscovery_circuitbreaker_state'',
     me_help = ''The current state of the circuit breaker for each host. 0: Closed, 1: Half-Open, 2: Open.'',
     me_labels = [''host'']\<rparr>"

definition MetacenterRequestDuration :: "(rat \<Rightarrow> rat \<Rightarrow> nat \<Rightarrow> rat list) \<Rightarrow> metric" where
  "MetacenterRequestDuration buckets =
     \<lparr>me_kind = HistogramVec (buckets 100 2 12), me_name = ''metacenter_http_request_duration_us'',
      me_help = ''Histogram of HTTP request durations to Metacenter APIs'', me_labels = [''instance'', ''method'', ''path'']\<rparr>"

definition MetacenterRequestsTotal :: metric where
  "MetacenterRequestsTotal = \<lparr>me_kind = CounterVec, me_name = ''metacenter_http_requests_total'',
     me_help = ''Total number of HTTP requests to Metacenter'', me_labels = [''instance'', ''method'', ''path'']\<rparr>"

definition prom_metrics :: "(rat \<Rightarrow> rat \<Rightarrow> nat \<Rightarrow> rat list) \<Rightarrow> metric list" where
  "prom_metrics buckets =
     [AppVersionInfo, ClustersTotal, ClusterEndpoints, ClusterLabels, RuleTotal_metric, LbConfigTotal_metric,
      CircuitBreakerState, MetacenterRequestDuration buckets, MetacenterRequestsTotal]"

lemmas prom_metric_defs = prom_metrics_def AppVersionInfo_def ClustersTotal_def ClusterEndpoints_def ClusterLabels_def
  RuleTotal_metric_def LbConfigTotal_metric_def CircuitBreakerState_def MetacenterRequestDuration_def
  MetacenterRequestsTotal_def

text \<open>
  The variables are registered one after the other; \<open>register\<close> is \<^verbatim>\<open>promauto\<close>, which panics
  when the registry refuses the metric.
\<close>

fun register_metrics :: "(metric \<Rightarrow> 'r \<Rightarrow> 'r run) \<Rightarrow> metric list \<Rightarrow> 'r \<Rightarrow> 'r run" where
  "register_metrics register [] reg = Ret reg"
| "register_metrics register (m # ms) reg = run_bind (register m reg) (register_metrics register ms)"

lemma register_metrics_distinct:
  assumes "\<And>m reg. me_name m \<notin> taken reg \<Longrightarrow> \<exists>reg'. register m reg = Ret reg' \<and> taken reg' = insert (me_name m) (taken reg)"
  shows "distinct (map me_name ms) \<Longrightarrow> me_name ` set ms \<inter> taken reg = {} \<Longrightarrow>
    \<exists>reg'. register_metrics register ms reg = Ret reg'"
proof (induction ms arbitrary: reg)
  case (Cons m ms)
  from Cons.prems(2) assms [of m reg] obtain reg' where
    "register m reg = Ret reg'" "taken reg' = insert (me_name m) (taken reg)" by auto
  with Cons.IH [of reg'] Cons.prems show ?case by auto
qed simp

text \<open>Where the registry accepts every name that is not taken, the start of the process does not panic here.\<close>

lemma metrics_registered:
  assumes "\<And>m reg. me_name m \<notin> taken reg \<Longrightarrow> \<exists>reg'. register m reg = Ret reg' \<and> taken reg' = insert (me_name m) (taken reg)"
    and "taken fresh = {}"
  shows "\<exists>reg. register_metrics register (prom_metrics buckets) fresh = Ret reg"
  by (rule register_metrics_distinct [where taken = taken]) (auto simp: assms prom_metric_defs)

text \<open>
  The bounds of the histogram, in microseconds, for any buckets as documented: twelve, the last 204.8
  milliseconds.  The comment in the code lists thirteen, up to 409.6 milliseconds.
\<close>

lemma duration_buckets:
  assumes "length (buckets 100 2 12) = 12" "buckets 100 2 12 ! 0 = 100"
    and "\<And>i. Suc i < 12 \<Longrightarrow> buckets 100 2 12 ! Suc i = 2 * buckets 100 2 12 ! i"
  shows "me_kind (MetacenterRequestDuration buckets) =
    HistogramVec [100, 200, 400, 800, 1600, 3200, 6400, 12800, 25600, 51200, 102400, 204800]"
proof -
  have "i < 12 \<Longrightarrow> buckets 100 2 12 ! i = 100 * 2 ^ i" for i
    by (induction i) (simp_all add: assms(2,3))
  then have "buckets 100 2 12 = map (\<lambda>i. 100 * 2 ^ i) [0..<12]"
    by (intro nth_equalityI) (simp_all add: assms(1))
  then show ?thesis by (simp add: MetacenterRequestDuration_def upt_rec numeral_eq_Suc)
qed

end
