(* ===== verification/DiscoveryRuns.thy ===== *)
theory DiscoveryRuns
  imports ServiceDiscovery
begin

text \<open>
  The service discovery over time: lookups of its goroutine, requests that ask for hosts and
  reports of the client, in any order, each under the mutex that makes it one step.  The theory shows that
  the breakers do not get in each other's way, and what a lookup does to them.
\<close>

datatype sd_event =
    LookedUp go_time "string + string list"
  | Asked "string \<Rightarrow> go_time" go_time string int
  | Succeeded string
  | Failed go_time string

fun sd_step :: "breaker discovery \<Rightarrow> sd_event \<Rightarrow> breaker discovery" where
  "sd_step sd (LookedUp now answer) = dnsLookUp NewCircuitBreaker State now answer sd"
| "sd_step sd (Asked clk now key num) = snd (serve_hosts clk now key num sd)"
| "sd_step sd (Succeeded h) = ReportSuccess RecordSuccess h sd"
| "sd_step sd (Failed now h) = ReportFailure RecordFailure now h sd"

definition sd_run :: "breaker discovery \<Rightarrow> sd_event list \<Rightarrow> breaker discovery" where
  "sd_run sd evs = foldl sd_step sd evs"

lemma sd_run_simps [simp]:
  "sd_run sd [] = sd" "sd_run sd (e # evs) = sd_run (sd_step sd e) evs"
  "sd_run sd (evs @ evs') = sd_run (sd_run sd evs) evs'"
  by (simp_all add: sd_run_def)

subsection \<open>One host\<close>

text \<open>What of an event concerns the breaker of \<open>h\<close>.\<close>

fun host_events :: "string \<Rightarrow> sd_event \<Rightarrow> cb_event list" where
  "host_events h (LookedUp now answer) = []"
| "host_events h (Asked clk now key num) = [EvAllow (clk h)]"
| "host_events h (Succeeded h') = (if h' = h then [EvSuccess] else [])"
| "host_events h (Failed now h') = (if h' = h then [EvFailure now] else [])"

definition host_history :: "string \<Rightarrow> sd_event list \<Rightarrow> cb_event list" where
  "host_history h evs = concat (map (host_events h) evs)"

lemma host_history_simps [simp]:
  "host_history h [] = []" "host_history h (e # evs) = host_events h e @ host_history h evs"
  "host_history h (evs @ evs') = host_history h evs @ host_history h evs'"
  by (simp_all add: host_history_def)

text \<open>A lookup that fails or finds \<open>h\<close>.\<close>

fun keeps_host :: "string \<Rightarrow> sd_event \<Rightarrow> bool" where
  "keeps_host h (LookedUp now (Inr hosts)) \<longleftrightarrow> h \<in> set hosts"
| "keeps_host h _ \<longleftrightarrow> True"

lemma sd_step_finite:
  assumes "finite (known_hosts sd)"
  shows "finite (known_hosts (sd_step sd e))"
proof (cases e)
  case (LookedUp now answer)
  then show ?thesis using known_hosts_finite_lookup [OF assms] by simp
qed (use assms in \<open>simp_all add: serve_hosts_state known_hosts_def ReportSuccess_def ReportFailure_def\<close>)

lemma sd_run_finite: "finite (known_hosts sd) \<Longrightarrow> finite (known_hosts (sd_run sd evs))"
  by (induction evs arbitrary: sd) (simp_all add: sd_step_finite)

lemma sd_step_host:
  assumes "finite (known_hosts sd)" "nodeMap sd h = Some node" "keeps_host h e"
  shows "nodeMap (sd_step sd e) h = Some (node\<lparr>nodeBreaker := cb_run (nodeBreaker node) (host_events h e)\<rparr>)"
proof (cases e)
  case (LookedUp now answer)
  with assms(2,3) dnsLookUp_nodes [of NewCircuitBreaker State now _ sd h] show ?thesis by (cases answer) auto
next
  case (Asked clk now key num)
  with assms(2) show ?thesis by (simp add: serve_hosts_state [OF assms(1)] asked_def dom_def)
qed (auto simp: ReportSuccess_def ReportFailure_def update_breaker_node assms(2))

lemma sd_run_host:
  assumes "finite (known_hosts sd)" "nodeMap sd h = Some node" "list_all (keeps_host h) evs"
  shows "nodeMap (sd_run sd evs) h = Some (node\<lparr>nodeBreaker := cb_run (nodeBreaker node) (host_history h evs)\<rparr>)"
  using assms
proof (induction evs arbitrary: sd node)
  case (Cons e evs)
  with Cons.IH [OF sd_step_finite [OF Cons.prems(1)] sd_step_host [OF Cons.prems(1,2), of e]] show ?case by simp
qed simp

text \<open>
  C20. The breaker of a host is on its own.  As long as lookups find the host, its node keeps its discovery time, and
  its breaker is the lone breaker that was given exactly the calls about this host: one question for
  every request that asks for hosts, whether or not the host is then used, and the reports on it.
\<close>

theorem host_breaker_runs_alone:
  assumes "finite (known_hosts sd)" "nodeMap sd h = Some node" "list_all (keeps_host h) evs"
  shows "nodeMap (sd_run sd evs) h = Some (node\<lparr>nodeBreaker := cb_run (nodeBreaker node) (host_history h evs)\<rparr>)"
  using assms by (rule sd_run_host)


subsection \<open>What a lookup loses\<close>

text \<open>
  A host that one answer of the resolver leaves out comes back with a new breaker: a quarantine is forgotten, and the
  host may be asked at once, behind the warm hosts.
\<close>

lemma lookup_forgets_breaker:
  assumes "h \<notin> set hosts" "h \<in> set hosts'"
  shows "nodeMap (sd_run sd [LookedUp t (Inr hosts), LookedUp t' (Inr hosts')]) h =
      Some \<lparr>discoveredAt = t', nodeBreaker = NewCircuitBreaker (breaker_config_of (config sd))\<rparr> \<and>
    allowed Allow clk (nodeMap (sd_run sd [LookedUp t (Inr hosts), LookedUp t' (Inr hosts')])) h"
proof -
  have conf: "config (dnsLookUp NewCircuitBreaker State t (Inr hosts) sd) = config sd"
    by (simp add: dnsLookUp_def remove_nodes_def foldl_invariant [where P = "\<lambda>x. config x = config sd"])
  have "nodeMap (sd_run sd [LookedUp t (Inr hosts), LookedUp t' (Inr hosts')]) h =
      Some \<lparr>discoveredAt = t', nodeBreaker = NewCircuitBreaker (breaker_config_of (config sd))\<rparr>"
    using assms dnsLookUp_nodes [of NewCircuitBreaker State t hosts sd h]
      dnsLookUp_nodes [of NewCircuitBreaker State t' hosts' "dnsLookUp NewCircuitBreaker State t (Inr hosts) sd" h] conf
    by simp
  then show ?thesis by (simp add: allowed_def Allow_def NewCircuitBreaker_def)
qed

text \<open>A lookup that succeeds without a host forgets all of them, although the code only logs it.\<close>

lemma empty_lookup_forgets_all: "known_hosts (sd_step sd (LookedUp t (Inr []))) = {}"
  using dnsLookUp_nodes [of NewCircuitBreaker State t "[]" sd] by (auto simp: known_hosts_def)

text \<open>
  A half-open breaker does not bound the requests it lets through: until a report comes, every request
  that asks may use the host.
\<close>

lemma half_open_unbounded:
  assumes "cb_state cb = ''half-open''" "successCount cb < halfOpenRequests (cb_config cb)"
  shows "cb_run cb (map EvAllow ts) = cb \<and> fst (Allow t cb)"
  using assms by (induction ts) (simp_all add: Allow_def)

subsection \<open>A sample run\<close>

lemma sample_a:
  "finite (known_hosts sample_sd)" "nodeMap sample_sd ''a'' = Some (sample_node 0)"
  "nodeBreaker (sample_node 0) = NewCircuitBreaker (breaker_config_of sample_sd_config)"
  by (simp_all add: known_hosts_def sample_sd_def sample_node_def)

theorem host_breaker_runs_alone_witness:
  "map_option nodeBreaker (nodeMap (sd_run sample_sd [Failed 99 ''b'', Failed 99 ''a'', LookedUp 100 (Inr [''a'']), Failed 101 ''a'']) ''a'') =
   Some (cb_run (NewCircuitBreaker (breaker_config_of sample_sd_config)) [EvFailure 99, EvFailure 101])"
  using host_breaker_runs_alone [OF sample_a(1,2), of "[Failed 99 ''b'', Failed 99 ''a'', LookedUp 100 (Inr [''a'']), Failed 101 ''a'']"]
  by (simp add: sample_a(3) del: cb_run_simps sd_run_simps)


end
