(* ===== verification/TaskDelivery.thy ===== *)
theory TaskDelivery
  imports MetadataCenter
begin

text \<open>
  A worker of the queue at work on one task: \<^verbatim>\<open>worker\<close> of \<^verbatim>\<open>async_request.go\<close> with the handler it really
  has, \<^verbatim>\<open>MetaDataCenterClient.HandleRequest\<close> of \<^verbatim>\<open>metadata_center.go\<close>, which fails over between the
  hosts of the service discovery behind their breakers.

  Other workers use the same client and the same breakers between the attempts of the task, and hosts come
  and go: attempt \<open>a\<close> therefore finds a client and a discovery of its own (\<open>sts a\<close>), a network and
  clocks of its own (\<open>env a\<close>).
\<close>

record attempt_env =
  e_bclk :: "string \<Rightarrow> go_time"
  e_now :: go_time
  e_net :: "http_request \<Rightarrow> http_result"
  e_clk :: "string \<Rightarrow> go_time"
  e_elapsed :: "string \<Rightarrow> duration"

type_synonym center_state = "mc_client \<times> breaker discovery"

definition deliver_task :: "(int \<Rightarrow> attempt_env) \<Rightarrow> (int \<Rightarrow> center_state) \<Rightarrow> task \<Rightarrow> int \<Rightarrow> string option" where
  "deliver_task env sts t a =
     fst (HandleRequest (metacenter_request (e_bclk (env a)) (e_now (env a)) (e_net (env a)) (e_clk (env a)) (e_elapsed (env a)))
       t (fst (sts a)) (snd (sts a)))"

subsection \<open>The requests of one attempt\<close>

definition task_param :: "task \<Rightarrow> request_param" where
  "task_param t = \<lparr>rp_TraceId = t_TraceId t, rp_HashKey = t_HashKey t, rp_Method = t_Method t, rp_Path = t_URL t,
     rp_Query = [], rp_Body = t_Body t, rp_Timeout = t_Timeout t\<rparr>"

text \<open>The hosts the loop asks, with whether the answer was a 200: all up to the first that is.\<close>

fun requests_made :: "(string \<Rightarrow> string + bytes) \<Rightarrow> string list \<Rightarrow> (string \<times> bool) list" where
  "requests_made f [] = []"
| "requests_made f (h # hs) = (if isl (f h) then (h, False) # requests_made f hs else [(h, True)])"

text \<open>The loop makes these requests: without the hosts behind them it does the same.\<close>

lemma try_hosts_made:
  "try_hosts rs rf net clk elapsed p hs e c s =
   try_hosts rs rf net clk elapsed p (map fst (requests_made (attempt net c p) hs)) e c s"
proof (induction hs arbitrary: e s)
  case (Cons h hs)
  then show ?case by (cases "doSingleRequest net (servicePort c) h p") (simp_all add: attempt_def)
qed simp

lemma requests_made_answers:
  "\<exists>k. map snd (requests_made f hs) = replicate k False @ (if \<exists>h \<in> set hs. \<not> isl (f h) then [True] else [])"
proof (induction hs)
  case (Cons h hs)
  then obtain k where "map snd (requests_made f hs) = replicate k False @ (if \<exists>h \<in> set hs. \<not> isl (f h) then [True] else [])" ..
  then show ?case by (cases "isl (f h)") (auto intro: exI [of _ "Suc k"] exI [of _ 0])
qed simp

lemma requests_made_length: "length (requests_made f hs) \<le> length hs"
  by (induction hs) simp_all

definition attempt_hosts :: "attempt_env \<Rightarrow> center_state \<Rightarrow> task \<Rightarrow> string list" where
  "attempt_hosts e st t = fst (serve_hosts (e_bclk e) (e_now e) (t_HashKey t) (failoverRetry (fst st) + 1) (snd st))"

definition answered :: "attempt_env \<Rightarrow> center_state \<Rightarrow> task \<Rightarrow> string \<Rightarrow> bool" where
  "answered e st t h \<longleftrightarrow> \<not> isl (attempt (e_net e) (fst st) (task_param t) h)"

definition attempt_requests :: "attempt_env \<Rightarrow> center_state \<Rightarrow> task \<Rightarrow> (string \<times> bool) list" where
  "attempt_requests e st t = requests_made (attempt (e_net e) (fst st) (task_param t)) (attempt_hosts e st t)"

lemma deliver_task_None:
  assumes "finite (known_hosts (snd (sts a)))"
  shows "deliver_task env sts t a = None \<longleftrightarrow> (\<exists>h \<in> set (attempt_hosts (env a) (sts a) t). answered (env a) (sts a) t h)"
proof -
  let ?e = "env a"
  obtain cands s1 where hosts:
    "serve_hosts (e_bclk ?e) (e_now ?e) (rp_HashKey (task_param t)) (failoverRetry (fst (sts a)) + 1) (snd (sts a)) = (cands, s1)"
    by force
  have "deliver_task env sts t a = None \<longleftrightarrow>
    \<not> isl (fst (metacenter_request (e_bclk ?e) (e_now ?e) (e_net ?e) (e_clk ?e) (e_elapsed ?e) (task_param t) (fst (sts a)) (snd (sts a))))"
    by (auto simp: deliver_task_def HandleRequest_def task_param_def split: prod.splits sum.splits)
  with discovery_service.retry_succeeds_iff [OF assms hosts, of "e_net ?e" "e_clk ?e" "e_elapsed ?e"] hosts
  show ?thesis by (auto simp: metacenter_request_def attempt_hosts_def answered_def task_param_def)
qed

lemma attempt_requests_answers:
  assumes "finite (known_hosts (snd (sts a)))"
  shows "\<exists>k. map snd (attempt_requests (env a) (sts a) t) =
    replicate k False @ (if deliver_task env sts t a = None then [True] else [])"
  using requests_made_answers [of "attempt (e_net (env a)) (fst (sts a)) (task_param t)" "attempt_hosts (env a) (sts a) t"]
  by (simp add: attempt_requests_def deliver_task_None [where sts = sts and a = a, OF assms] answered_def)

lemma attempt_requests_length:
  assumes "finite (known_hosts (snd st))" "failoverRetry (fst st) \<le> r" "0 \<le> r"
  shows "int (length (attempt_requests e st t)) \<le> r + 1"
proof -
  have "int (length (attempt_hosts e st t)) \<le> max 0 (failoverRetry (fst st) + 1)"
    unfolding attempt_hosts_def by (rule discovery_service.get_hosts_length [OF assms(1)])
  with requests_made_length [of "attempt (e_net e) (fst st) (task_param t)" "attempt_hosts e st t"] assms(2,3)
  show ?thesis by (simp add: attempt_requests_def)
qed

subsection \<open>The requests of a task\<close>

lemma run_task_last:
  assumes "0 \<le> MaxRetries cfg"
  obtains k where "k \<le> nat (MaxRetries cfg)" "\<forall>j < k. handler (int j) \<noteq> None"
    "handler (int k) = None \<or> k = nat (MaxRetries cfg)" "o_attempts (run_task handler cfg t) = int k + 1"
    "o_error (run_task handler cfg t) = handler (int k)"
proof -
  let ?stop = "\<lambda>k. handler (int k) = None \<or> k = nat (MaxRetries cfg)"
  define k where "k = (LEAST k. ?stop k)"
  have stop: "?stop k" unfolding k_def by (rule LeastI [of _ "nat (MaxRetries cfg)"]) simp
  have "k \<le> nat (MaxRetries cfg)" unfolding k_def by (rule Least_le) simp
  moreover have least: "handler (int j) \<noteq> None" if "j < k" for j
    using not_less_Least [OF that [unfolded k_def]] by simp
  moreover have "\<forall>j. 0 \<le> j \<and> j < int k \<longrightarrow> handler j \<noteq> None"
    using least by (metis nat_less_iff int_nat_eq)
  with run_task_retries [of "int k" cfg handler t] assms stop \<open>k \<le> nat (MaxRetries cfg)\<close>
  have "o_attempts (run_task handler cfg t) = int k + 1" "o_error (run_task handler cfg t) = handler (int k)" by auto
  ultimately show ?thesis using stop that by blast
qed

text \<open>Every request made for a task, attempt by attempt.\<close>

definition task_requests ::
    "(int \<Rightarrow> attempt_env) \<Rightarrow> (int \<Rightarrow> center_state) \<Rightarrow> queue_config \<Rightarrow> task \<Rightarrow> (string \<times> bool) list" where
  "task_requests env sts cfg t =
     concat (map (\<lambda>a. attempt_requests (env (int a)) (sts (int a)) t)
       [0..<nat (o_attempts (run_task (deliver_task env sts t) cfg t))])"

lemma failed_attempts:
  assumes "\<And>a. finite (known_hosts (snd (sts a)))" "\<forall>j < k. deliver_task env sts t (int j) \<noteq> None"
  shows "\<exists>m. map snd (concat (map (\<lambda>a. attempt_requests (env (int a)) (sts (int a)) t) [0..<k])) = replicate m False"
  using assms(2)
proof (induction k)
  case (Suc k)
  then obtain m where m:
    "map snd (concat (map (\<lambda>a. attempt_requests (env (int a)) (sts (int a)) t) [0..<k])) = replicate m False" by auto
  obtain n where "map snd (attempt_requests (env (int k)) (sts (int k)) t) = replicate n False"
    using attempt_requests_answers [where sts = sts and a = "int k" and env = env and t = t, OF assms(1)] Suc.prems by auto
  with m show ?case by (auto simp: replicate_add [symmetric] map_concat intro: exI [of _ "m + n"])
qed simp

lemma attempts_length:
  assumes "\<And>a. finite (known_hosts (snd (sts a)))" "\<And>a. failoverRetry (fst (sts a)) \<le> r" "0 \<le> r"
  shows "int (length (concat (map (\<lambda>a. attempt_requests (env (int a)) (sts (int a)) t) [0..<k]))) \<le> int k * (r + 1)"
proof (induction k)
  case (Suc k)
  with attempt_requests_length [where st = "sts (int k)" and e = "env (int k)" and t = t, OF assms]
  show ?case by (simp add: algebra_simps)
qed simp


text \<open>With a negative number of retries no request is made at all, and the task is logged as a success.\<close>

lemma negative_retries_drop:
  assumes "MaxRetries cfg < 0"
  shows "task_requests env sts cfg t = [] \<and> logStatus (run_task (deliver_task env sts t) cfg t) = ''SUCCESS''"
  using assms by (simp add: task_requests_def run_task_def attempt_loop_past logStatus_def)

subsection \<open>A sample delivery\<close>

definition sample_attempt_env :: attempt_env where
  "sample_attempt_env = \<lparr>e_bclk = (\<lambda>_. 100), e_now = 100, e_net = sample_net, e_clk = (\<lambda>_. 100), e_elapsed = (\<lambda>_. 7)\<rparr>"

lemma sample_b_offered: "''b'' \<in> set (attempt_hosts sample_attempt_env (sample_client, sample_sd) t)"
proof -
  have "set (attempt_hosts sample_attempt_env (sample_client, sample_sd) t) = {''a'', ''b''}"
    using GetHosts_all [OF key_order_enumerates [OF sample_known], of Allow "\<lambda>_. 100" 100 2 "t_HashKey t"]
    by (simp add: attempt_hosts_def sample_attempt_env_def sample_client_def serve_hosts_def sample_candidates)
  then show ?thesis by simp
qed

lemma sample_b_answers: "answered sample_attempt_env (sample_client, sample_sd) t ''b''"
  by (simp add: answered_def sample_attempt_env_def attempt_def doSingleRequest_def sample_net_def build_request_def
      has_prefix_def sample_client_def)


end
