(* ===== verification/FilterStream.thy ===== *)
theory FilterStream
  imports FilterOutcomes
begin

text \<open>
  A streamed answer on its way through the filter: \<^verbatim>\<open>EncodeData\<close> of \<^verbatim>\<open>filter.go\<close> on piece after piece,
  with the transcoder of \<^verbatim>\<open>transcoder/openai\<close> behind it.
\<close>

lemma EncodeData_converts:
  assumes "resp f = (True, False, Some t)" "accepts_all d" "GetResponseData (d_codec d) b t = ((out, None), t')"
  shows "\<exists>f' q'. f_EncodeData d now h b f q = Ret (Continue, h, Some (flat out), f', q') \<and> resp f' = (True, False, Some t')"
proof -
  obtain f1 q1 where stamp: "setTokenTimestamp d now f q = (f1, q1)" by (rule prod.exhaust)
  from resp_setTokenTimestamp [OF this] assms(1)
  have "f_isStream f1" "\<not> f_dropRespData f1" "f_transcoder f1 = Some t" by (simp_all add: resp_def)
  with stamp assms(2,3) show ?thesis
    by (cases out) (simp_all add: f_EncodeData_def doRespData_def accepts_all_def resp_def)
qed

lemma encode_pieces_feed:
  assumes "resp f = (True, False, Some t)" "accepts_all d" "feed (d_codec d) (map snd ps) t = ((out, None), t')"
  shows "\<exists>bodies f' q'. encode_pieces d h ps f q = Ret (map (\<lambda>b. (Continue, Some b)) bodies, h, f', q') \<and>
    length bodies = length ps \<and> concat bodies = out \<and> resp f' = (True, False, Some t')"
  using assms
proof (induction ps arbitrary: f q t out)
  case Nil
  then show ?case by simp
next
  case (Cons p ps)
  obtain now b where p: "p = (now, b)" by (rule prod.exhaust)
  from Cons.prems(3) p obtain o1 t1 out' where step: "GetResponseData (d_codec d) b t = ((o1, None), t1)"
    "feed (d_codec d) (map snd ps) t1 = ((out', None), t')" "out = flat o1 @ out'"
    by (auto simp: Let_def split: prod.splits option.splits)
  from EncodeData_converts [OF Cons.prems(1,2) step(1)] obtain f1 q1 where
    one: "f_EncodeData d now h b f q = Ret (Continue, h, Some (flat o1), f1, q1)" "resp f1 = (True, False, Some t1)" by blast
  from Cons.IH [OF one(2) Cons.prems(2) step(2)] obtain bodies f2 q2 where
    "encode_pieces d h ps f1 q1 = Ret (map (\<lambda>b. (Continue, Some b)) bodies, h, f2, q2)" "length bodies = length ps"
    "concat bodies = out'" "resp f2 = (True, False, Some t')" by blast
  with one(1) step(3) show ?case by (intro exI [of _ "flat o1 # bodies"]) (simp add: p)
qed



end
