(* ===== verification/FleetLoad.thy ===== *)
theory FleetLoad
  imports RequestQueue
begin

text \<open>
  All requests of the gateway at once.  Any number of filters share the cluster managers and the queue of
  the metadata center; their callbacks, their timers, the workers and the shutdown of the queue and
  the announcements to the managers interleave.  What they amount to is the load the metadata center keeps, from which
  the balancer chooses.
\<close>

subsection \<open>The fleet\<close>

type_synonym fleet = "nat \<rightharpoonup> phase \<times> proxy_filter \<times> trace"

text \<open>Request \<open>i\<close> works with \<open>d i\<close>; it arrives with a configuration, callbacks, body and metadata of its own.\<close>

inductive fleet_step ::
  "('g \<Rightarrow> 'g \<Rightarrow> bool) \<Rightarrow> (nat \<Rightarrow> ('g, async_queue \<times> trace) deps)
     \<Rightarrow> fleet \<times> 'g \<times> async_queue \<Rightarrow> fleet \<times> 'g \<times> async_queue \<Rightarrow> bool" for R d where
  arrive: "reqs i = None \<Longrightarrow> fleet_step R d (reqs, g, aq) (reqs(i \<mapsto> (Fresh, filterFactory c ps cb body meta, [])), g, aq)"
| callback: "reqs i = Some (ph, f, tr) \<Longrightarrow> request_step (\<lambda>_ _. False) (d i) (ph, f, g, aq, tr) (ph', f', g', aq', tr') \<Longrightarrow>
     fleet_step R d (reqs, g, aq) (reqs(i \<mapsto> (ph', f', tr')), g', aq')"
| worker: "worker_step aq aq' \<Longrightarrow> fleet_step R d (reqs, g, aq) (reqs, g, aq')"
| shutdown: "\<not> shutting aq \<Longrightarrow> fleet_step R d (reqs, g, aq) (reqs, g, Shutdown_begin aq)"
| managers: "R g g' \<Longrightarrow> fleet_step R d (reqs, g, aq) (reqs, g', aq)"

inductive fleet_run ::
  "queue_config \<Rightarrow> ('g \<Rightarrow> 'g \<Rightarrow> bool) \<Rightarrow> (nat \<Rightarrow> ('g, async_queue \<times> trace) deps) \<Rightarrow> fleet \<times> 'g \<times> async_queue \<Rightarrow> bool"
  for cfg R d where
  start: "NewAsyncQueue cfg = Ret aq \<Longrightarrow> fleet_run cfg R d (Map.empty, g, aq)"
| step: "fleet_run cfg R d st \<Longrightarrow> fleet_step R d st st' \<Longrightarrow> fleet_run cfg R d st'"

inductive_cases fleet_stepE: "fleet_step R d (reqs, g, aq) (reqs', g', aq')"

subsection \<open>The load tasks\<close>

definition load_task :: "task \<Rightarrow> bool" where
  "load_task t \<longleftrightarrow> add_task t \<or> remove_task t"

lemma load_task_timeout [simp]:
  "add_task (with_timeout cfg t) = add_task t" "remove_task (with_timeout cfg t) = remove_task t"
  "load_task (with_timeout cfg t) = load_task t" "task_id (with_timeout cfg t) = task_id t"
  by (simp_all add: with_timeout_def load_task_def add_task_def remove_task_def task_id_def)

lemma add_not_remove: "add_task t \<Longrightarrow> \<not> remove_task t"
  by (simp add: add_task_def remove_task_def)

definition loads :: "json \<Rightarrow> task list \<Rightarrow> task list" where
  "loads x ts = List.filter (\<lambda>t. load_task t \<and> task_id t = Some x) ts"

lemma loads_simps [simp]:
  "loads x [] = []" "loads x (ts @ ts') = loads x ts @ loads x ts'"
  "loads x (t # ts) = (if load_task t \<and> task_id t = Some x then [t] else []) @ loads x ts"
  by (simp_all add: loads_def)

definition taken_loads :: "queue_config \<Rightarrow> trace \<Rightarrow> task list" where
  "taken_loads cfg tr = List.filter load_task (taken_tasks cfg tr)"

lemma taken_loads_simps [simp]:
  "taken_loads cfg [] = []" "taken_loads cfg (tr @ tr') = taken_loads cfg tr @ taken_loads cfg tr'"
  "taken_loads cfg ((t, ok) # tr) = (if ok \<and> load_task t then [with_timeout cfg t] else []) @ taken_loads cfg tr"
  by (simp_all add: taken_loads_def)

lemma taken_loads_none: "\<forall>(t, ok) \<in> set tr. \<not> (ok \<and> load_task t) \<Longrightarrow> taken_loads cfg tr = []"
  by (induction tr) auto

lemma taken_loads_quiet: "quiet tr \<Longrightarrow> taken_loads cfg tr = []"
  by (rule taken_loads_none) (auto simp: quiet_def load_task_def)

lemma taken_loads_counted:
  assumes "counted x n tr"
  shows "\<exists>a. taken_loads cfg tr = [with_timeout cfg a] \<and> add_task a \<and> task_id a = Some x"
proof -
  from assms obtain before a between where tr: "tr = before @ [(a, True)] @ between" "quiet before"
    "add_task a" "task_id a = Some x" "\<forall>(t, ok) \<in> set between. \<not> add_task t \<and> \<not> remove_task t"
    unfolding counted_def by blast
  from tr(5) have "taken_loads cfg between = []" by (intro taken_loads_none) (auto simp: load_task_def)
  with tr(1-4) taken_loads_quiet [of before] show ?thesis by (intro exI [of _ a]) (simp add: load_task_def)
qed

text \<open>What a request has at the queue: nothing, its addition, or its addition and its removal.\<close>

definition in_flight :: "phase \<Rightarrow> proxy_filter \<Rightarrow> trace \<Rightarrow> bool" where
  "in_flight ph f tr \<longleftrightarrow> f_isIncreaseRecorded f \<and> (ph = Logged \<longrightarrow> (\<exists>t. remove_task t \<and> (t, False) \<in> set tr))"

lemma accounted_loads:
  assumes "accounted uuid ph f tr"
  shows "(\<forall>t \<in> set (taken_loads cfg tr). task_id t = Some (JStr uuid)) \<and>
    (in_flight ph f tr \<longleftrightarrow> taken_loads cfg tr \<noteq> [] \<and> add_task (last (taken_loads cfg tr)))"
proof (cases "f_isIncreaseRecorded f")
  case False
  with assms have "quiet tr" by (simp add: accounted_def)
  from taken_loads_quiet [OF this] False show ?thesis by (simp add: in_flight_def)
next
  case rec: True
  show ?thesis
  proof (cases "ph = Logged")
    case True
    with rec assms obtain tr' t ok n where tr: "tr = tr' @ [(t, ok)]" "remove_task t" "task_id t = Some (JStr uuid)"
      and counted: "counted (JStr uuid) n tr'" by (auto simp: accounted_def)
    from taken_loads_counted [OF counted, of cfg] obtain a where
      a: "taken_loads cfg tr' = [with_timeout cfg a]" "add_task a" "task_id a = Some (JStr uuid)" by blast
    from counted have "\<forall>(t, ok) \<in> set tr'. \<not> remove_task t"
      by (auto simp: counted_def quiet_def dest: add_not_remove)
    with tr(1) have "(\<exists>t. remove_task t \<and> (t, False) \<in> set tr) \<longleftrightarrow> \<not> ok" using tr(2) by auto
    with tr a rec True add_not_remove [of t] show ?thesis by (auto simp: in_flight_def load_task_def)
  next
    case False
    with rec assms obtain n where "counted (JStr uuid) n tr" by (auto simp: accounted_def)
    from taken_loads_counted [OF this, of cfg] rec False show ?thesis by (auto simp: in_flight_def)
  qed
qed

subsection \<open>The invariant of the fleet\<close>

text \<open>
  Every request is accounted for, the load tasks under its id in the queue are those it had accepted,
  and there are no others.
\<close>

definition fleet_ok :: "queue_config \<Rightarrow> (nat \<Rightarrow> string) \<Rightarrow> fleet \<Rightarrow> async_queue \<Rightarrow> bool" where
  "fleet_ok cfg uuid reqs aq \<longleftrightarrow> aq_reachable cfg aq \<and>
     (\<forall>i ph f tr. reqs i = Some (ph, f, tr) \<longrightarrow>
        accounted (uuid i) ph f tr \<and> loads (JStr (uuid i)) (accepted aq) = taken_loads cfg tr) \<and>
     (\<forall>t \<in> set (accepted aq). load_task t \<longrightarrow> (\<exists>i \<in> dom reqs. task_id t = Some (JStr (uuid i))))"

lemma fleet_ok_queue:
  assumes "fleet_ok cfg uuid reqs aq" "aq_step aq aq'" "accepted aq' = accepted aq"
  shows "fleet_ok cfg uuid reqs aq'"
  using assms aq_reachable.step by (fastforce simp: fleet_ok_def)

lemma worker_step_accepted: "worker_step aq aq' \<Longrightarrow> accepted aq' = accepted aq"
proof (induction rule: worker_step.induct)
  case (take_one i aq)
  then show ?case by (cases "tasks aq") (simp_all add: take_task_def)
qed (simp_all add: finish_task_def Shutdown_end_def)

lemma fleet_ok_owner:
  assumes "fleet_ok cfg uuid reqs aq" "t \<in> set (accepted aq)" "load_task t"
  obtains i where "i \<in> dom reqs" "task_id t = Some (JStr (uuid i))"
  using assms unfolding fleet_ok_def by blast

lemma fleet_ok_arrive:
  assumes "fleet_ok cfg uuid reqs aq" "inj uuid" "reqs i = None"
  shows "fleet_ok cfg uuid (reqs(i \<mapsto> (Fresh, filterFactory c ps cb body meta, []))) aq"
proof -
  have "\<not> (load_task t \<and> task_id t = Some (JStr (uuid i)))" if t: "t \<in> set (accepted aq)" for t
  proof
    assume "load_task t \<and> task_id t = Some (JStr (uuid i))"
    moreover from this fleet_ok_owner [OF assms(1) t] obtain j where
      "j \<in> dom reqs" "task_id t = Some (JStr (uuid j))" by metis
    ultimately have "j \<in> dom reqs" "uuid j = uuid i" by simp_all
    with assms(2,3) show False by (auto dest: injD)
  qed
  then have "loads (JStr (uuid i)) (accepted aq) = []" by (auto simp: loads_def filter_empty_conv)
  moreover have "accounted (uuid i) Fresh (filterFactory c ps cb body meta) []"
    by (simp add: accounted_def filterFactory_def)
  ultimately show ?thesis using assms(1,3) by (auto simp: fleet_ok_def)
qed

text \<open>What a callback submits is accepted or not, and if it is a load task it is under the id of the request.\<close>

lemma fleet_ok_callback:
  assumes "fleet_ok cfg (\<lambda>i. d_uuid (d i)) reqs aq" "inj (\<lambda>i. d_uuid (d i))" "d_submit (d i) = traced (enqueue pick)"
    and "reqs i = Some (ph, f, tr)" "request_step (\<lambda>_ _. False) (d i) (ph, f, g, aq, tr) (ph', f', g', aq', tr')"
  shows "fleet_ok cfg (\<lambda>i. d_uuid (d i)) (reqs(i \<mapsto> (ph', f', tr'))) aq'"
proof -
  let ?id = "\<lambda>i. JStr (d_uuid (d i))"
  from assms(1,4) have run: "aq_reachable cfg aq" and acc: "accounted (d_uuid (d i)) ph f tr"
    and mine: "loads (?id i) (accepted aq) = taken_loads cfg tr" by (auto simp: fleet_ok_def)
  from accounted_step [OF assms(5,3)] acc have acc': "accounted (d_uuid (d i)) ph' f' tr'" by simp
  have keep: "fleet_ok cfg (\<lambda>i. d_uuid (d i)) (reqs(i \<mapsto> (ph', f', tr'))) aq'"
    if new: "aq_reachable cfg aq'" "accepted aq' = accepted aq @ taken_tasks cfg us" "tr' = tr @ us" for us
  proof -
    from accounted_loads [OF acc', of cfg] new(3)
    have ids: "\<forall>t \<in> set (taken_tasks cfg us). load_task t \<longrightarrow> task_id t = Some (?id i)" by (auto simp: taken_loads_def)
    then have "loads (?id i) (taken_tasks cfg us) = taken_loads cfg us"
      by (auto simp: loads_def taken_loads_def intro!: filter_cong)
    moreover have "loads (?id j) (taken_tasks cfg us) = []" if "j \<noteq> i" for j
      using ids that injD [OF assms(2)] by (fastforce simp: loads_def filter_empty_conv)
    ultimately show ?thesis
      using assms(1) acc' mine new ids by (auto simp: fleet_ok_def)
  qed
  from request_step_submits [OF assms(5)] have "submits (d i) (aq, tr) (aq', tr')" by simp
  then consider "aq' = aq" "tr' = tr" | t where "(aq', tr') = snd (traced (enqueue pick) t (aq, tr))"
    by (auto simp: submits_def assms(3))
  then show ?thesis
  proof cases
    case 1
    with keep [of "[]"] run show ?thesis by simp
  next
    case (2 t)
    obtain e s where e: "enqueue pick t aq = (e, s)" by (rule prod.exhaust)
    with 2 have "aq' = s" "tr' = tr @ [(t, e = None)]" by (simp_all add: traced_def)
    with keep [of "[(t, e = None)]"] enqueue_reachable [OF run e] enqueue_accepted [OF run e] show ?thesis by simp
  qed
qed

lemma fleet_run_ok:
  assumes "fleet_run cfg R d st" "inj (\<lambda>i. d_uuid (d i))" "\<And>i. d_submit (d i) = traced (enqueue pick)"
  shows "case st of (reqs, g, aq) \<Rightarrow> fleet_ok cfg (\<lambda>i. d_uuid (d i)) reqs aq"
  using assms(1)
proof (induction)
  case (start aq g)
  then have "accepted aq = []" by (auto simp: NewAsyncQueue_def split: if_splits)
  with aq_reachable.start [OF start] show ?case by (simp add: fleet_ok_def)
next
  case (step st st')
  obtain reqs g aq where st: "st = (reqs, g, aq)" by (metis prod.exhaust)
  obtain reqs' g' aq' where st': "st' = (reqs', g', aq')" by (metis prod.exhaust)
  from step.IH st have ok: "fleet_ok cfg (\<lambda>i. d_uuid (d i)) reqs aq" by simp
  from step.hyps(2) have "fleet_ok cfg (\<lambda>i. d_uuid (d i)) reqs' aq'"
    unfolding st st'
  proof (cases rule: fleet_stepE [consumes 1, case_names arrive callback worker shutdown managers])
    case arrive
    with fleet_ok_arrive [OF ok assms(2)] show ?thesis by simp
  next
    case callback
    from fleet_ok_callback [OF ok assms(2,3) callback(2,3)] callback(1) show ?thesis by simp
  next
    case worker
    with fleet_ok_queue [OF ok worker_step_aq worker_step_accepted] show ?thesis by simp
  next
    case shutdown
    with fleet_ok_queue [OF ok aq_step.shut_begin] show ?thesis by (simp add: Shutdown_begin_def)
  qed (use ok in simp)
  then show ?case by (simp add: st')
qed

subsection \<open>The metadata center's view\<close>

text \<open>
  The metadata center is another project.  What the gateway relies on: an addition counts its request, a
  removal stops counting it, and no other task changes which requests are counted.  \<open>apply\<close> is the center,
  \<open>ids\<close> the requests it counts.
\<close>

definition counts_loads :: "(task \<Rightarrow> 'c \<Rightarrow> 'c) \<Rightarrow> ('c \<Rightarrow> json set) \<Rightarrow> bool" where
  "counts_loads apply ids \<longleftrightarrow>
     (\<forall>t x c. add_task t \<longrightarrow> task_id t = Some x \<longrightarrow> ids (apply t c) = insert x (ids c)) \<and>
     (\<forall>t x c. remove_task t \<longrightarrow> task_id t = Some x \<longrightarrow> ids (apply t c) = ids c - {x}) \<and>
     (\<forall>t c. \<not> load_task t \<longrightarrow> ids (apply t c) = ids c)"

text \<open>The center after the tasks the workers delivered.\<close>

definition center_after :: "(task \<Rightarrow> 'c \<Rightarrow> 'c) \<Rightarrow> 'c \<Rightarrow> outcome list \<Rightarrow> 'c" where
  "center_after apply c rs = foldl (\<lambda>c r. if o_error r = None then apply (o_task r) c else c) c rs"

lemma center_after_delivered:
  "\<forall>r \<in> set rs. o_error r = None \<Longrightarrow> center_after apply c rs = foldl (\<lambda>c t. apply t c) c (map o_task rs)"
  by (induction rs arbitrary: c) (simp_all add: center_after_def)

lemma counted_by_last:
  assumes "counts_loads apply ids" "\<forall>t \<in> set ts. load_task t \<longrightarrow> task_id t \<noteq> None"
  shows "x \<in> ids (foldl (\<lambda>c t. apply t c) c ts) \<longleftrightarrow>
    (if loads x ts = [] then x \<in> ids c else add_task (last (loads x ts)))"
  using assms(2)
proof (induction ts rule: rev_induct)
  case (snoc t ts)
  then have IH: "x \<in> ids (foldl (\<lambda>c t. apply t c) c ts) \<longleftrightarrow>
    (if loads x ts = [] then x \<in> ids c else add_task (last (loads x ts)))" by simp
  consider "\<not> load_task t" | y where "add_task t" "task_id t = Some y" | y where "remove_task t" "task_id t = Some y"
    using snoc.prems by (auto simp: load_task_def)
  then show ?case
  proof cases
    case 1
    with assms(1) IH show ?thesis by (simp add: counts_loads_def)
  next
    case (2 y)
    then have "ids (apply t c') = insert y (ids c')" for c' using assms(1) by (simp add: counts_loads_def)
    with 2 IH show ?thesis by (simp add: load_task_def)
  next
    case (3 y)
    then have "ids (apply t c') = ids c' - {y}" for c' using assms(1) by (simp add: counts_loads_def)
    with 3 IH show ?thesis by (auto simp: load_task_def dest: add_not_remove)
  qed
qed simp


text \<open>When no removal was refused and every request is over, the metadata center counts nothing.\<close>

lemma load_returns_to_nothing:
  assumes "\<And>i ph f tr. reqs i = Some (ph, f, tr) \<Longrightarrow> ph = Logged \<and> (\<forall>(t, ok) \<in> set tr. remove_task t \<longrightarrow> ok)"
  shows "{JStr (d_uuid (d i)) | i ph f tr. reqs i = Some (ph, f, tr) \<and> in_flight ph f tr} = {}"
  using assms by (fastforce simp: in_flight_def)

subsection \<open>A sample fleet\<close>

definition sample_fleet_deps :: "nat \<Rightarrow> (unit, async_queue \<times> trace) deps" where
  "sample_fleet_deps i = sample_queue_deps\<lparr>d_uuid := replicate (Suc i) CHR ''u''\<rparr>"

lemma sample_fleet_facts:
  "inj (\<lambda>i. d_uuid (sample_fleet_deps i))" "d_submit (sample_fleet_deps i) = traced (enqueue (\<lambda>_. None))"
  "sample_fleet_deps 0 = sample_queue_deps"
proof -
  have "replicate (Suc i) CHR ''u'' = replicate (Suc j) CHR ''u'' \<Longrightarrow> i = j" for i j
    by (metis Suc_inject length_replicate)
  then show "inj (\<lambda>i. d_uuid (sample_fleet_deps i))" by (auto simp: inj_def sample_fleet_deps_def)
qed (simp_all add: sample_fleet_deps_def sample_submit, simp add: sample_queue_deps_def sample_deps_on_def)

text \<open>A metadata center that keeps the ids and nothing else.\<close>

definition sample_center :: "task \<Rightarrow> json set \<Rightarrow> json set" where
  "sample_center t c =
     (case task_id t of
        None \<Rightarrow> c
      | Some x \<Rightarrow> if add_task t then insert x c else if remove_task t then c - {x} else c)"

lemma sample_center_counts: "counts_loads sample_center id"
  by (auto simp: counts_loads_def sample_center_def load_task_def dest: add_not_remove split: option.split)

lemma sample_fleet_run:
  "\<exists>f tr ts rs. fleet_run sample_queue_config (=) sample_fleet_deps ([0 \<mapsto> (Decoded, f, tr)], (), sample_drained ts rs) \<and>
     f_isIncreaseRecorded f \<and> (\<forall>r \<in> set rs. o_error r = None)"
proof -
  let ?run = "fleet_run sample_queue_config (=) sample_fleet_deps"
  let ?post = "inference_task ''POST'' MetaDataCenterLoadPath"
  have fresh: "sample_queue = sample_drained [] []" by (simp add: sample_drained_def sample_queue_def)
  from sample_decode_on [of "enqueue (\<lambda>_. None)" "sample_drained [] []" "\<lambda>r. snd (enqueue (\<lambda>_. None) (?post r) (sample_drained [] []))"]
  obtain f r where dec: "f_DecodeRequest sample_queue_deps 1 sample_filter () (sample_drained [] [], []) =
      Ret (Continue, f, (), snd (enqueue (\<lambda>_. None) (?post r) (sample_drained [] [])), [(?post r, True)])"
    and rec: "f_isIncreaseRecorded f"
    unfolding sample_queue_deps_def by (auto simp: sample_enqueue)
  let ?t = "with_timeout sample_queue_config (?post r)"
  let ?full = "snd (enqueue (\<lambda>_. None) (?post r) (sample_drained [] []))"
  have "NewAsyncQueue sample_queue_config = Ret sample_queue"
    by (simp add: NewAsyncQueue_def sample_queue_def sample_queue_config_def)
  from fleet_run.start [OF this] have "?run (Map.empty, (), sample_drained [] [])" by (simp add: fresh)
  from fleet_run.step [OF this fleet_step.arrive [of _ 0]]
  have "?run ([0 \<mapsto> (Fresh, sample_filter, [])], (), sample_drained [] [])" unfolding sample_filter_def by simp
  from fleet_run.step [OF this fleet_step.callback [where i = 0 and d = sample_fleet_deps, OF _ request_step.decode [OF dec [folded sample_fleet_facts(3)]]]]
  have run: "?run ([0 \<mapsto> (Decoded, f, [(?post r, True)])], (), ?full)" by simp
  have "workers ?full = [WIdle]" "tasks ?full = [?t]"
    by (simp_all add: sample_enqueue) (simp add: sample_drained_def sample_queue_def)
  then have take: "worker_step ?full (take_task 0 ?full)" by (intro worker_step.take_one) simp_all
  have "workers (take_task 0 ?full) = [WBusy ?t]"
    by (simp add: sample_enqueue take_task_def) (simp add: sample_drained_def sample_queue_def)
  then have finish: "worker_step (take_task 0 ?full) (finish_task (\<lambda>_. None) 0 ?t (take_task 0 ?full))"
    by (intro worker_step.finish_one) simp_all
  have "finish_task (\<lambda>_. None) 0 ?t (take_task 0 ?full) = sample_drained [?t] [run_task (\<lambda>_. None) sample_queue_config ?t]"
    by (simp add: sample_enqueue take_task_def finish_task_def) (simp add: sample_drained_def sample_queue_def)
  with fleet_run.step [OF fleet_run.step [OF run fleet_step.worker [OF take]] fleet_step.worker [OF finish]]
  have "?run ([0 \<mapsto> (Decoded, f, [(?post r, True)])], (), sample_drained [?t] [run_task (\<lambda>_. None) sample_queue_config ?t])" by simp
  moreover have "o_error (run_task (\<lambda>_. None) sample_queue_config ?t) = None"
    by (simp add: run_task_def attempt_loop_ok sample_queue_config_def)
  ultimately show ?thesis using rec by fastforce
qed


end
