(* ===== verification/ProcessStart.thy ===== *)
theory ProcessStart
  imports Startup CdsStreams MetadataCenter FilterHandlers
begin

text \<open>
  What happens between the loading of the shared object and the first request: the \<^verbatim>\<open>init\<close> functions of
  the packages (\<^verbatim>\<open>pkg/metadata_center/init.go\<close>, \<^verbatim>\<open>clustermanager/init.go\<close>, \<^verbatim>\<open>staticdemo/provider.go\<close>,
  \<^verbatim>\<open>inference_lb.go\<close>, \<^verbatim>\<open>transcoder/openai/openai.go\<close>, \<^verbatim>\<open>plugins/llmproxy/config.go\<close>,
  \<^verbatim>\<open>cmd/libgolang/init.go\<close>) and the globals they register for each other.  A panic in one of them
  ends the process.

  Go initialises a package after those it imports and leaves the rest of the order to the build; the order is an argument.
\<close>

subsection \<open>The globals\<close>

record globals =
  metadata_instance :: "(mc_client \<times> async_queue) option"
  metadata_service :: "breaker discovery option"
  static_clusters :: "static_cluster list"
  globalLoadBalancer :: "(static_provider \<times> inference_lb manager) option"
  cds_servers :: "(string \<times> cds_server) list"
  lb_types :: "inference_lb lb_factories"
  transcoders :: "string \<rightharpoonup> transcoder_factory"
  plugins :: "string list"
  http_servers :: process

definition RegisterMetadataCenter :: "mc_client \<times> async_queue \<Rightarrow> globals \<Rightarrow> globals" where
  "RegisterMetadataCenter mc g = g\<lparr>metadata_instance := Some mc\<rparr>"

definition GetMetadataCenter :: "globals \<Rightarrow> (mc_client \<times> async_queue) option" where
  "GetMetadataCenter g = metadata_instance g"

definition RegsiterService :: "breaker discovery \<Rightarrow> globals \<Rightarrow> globals" where
  "RegsiterService s g = g\<lparr>metadata_service := Some s\<rparr>"

definition RegisterGlobalLoadBalancer :: "static_provider \<times> inference_lb manager \<Rightarrow> globals \<Rightarrow> globals" where
  "RegisterGlobalLoadBalancer glb g = g\<lparr>globalLoadBalancer := Some glb\<rparr>"

definition GetGlobalLoadBalancer :: "globals \<Rightarrow> (static_provider \<times> inference_lb manager) option" where
  "GetGlobalLoadBalancer g = globalLoadBalancer g"

text \<open>
  What the process finds: its environment, the clock, which hosts are IP addresses, the file of clusters, which addresses it can
  listen at, and which of the two HTTP servers comes first.
\<close>

record surroundings =
  s_env :: environment
  s_now :: go_time
  s_is_ip :: "string \<Rightarrow> bool"
  s_file :: "string + (string + string)"
  s_unmarshal :: "string \<Rightarrow> static_cluster list \<Rightarrow> string option \<times> static_cluster list"
  s_bind :: "string \<Rightarrow> string option"
  s_pprof_first :: bool

subsection \<open>The packages\<close>

text \<open>
  The HTTP servers listen in goroutines of their own; the order of the packages is that in which the
  addresses are taken.
\<close>

text \<open>
  The default metadata center and its service discovery.  The client reads the port of the service at each
  request; it is that of the environment.
\<close>

definition metadata_center_init :: "surroundings \<Rightarrow> globals \<Rightarrow> globals run" where
  "metadata_center_init s g =
     run_bind (NewMetaCenter (s_env s) (GetIntFromEnv (s_env s) ''AIGW_META_DATA_CENTER_PORT'' 80)) (\<lambda>mc.
       (let g = RegisterMetadataCenter mc g in
        run_bind (CreateSimpleService (s_env s) (s_is_ip s) (s_now s) Map.empty) (\<lambda>svc.
          Ret (RegsiterService svc g))))"

definition defaultCdsAddress :: string where "defaultCdsAddress = ''127.0.0.1:9999''"

definition startCdsServer :: "(string \<Rightarrow> string option) \<Rightarrow> string \<Rightarrow> globals \<Rightarrow> globals" where
  "startCdsServer bind address g =
     (case (if address \<in> fst ` set (p_servers (http_servers g)) then Some ''address already in use'' else bind address) of
        Some err \<Rightarrow> g
      | None \<Rightarrow> g\<lparr>cds_servers := cds_servers g @ [(address, NewCDSServer)]\<rparr>)"

definition clustermanager_init :: "surroundings \<Rightarrow> globals \<Rightarrow> globals" where
  "clustermanager_init s g =
     (let clusterProvider = NewStaticClusterProvider (static_clusters g);
          g = startCdsServer (s_bind s) defaultCdsAddress g
      in RegisterGlobalLoadBalancer (clusterProvider, NewClusterManager) g)"

definition llmproxy_init :: "globals \<Rightarrow> globals" where
  "llmproxy_init g = g\<lparr>plugins := plugins g @ [''llmproxy'']\<rparr>"

datatype package = StaticDemo | ClusterManagerPkg | MetadataCenterPkg | InferenceLbPkg | OpenAiPkg | LlmProxyPkg | LibGolang

text \<open>There are finitely many packages, so an order of them can be checked by evaluation.\<close>

instantiation package :: enum
begin

definition
  "Enum.enum = [StaticDemo, ClusterManagerPkg, MetadataCenterPkg, InferenceLbPkg, OpenAiPkg, LlmProxyPkg, LibGolang]"

definition "Enum.enum_all P \<longleftrightarrow> list_all P (Enum.enum :: package list)"

definition "Enum.enum_ex P \<longleftrightarrow> list_ex P (Enum.enum :: package list)"

instance
proof
  have all: "p \<in> set Enum.enum" for p :: package by (cases p) (simp_all add: enum_package_def)
  then show "UNIV = set (Enum.enum :: package list)" by auto
  show "distinct (Enum.enum :: package list)" by (simp add: enum_package_def)
  show "Enum.enum_all P \<longleftrightarrow> Ball UNIV P" for P :: "package \<Rightarrow> bool"
    using all by (auto simp: enum_all_package_def list_all_iff)
  show "Enum.enum_ex P \<longleftrightarrow> Bex UNIV P" for P :: "package \<Rightarrow> bool"
    using all by (auto simp: enum_ex_package_def list_ex_iff)
qed

end

fun package_init :: "surroundings \<Rightarrow> package \<Rightarrow> globals \<Rightarrow> globals run" where
  "package_init s StaticDemo g = Ret (g\<lparr>static_clusters := init_clusters (s_file s) (s_unmarshal s)\<rparr>)"
| "package_init s ClusterManagerPkg g = Ret (clustermanager_init s g)"
| "package_init s MetadataCenterPkg g = metadata_center_init s g"
| "package_init s InferenceLbPkg g = Ret (g\<lparr>lb_types := RegisterLbType ''inference_lb'' InferenceLoadBalancerFactory (lb_types g)\<rparr>)"
| "package_init s OpenAiPkg g = Ret (g\<lparr>transcoders := RegisterTranscoderFactory ''openai'' NewOpenAITranscoder (transcoders g)\<rparr>)"
| "package_init s LlmProxyPkg g = Ret (llmproxy_init g)"
| "package_init s LibGolang g = Ret (g\<lparr>http_servers := init_servers (s_pprof_first s) (s_env s)
       (\<lambda>a. if a \<in> fst ` set (cds_servers g) then Some ''address already in use'' else s_bind s a)\<rparr>)"

definition no_globals :: globals where
  "no_globals = \<lparr>metadata_instance = None, metadata_service = None, static_clusters = [], globalLoadBalancer = None,
     cds_servers = [], lb_types = Map.empty, transcoders = Map.empty, plugins = [],
     http_servers = \<lparr>p_servers = [], p_logs = []\<rparr>\<rparr>"

fun process_start :: "surroundings \<Rightarrow> package list \<Rightarrow> globals \<Rightarrow> globals run" where
  "process_start s [] g = Ret g"
| "process_start s (p # ps) g = run_bind (package_init s p g) (process_start s ps)"

text \<open>An order the build may choose: every package once, and the clusters before the cluster manager, which imports them.\<close>

definition build_order :: "package list \<Rightarrow> bool" where
  "build_order ps \<longleftrightarrow> distinct ps \<and> (\<forall>p. p \<in> set ps) \<and> StaticDemo \<in> set (takeWhile (\<lambda>p. p \<noteq> ClusterManagerPkg) ps)"

lemma build_order_clusters_first:
  assumes "build_order ps" "ps = before @ ClusterManagerPkg # behind"
  shows "StaticDemo \<in> set before"
proof -
  from assms have "takeWhile (\<lambda>p. p \<noteq> ClusterManagerPkg) ps = before"
    by (auto simp: build_order_def takeWhile_append)
  with assms(1) show ?thesis by (simp add: build_order_def)
qed

subsection \<open>Whether the process comes up\<close>

text \<open>
  The environment lets the queue be made (no negative size, no negative number of workers), and a metadata
  center that is named, not numbered, is looked up at a positive interval.
\<close>

definition queue_can_be_made :: "environment \<Rightarrow> bool" where
  "queue_can_be_made env \<longleftrightarrow>
     0 \<le> GetIntFromEnv env ''AIGW_METADATA_CENTER_QUEUE_SIZE'' 1000 \<and>
     0 \<le> GetIntFromEnv env ''AIGW_METADATA_CENTER_WORKER_COUNT'' 100"

definition lookups_can_tick :: "environment \<Rightarrow> (string \<Rightarrow> bool) \<Rightarrow> bool" where
  "lookups_can_tick env is_ip \<longleftrightarrow>
     env ''AIGW_META_DATA_CENTER_HOST'' = [] \<or> is_ip (env ''AIGW_META_DATA_CENTER_HOST'') \<or>
     0 < GetDurationFromEnv env ''AIGW_META_DATA_CENTER_DNS_LOOKUP_INTERVAL'' (5 * 10 ^ 9)"

text \<open>What the globals hold once the packages of \<open>S\<close> are initialised.\<close>

definition registered :: "surroundings \<Rightarrow> package set \<Rightarrow> globals \<Rightarrow> bool" where
  "registered s S g \<longleftrightarrow>
     (MetadataCenterPkg \<in> S \<longrightarrow> (\<exists>mc svc. GetMetadataCenter g = Some mc \<and> metadata_service g = Some svc \<and>
        NewMetaCenter (s_env s) (GetIntFromEnv (s_env s) ''AIGW_META_DATA_CENTER_PORT'' 80) = Ret mc \<and>
        CreateSimpleService (s_env s) (s_is_ip s) (s_now s) Map.empty = Ret svc)) \<and>
     (StaticDemo \<in> S \<longrightarrow> static_clusters g = init_clusters (s_file s) (s_unmarshal s)) \<and>
     (ClusterManagerPkg \<in> S \<longrightarrow> GetGlobalLoadBalancer g =
        Some (NewStaticClusterProvider (init_clusters (s_file s) (s_unmarshal s)), NewClusterManager)) \<and>
     lb_types g = (if InferenceLbPkg \<in> S then inference_factories else Map.empty) \<and>
     transcoders g = (if OpenAiPkg \<in> S then transcoderFactories else Map.empty) \<and>
     plugins g = (if LlmProxyPkg \<in> S then [''llmproxy''] else [])"

lemma NewMetaCenter_outcome:
  "NewMetaCenter env port = Panic \<longleftrightarrow> \<not> queue_can_be_made env"
  by (auto simp: NewMetaCenter_def NewAsyncQueue_def queue_can_be_made_def Let_def)

lemma CreateSimpleService_outcome:
  "CreateSimpleService env is_ip now g = Panic \<longleftrightarrow> \<not> lookups_can_tick env is_ip"
  by (auto simp: CreateSimpleService_def NewSimpleService_def StartDNSLoop_def lookups_can_tick_def Let_def)

lemma run_bind_eq_Panic:
  "run_bind r f = Panic \<longleftrightarrow> r = Panic \<or> (\<exists>x. r = Ret x \<and> f x = Panic)"
  by (cases r) auto

lemma metadata_center_init_outcome:
  "metadata_center_init s g = Panic \<longleftrightarrow> \<not> (queue_can_be_made (s_env s) \<and> lookups_can_tick (s_env s) (s_is_ip s))"
proof (cases "NewMetaCenter (s_env s) (GetIntFromEnv (s_env s) ''AIGW_META_DATA_CENTER_PORT'' 80)")
  case (Ret mc)
  then have "queue_can_be_made (s_env s)" using NewMetaCenter_outcome by (metis run.distinct(1))
  then show ?thesis
    by (simp add: metadata_center_init_def Ret Let_def run_bind_eq_Panic CreateSimpleService_outcome)
next
  case Panic
  then have "\<not> queue_can_be_made (s_env s)" using NewMetaCenter_outcome by blast
  then show ?thesis by (simp add: metadata_center_init_def Panic)
qed

lemma package_init_panics:
  "package_init s p g = Panic \<longleftrightarrow>
     p = MetadataCenterPkg \<and> \<not> (queue_can_be_made (s_env s) \<and> lookups_can_tick (s_env s) (s_is_ip s))"
  by (cases p) (simp_all add: metadata_center_init_outcome)

lemmas registration_defs = RegisterMetadataCenter_def RegsiterService_def GetMetadataCenter_def
  RegisterGlobalLoadBalancer_def GetGlobalLoadBalancer_def metadata_center_init_def clustermanager_init_def
  startCdsServer_def llmproxy_init_def inference_factories_def transcoderFactories_def

lemma metadata_center_init_registers:
  assumes "registered s S g" "metadata_center_init s g = Ret g'"
  shows "registered s (insert MetadataCenterPkg S) g'"
proof -
  obtain mc svc where
      "NewMetaCenter (s_env s) (GetIntFromEnv (s_env s) ''AIGW_META_DATA_CENTER_PORT'' 80) = Ret mc"
      "CreateSimpleService (s_env s) (s_is_ip s) (s_now s) Map.empty = Ret svc"
      "g' = RegsiterService svc (RegisterMetadataCenter mc g)"
    using assms(2) by (simp only: metadata_center_init_def run_bind_eq_Ret Let_def) auto
  then show ?thesis
    using assms(1) by (simp add: registered_def registration_defs)
qed

lemma clustermanager_init_registers:
  assumes "registered s S g" "StaticDemo \<in> S"
  shows "registered s (insert ClusterManagerPkg S) (clustermanager_init s g)"
  using assms by (cases "s_bind s defaultCdsAddress") (simp_all add: registered_def registration_defs Let_def)

lemma package_init_registers:
  assumes "registered s S g" "package_init s p g = Ret g'" "p \<notin> S" "p = ClusterManagerPkg \<Longrightarrow> StaticDemo \<in> S"
  shows "registered s (insert p S) g'"
proof (cases p)
  case MetadataCenterPkg
  then show ?thesis using assms(1,2) by (simp add: metadata_center_init_registers)
next
  case ClusterManagerPkg
  then show ?thesis using assms(1,2,4) clustermanager_init_registers by auto
next
  case StaticDemo
  then show ?thesis using assms(1,2) by (auto simp: registered_def GetMetadataCenter_def GetGlobalLoadBalancer_def)
next
  case InferenceLbPkg
  then show ?thesis using assms(1-3)
    by (auto simp: registered_def GetMetadataCenter_def GetGlobalLoadBalancer_def inference_factories_def)
next
  case OpenAiPkg
  then show ?thesis using assms(1-3)
    by (auto simp: registered_def GetMetadataCenter_def GetGlobalLoadBalancer_def transcoderFactories_def)
next
  case LlmProxyPkg
  then show ?thesis using assms(1-3)
    by (auto simp: registered_def GetMetadataCenter_def GetGlobalLoadBalancer_def llmproxy_init_def)
next
  case LibGolang
  then show ?thesis using assms(1,2) by (auto simp: registered_def GetMetadataCenter_def GetGlobalLoadBalancer_def)
qed

lemma process_start_runs:
  assumes "registered s S g" "distinct ps" "S \<inter> set ps = {}"
    and "\<forall>before behind. ps = before @ ClusterManagerPkg # behind \<longrightarrow> StaticDemo \<in> S \<union> set before"
  shows "if MetadataCenterPkg \<in> set ps \<and> \<not> (queue_can_be_made (s_env s) \<and> lookups_can_tick (s_env s) (s_is_ip s))
         then process_start s ps g = Panic
         else (\<exists>g'. process_start s ps g = Ret g' \<and> registered s (S \<union> set ps) g')"
  using assms
proof (induction ps arbitrary: S g)
  case (Cons p ps)
  show ?case
  proof (cases "package_init s p g")
    case (Ret g1)
    have first: "StaticDemo \<in> S" if "p = ClusterManagerPkg"
      using Cons.prems(4) [rule_format, of "[]" ps] that by simp
    have reg: "registered s (insert p S) g1"
      using package_init_registers [OF Cons.prems(1) Ret] Cons.prems(3) first by auto
    have later: "\<forall>before behind. ps = before @ ClusterManagerPkg # behind \<longrightarrow> StaticDemo \<in> insert p S \<union> set before"
      using Cons.prems(4) [rule_format, of "p # before" for before] by auto
    have good: "p = MetadataCenterPkg \<Longrightarrow> queue_can_be_made (s_env s) \<and> lookups_can_tick (s_env s) (s_is_ip s)"
      using package_init_panics [of s p g] Ret by auto
    show ?thesis
      using Cons.IH [OF reg _ _ later] Cons.prems(2,3) Ret good by (auto split: if_splits)
  next
    case Panic
    then show ?thesis using package_init_panics [of s p g] by auto
  qed
qed simp


text \<open>With a name for the metadata center and no interval between lookups the process does not come up.\<close>

definition sample_order :: "package list" where
  "sample_order = [InferenceLbPkg, StaticDemo, OpenAiPkg, ClusterManagerPkg, MetadataCenterPkg, LlmProxyPkg, LibGolang]"

definition sample_surroundings :: "string \<Rightarrow> surroundings" where
  "sample_surroundings interval = \<lparr>
     s_env = (\<lambda>v. if v = ''AIGW_META_DATA_CENTER_HOST'' then ''metadata'' else
                 if v = ''AIGW_META_DATA_CENTER_DNS_LOOKUP_INTERVAL'' then interval else []),
     s_now = 0, s_is_ip = (\<lambda>h. False), s_file = Inl ''no such file'', s_unmarshal = (\<lambda>d c. (None, c)),
     s_bind = (\<lambda>a. None), s_pprof_first = True\<rparr>"


end
