(* ===== verification/ValidationErrors.thy ===== *)
theory ValidationErrors
  imports ConfigValidator
begin

text \<open>
  The error types of \<^verbatim>\<open>plugins/llmproxy/config/config.pb.validate.go\<close> and
  \<^verbatim>\<open>plugins/api/v1/header.pb.validate.go\<close>, one pair for each message: the violation of a field,
  with its \<open>Error\<close> and \<open>ErrorName\<close>, and the list of violations.  The validators of \<open>ConfigValidator\<close>
  build their errors under the name of the message; a name selects the pair of types here.
\<close>

subsection \<open>The types\<close>

text \<open>The fields of every one of them; the cause, an error of any type, by the text it prints as.\<close>

record field_error =
  fe_field :: string
  fe_reason :: string
  fe_cause :: "string option"
  fe_key :: bool

definition ConfigValidationError_Error :: "field_error \<Rightarrow> string" where
  "ConfigValidationError_Error e =
     (let cause = (case fe_cause e of None \<Rightarrow> [] | Some c \<Rightarrow> '' | caused by: '' @ c);
          key = (if fe_key e then ''key for '' else [])
      in ''invalid '' @ key @ ''Config.'' @ fe_field e @ '': '' @ fe_reason e @ cause)"

definition ConfigValidationError_ErrorName :: string where "ConfigValidationError_ErrorName = ''ConfigValidationError''"

definition ConfigMultiError_Error :: "string list \<Rightarrow> string" where
  "ConfigMultiError_Error m = (let msgs = foldl (\<lambda>msgs err. msgs @ [err]) [] m in join ''; '' msgs)"

definition RulesValidationError_Error :: "field_error \<Rightarrow> string" where
  "RulesValidationError_Error e =
     (let cause = (case fe_cause e of None \<Rightarrow> [] | Some c \<Rightarrow> '' | caused by: '' @ c);
          key = (if fe_key e then ''key for '' else [])
      in ''invalid '' @ key @ ''Rules.'' @ fe_field e @ '': '' @ fe_reason e @ cause)"

definition RulesValidationError_ErrorName :: string where "RulesValidationError_ErrorName = ''RulesValidationError''"

definition RulesMultiError_Error :: "string list \<Rightarrow> string" where
  "RulesMultiError_Error m = (let msgs = foldl (\<lambda>msgs err. msgs @ [err]) [] m in join ''; '' msgs)"

definition LBConfigValidationError_Error :: "field_error \<Rightarrow> string" where
  "LBConfigValidationError_Error e =
     (let cause = (case fe_cause e of None \<Rightarrow> [] | Some c \<Rightarrow> '' | caused by: '' @ c);
          key = (if fe_key e then ''key for '' else [])
      in ''invalid '' @ key @ ''LBConfig.'' @ fe_field e @ '': '' @ fe_reason e @ cause)"

definition LBConfigValidationError_ErrorName :: string where "LBConfigValidationError_ErrorName = ''LBConfigValidationError''"

definition LBConfigMultiError_Error :: "string list \<Rightarrow> string" where
  "LBConfigMultiError_Error m = (let msgs = foldl (\<lambda>msgs err. msgs @ [err]) [] m in join ''; '' msgs)"

definition RuleValidationError_Error :: "field_error \<Rightarrow> string" where
  "RuleValidationError_Error e =
     (let cause = (case fe_cause e of None \<Rightarrow> [] | Some c \<Rightarrow> '' | caused by: '' @ c);
          key = (if fe_key e then ''key for '' else [])
      in ''invalid '' @ key @ ''Rule.'' @ fe_field e @ '': '' @ fe_reason e @ cause)"

definition RuleValidationError_ErrorName :: string where "RuleValidationError_ErrorName = ''RuleValidationError''"

definition RuleMultiError_Error :: "string list \<Rightarrow> string" where
  "RuleMultiError_Error m = (let msgs = foldl (\<lambda>msgs err. msgs @ [err]) [] m in join ''; '' msgs)"

definition SubsetValidationError_Error :: "field_error \<Rightarrow> string" where
  "SubsetValidationError_Error e =
     (let cause = (case fe_cause e of None \<Rightarrow> [] | Some c \<Rightarrow> '' | caused by: '' @ c);
          key = (if fe_key e then ''key for '' else [])
      in ''invalid '' @ key @ ''Subset.'' @ fe_field e @ '': '' @ fe_reason e @ cause)"

definition SubsetValidationError_ErrorName :: string where "SubsetValidationError_ErrorName = ''SubsetValidationError''"

definition SubsetMultiError_Error :: "string list \<Rightarrow> string" where
  "SubsetMultiError_Error m = (let msgs = foldl (\<lambda>msgs err. msgs @ [err]) [] m in join ''; '' msgs)"

definition LogConfigValidationError_Error :: "field_error \<Rightarrow> string" where
  "LogConfigValidationError_Error e =
     (let cause = (case fe_cause e of None \<Rightarrow> [] | Some c \<Rightarrow> '' | caused by: '' @ c);
          key = (if fe_key e then ''key for '' else [])
      in ''invalid '' @ key @ ''LogConfig.'' @ fe_field e @ '': '' @ fe_reason e @ cause)"

definition LogConfigValidationError_ErrorName :: string where "LogConfigValidationError_ErrorName = ''LogConfigValidationError''"

definition LogConfigMultiError_Error :: "string list \<Rightarrow> string" where
  "LogConfigMultiError_Error m = (let msgs = foldl (\<lambda>msgs err. msgs @ [err]) [] m in join ''; '' msgs)"

definition HeaderValueValidationError_Error :: "field_error \<Rightarrow> string" where
  "HeaderValueValidationError_Error e =
     (let cause = (case fe_cause e of None \<Rightarrow> [] | Some c \<Rightarrow> '' | caused by: '' @ c);
          key = (if fe_key e then ''key for '' else [])
      in ''invalid '' @ key @ ''HeaderValue.'' @ fe_field e @ '': '' @ fe_reason e @ cause)"

definition HeaderValueValidationError_ErrorName :: string where "HeaderValueValidationError_ErrorName = ''HeaderValueValidationError''"

definition HeaderValueMultiError_Error :: "string list \<Rightarrow> string" where
  "HeaderValueMultiError_Error m = (let msgs = foldl (\<lambda>msgs err. msgs @ [err]) [] m in join ''; '' msgs)"

subsection \<open>The text of an error\<close>

text \<open>The methods the dynamic type of an error selects.\<close>

datatype message = ConfigMsg | RulesMsg | LBConfigMsg | RuleMsg | SubsetMsg | LogConfigMsg | HeaderValueMsg

fun message_name :: "message \<Rightarrow> string" where
  "message_name ConfigMsg = ''Config''"
| "message_name RulesMsg = ''Rules''"
| "message_name LBConfigMsg = ''LBConfig''"
| "message_name RuleMsg = ''Rule''"
| "message_name SubsetMsg = ''Subset''"
| "message_name LogConfigMsg = ''LogConfig''"
| "message_name HeaderValueMsg = ''HeaderValue''"

fun violation_text :: "message \<Rightarrow> field_error \<Rightarrow> string" where
  "violation_text ConfigMsg = ConfigValidationError_Error"
| "violation_text RulesMsg = RulesValidationError_Error"
| "violation_text LBConfigMsg = LBConfigValidationError_Error"
| "violation_text RuleMsg = RuleValidationError_Error"
| "violation_text SubsetMsg = SubsetValidationError_Error"
| "violation_text LogConfigMsg = LogConfigValidationError_Error"
| "violation_text HeaderValueMsg = HeaderValueValidationError_Error"

fun violation_name :: "message \<Rightarrow> string" where
  "violation_name ConfigMsg = ConfigValidationError_ErrorName"
| "violation_name RulesMsg = RulesValidationError_ErrorName"
| "violation_name LBConfigMsg = LBConfigValidationError_ErrorName"
| "violation_name RuleMsg = RuleValidationError_ErrorName"
| "violation_name SubsetMsg = SubsetValidationError_ErrorName"
| "violation_name LogConfigMsg = LogConfigValidationError_ErrorName"
| "violation_name HeaderValueMsg = HeaderValueValidationError_ErrorName"

fun multi_text :: "message \<Rightarrow> string list \<Rightarrow> string" where
  "multi_text ConfigMsg = ConfigMultiError_Error"
| "multi_text RulesMsg = RulesMultiError_Error"
| "multi_text LBConfigMsg = LBConfigMultiError_Error"
| "multi_text RuleMsg = RuleMultiError_Error"
| "multi_text SubsetMsg = SubsetMultiError_Error"
| "multi_text LogConfigMsg = LogConfigMultiError_Error"
| "multi_text HeaderValueMsg = HeaderValueMultiError_Error"

text \<open>The errors of the Go program, whose type is that of a message.\<close>

datatype go_error =
    Violation message string string "go_error option" bool
  | Violations message "go_error list"

fun Error_text :: "go_error \<Rightarrow> string" where
  "Error_text (Violation m field reason cause key) =
     violation_text m \<lparr>fe_field = field, fe_reason = reason, fe_cause = map_option Error_text cause, fe_key = key\<rparr>"
| "Error_text (Violations m es) = multi_text m (map Error_text es)"

text \<open>What a validator answered, by the names it carries.\<close>

inductive answered :: "validation_error \<Rightarrow> go_error \<Rightarrow> bool" where
  lone: "answered (VError (message_name m) field reason None) (Violation m field reason None False)"
| caused: "answered c c' \<Longrightarrow>
     answered (VError (message_name m) field reason (Some c)) (Violation m field reason (Some c') False)"
| all: "list_all2 answered es es' \<Longrightarrow> answered (VMulti (message_name m) es) (Violations m es')"
monos list.rel_mono_strong

lemma message_texts:
  "violation_text m e = ''invalid '' @ (if fe_key e then ''key for '' else []) @ message_name m @ ''.'' @ fe_field e @
     '': '' @ fe_reason e @ (case fe_cause e of None \<Rightarrow> [] | Some c \<Rightarrow> '' | caused by: '' @ c)"
  by (cases m) (simp_all add: ConfigValidationError_Error_def RulesValidationError_Error_def
      LBConfigValidationError_Error_def RuleValidationError_Error_def SubsetValidationError_Error_def
      LogConfigValidationError_Error_def HeaderValueValidationError_Error_def Let_def)

lemma collect_all: "foldl (\<lambda>msgs err. msgs @ [err]) acc errs = acc @ errs"
  by (induction errs arbitrary: acc) auto

lemma multi_texts: "multi_text m texts = join ''; '' texts"
  by (cases m) (simp_all add: ConfigMultiError_Error_def RulesMultiError_Error_def LBConfigMultiError_Error_def
      RuleMultiError_Error_def SubsetMultiError_Error_def LogConfigMultiError_Error_def
      HeaderValueMultiError_Error_def collect_all)

lemma answered_text: "answered e g \<Longrightarrow> Error_text g = validation_text e"
proof (induction rule: answered.induct)
  case (all es es' m)
  then have "map Error_text es' = map validation_text es" by (induction rule: list_all2_induct) auto
  then show ?case by (simp add: multi_texts)
qed (simp_all add: message_texts)

subsection \<open>What the validators answer\<close>

definition typed :: "message \<Rightarrow> validation_error \<Rightarrow> bool" where
  "typed m e \<longleftrightarrow> (\<exists>g. answered e g \<and> (case g of Violation m' _ _ _ _ \<Rightarrow> m' = m | Violations m' _ \<Rightarrow> m' = m))"

definition all_typed :: "message \<Rightarrow> validation_error + validation_error list \<Rightarrow> bool" where
  "all_typed m r = (case r of Inl e \<Rightarrow> typed m e | Inr es \<Rightarrow> list_all (typed m) es)"

lemma typed_lone: "typed m (VError (message_name m) field reason None)"
  using answered.lone [of m field reason] by (force simp: typed_def)

lemma typed_caused: "typed m' c \<Longrightarrow> typed m (VError (message_name m) field reason (Some c))"
  by (force simp: typed_def intro: answered.caused)

lemma all_typed_report: "typed m e \<Longrightarrow> list_all (typed m) es \<Longrightarrow> all_typed m (report full bad e es)"
  by (simp add: report_def all_typed_def)

lemma all_typed_and_then:
  "all_typed m r \<Longrightarrow> (\<And>es. list_all (typed m) es \<Longrightarrow> all_typed m (k es)) \<Longrightarrow> all_typed m (and_then r k)"
  by (cases r) (simp_all add: and_then_def all_typed_def [of m r] del: split_paired_All, simp add: all_typed_def)

lemma all_typed_embedded:
  assumes "\<And>c. result = Some c \<Longrightarrow> typed m' c" "list_all (typed m) es"
  shows "all_typed m (embedded full (message_name m) field result es)"
  using assms typed_caused by (auto simp: embedded_def all_typed_def report_def split: option.splits)

lemma all_typed_items:
  assumes "\<And>x c. v x = Some c \<Longrightarrow> typed m' c" "list_all (typed m) es"
  shows "all_typed m (embedded_items full (message_name m) field v i xs es)"
  using assms(2)
proof (induction xs arbitrary: i es)
  case (Cons x xs)
  then show ?case
    by (auto intro!: all_typed_and_then all_typed_embedded dest: assms(1))
qed (simp add: all_typed_def)

lemma all_typed_keys:
  assumes "\<And>x c. v x = Some c \<Longrightarrow> typed m' c" "list_all (typed m) es"
  shows "all_typed m (embedded_keys full (message_name m) field v mp ks es)"
  using assms(2)
proof (induction ks arbitrary: es)
  case (Cons key ks)
  then show ?case
    by (auto intro!: all_typed_and_then all_typed_embedded dest: assms(1) simp: bind_eq_Some_conv)
qed (simp add: all_typed_def)

lemma typed_finish:
  assumes "all_typed m r" "finish (message_name m) r = Some e"
  shows "typed m e"
proof (cases r)
  case (Inr es)
  with assms have es: "list_all (typed m) es" and e: "e = VMulti (message_name m) es"
    by (auto simp: finish_def all_typed_def split: if_splits)
  have "\<exists>gs. list_all2 answered es gs"
    using es by (induction es) (auto simp: typed_def)
  then obtain gs where "answered e (Violations m gs)" unfolding e by (blast intro: answered.all)
  then show ?thesis by (force simp: typed_def)
qed (use assms in \<open>auto simp: finish_def all_typed_def\<close>)

lemma typed_header: "validate_header full h = Some e \<Longrightarrow> typed HeaderValueMsg e"
  unfolding validate_header_def Let_def
  by (erule typed_finish [of HeaderValueMsg, simplified, rotated])
    (intro all_typed_and_then all_typed_report typed_lone [of HeaderValueMsg, simplified]; simp)

lemma typed_rule: "validate_rule full r = Some e \<Longrightarrow> typed RuleMsg e"
  unfolding validate_rule_def Let_def
  by (erule typed_finish [of RuleMsg, simplified, rotated])
    (intro all_typed_and_then all_typed_report typed_lone [of RuleMsg, simplified]
       all_typed_items [where m' = HeaderValueMsg and m = RuleMsg, simplified]
       all_typed_items [where m' = SubsetMsg and m = RuleMsg, simplified];
     simp add: typed_header validate_subset_def finish_def)

lemma typed_rules: "validate_rules full rs = Some e \<Longrightarrow> typed RulesMsg e"
  unfolding validate_rules_def
  by (erule typed_finish [of RulesMsg, simplified, rotated])
    (intro all_typed_and_then all_typed_report typed_lone [of RulesMsg, simplified]
       all_typed_items [where m' = RuleMsg and m = RulesMsg, simplified]; simp add: typed_rule)

lemma typed_lb_config: "validate_lb_config full c = Some e \<Longrightarrow> typed LBConfigMsg e"
  unfolding validate_lb_config_def Let_def
  by (erule typed_finish [of LBConfigMsg, simplified, rotated])
    (intro all_typed_report typed_lone [of LBConfigMsg, simplified]; simp)

lemma typed_config: "validate_config sorter full c = Some e \<Longrightarrow> typed ConfigMsg e"
  unfolding validate_config_def Let_def
  by (erule typed_finish [of ConfigMsg, simplified, rotated])
    (intro all_typed_and_then all_typed_report typed_lone [of ConfigMsg, simplified]
       all_typed_embedded [where m' = LogConfigMsg and m = ConfigMsg, simplified]
       all_typed_keys [where m' = RulesMsg and m = ConfigMsg, simplified]
       all_typed_keys [where m' = LBConfigMsg and m = ConfigMsg, simplified];
     auto simp: typed_rules typed_lb_config validate_log_def finish_def bind_eq_Some_conv)

text \<open>
  A configuration that is refused is refused with an error of the types above, the one of \<open>Config\<close>, and
  that error prints as the validators' text.
\<close>

lemma refusal_printed:
  assumes "Validate sorter c = Some e \<or> ValidateAll sorter c = Some e"
  shows "\<exists>g. answered e g \<and> Error_text g = validation_text e \<and>
           (case g of Violation m _ _ _ _ \<Rightarrow> m = ConfigMsg | Violations m _ \<Rightarrow> m = ConfigMsg)"
  using assms typed_config answered_text by (fastforce simp: Validate_def ValidateAll_def typed_def)

end
