(* ===== verification/Spec2Isabelle.thy ===== *)
theory Spec2Isabelle
  imports ErrCode CircuitBreaker ServiceDiscovery AsyncRequest MetadataCenter
    RlsAlgebra TpotRls TpotPrediction TtftPrediction MetricsStats
    GoSort LlmConfig Request LbHost InferenceLb ClusterManager Discovery
    ConfigValidator CdsStreams LlmLog AsyncLog CacheHash CommonTranscoder OpenAiTranscoder
    ProxyFilter FilterHandlers FilterLifecycle FilterOutcomes Gateway
    QueueOrder RequestQueue PromptRace ContextTypes Degradation ClusterRace Startup PromMetrics
    DiscoveryRuns TaskDelivery FilterStream FleetLoad ProcessStart ValidationErrors
begin

text \<open>
  A verification development of the AI gateway (github.com/aigw-project/aigw): a plugin of Envoy,
  written in Go, that reads OpenAI chat requests, routes each by its model to a cluster of inference
  servers, chooses a server by its load and by what its cache holds, and converts the answer.

  \<^bold>\<open>The program and its parts.\<close>  A request enters the HTTP filter
  (\<^verbatim>\<open>plugins/llmproxy/filter.go\<close>).  The transcoder reads it and finds the rule of its model
  (\<^verbatim>\<open>transcoder/openai\<close>, \<^verbatim>\<open>config/config.go\<close>); the prompt is hashed by chunks
  (\<^verbatim>\<open>cache_hash.go\<close>); the cluster manager of the rule's cluster asks its load balancer for a
  host (\<^verbatim>\<open>pkg/aigateway/clustermanager\<close>, \<^verbatim>\<open>loadbalancer\<close>); the balancer asks the metadata
  center for load and cache statistics (\<^verbatim>\<open>pkg/metadata_center\<close>).  The filter counts the request at
  the metadata center through the asynchronous queue (\<^verbatim>\<open>pkg/async_request\<close>) and takes it back
  when it ends.  The metadata center client fails over between the hosts of its service discovery,
  each guarded by a circuit breaker (\<^verbatim>\<open>pkg/metadata_center/servicediscovery\<close>,
  \<^verbatim>\<open>pkg/circuitbreaker\<close>).  Times to the first token are predicted by recursive least squares
  (\<^verbatim>\<open>pkg/metrics_stats\<close>, \<^verbatim>\<open>pkg/prediction\<close>) and arm the timer that takes the prompt back.
  Clusters come from a static provider, which also announces them to Envoy
  (\<^verbatim>\<open>pkg/aigateway/discovery\<close>).

  \<^bold>\<open>The theories\<close>, in the order they build on each other.

  \<^item> \<open>Prelude\<close>, \<open>GoStd\<close>, \<open>GoSort\<close>: panics, 64-bit integers, time, slices; the functions
    of Go's standard library the code uses, on bytes; the contract of \<^verbatim>\<open>sort.Slice\<close> as the
    locale \<open>slice_sorter\<close>, interpreted on the insertion sort the library uses on short slices.
  \<^item> \<open>Common\<close>, \<open>ErrCode\<close>, \<open>Request\<close>: \<^verbatim>\<open>pkg/common\<close>, \<^verbatim>\<open>pkg/errcode\<close> and the local
    replies, \<^verbatim>\<open>pkg/request\<close> and \<^verbatim>\<open>pkg/trace\<close>.
  \<^item> \<open>CircuitBreaker\<close>: the breaker, its refinement of a three-phase automaton and what follows:
    when it trips, what it denies, how it recovers.
  \<^item> \<open>AsyncRequest\<close>: queue, workers and shutdown as a step relation with its invariant; the
    interface to the client is the locale \<open>task_sink\<close>.  \<open>QueueOrder\<close>: the queue refines a bounded
    queue whose workers finish one of its oldest tasks, and comes to rest.
  \<^item> \<open>ServiceDiscovery\<close>: the node map, lookups, host selection by the request's hash key, and the
    breakers' part in it.  \<open>DiscoveryRuns\<close>: the discovery over time, where the breaker of each host is on
    its own and a host that failed stays out.
  \<^item> \<open>MetadataTypes\<close>, \<open>MetadataCenter\<close>: requests with failover, load and cache queries, the
    tasks that count and take back.  \<open>TaskDelivery\<close>: a worker, the client and the discovery at work on one task.
  \<^item> \<open>RlsAlgebra\<close>, \<open>TpotRls\<close>, \<open>TpotPrediction\<close>, \<open>TtftPrediction\<close>, \<open>MetricsStats\<close>: the
    algebra of recursive least squares over the rationals, the two filters as instances, the
    predictors and the statistics on top.
  \<^item> \<open>LlmConfig\<close>, \<open>ConfigValidator\<close>: the plugin configuration, its mappings, the choice of a
    rule; the validators, fail-fast and complete.  \<open>ValidationErrors\<close>: the error types of the messages.
  \<^item> \<open>LbHost\<close>, \<open>InferenceLb\<close>, \<open>ClusterManager\<close>: hosts, the inference balancer with its scores,
    the managers with choices and announcements as runs.  \<open>ClusterRace\<close>: the choice of a host cut
    into look-ups, lock, watch and store, for any number of callers; \<open>Degradation\<close>: what is chosen when
    the metadata center does not answer.
  \<^item> \<open>Discovery\<close>, \<open>CdsStreams\<close>: the static provider and its messages; the streams to Envoy as a
    step relation.
  \<^item> \<open>LlmLog\<close>, \<open>AsyncLog\<close>, \<open>CacheHash\<close>, \<open>CommonTranscoder\<close>, \<open>OpenAiTranscoder\<close>: what
    is logged of an answer, the log writer, prompt hashes, gRPC frames and event streams, and the
    conversion of answers, chunk by chunk or whole.
  \<^item> \<open>ProxyFilter\<close>, \<open>FilterHandlers\<close>: the state of the filter, its accounting and every
    callback.  \<open>FilterLifecycle\<close> composes the callbacks, the timer and other requests into runs
    and shows how a request is counted and taken back; \<open>FilterOutcomes\<close> shows where a request is
    sent, what the balancer is told, and what becomes of the body of a response; \<open>Gateway\<close> puts the
    filter, the configuration, the managers and the balancer together.  \<open>RequestQueue\<close> composes a
    request with the asynchronous queue, \<open>FleetLoad\<close> all requests at once with it, \<open>PromptRace\<close> cuts the deletion of a prompt into its steps and
    lets timer and callbacks interleave inside it, \<open>ContextTypes\<close> types the contexts that carry values from
    the filter to the balancer, \<open>FilterStream\<close> follows a streamed answer through the filter.
  \<^item> \<open>Startup\<close>, \<open>PromMetrics\<close>: the servers and the file of clusters at the start of the process
    (\<^verbatim>\<open>cmd/libgolang/init.go\<close>, \<^verbatim>\<open>staticdemo/provider.go\<close>), the metrics of \<^verbatim>\<open>pkg/prom\<close>.
    \<open>ProcessStart\<close>: the init functions of all packages and what they register for each other.

  \<^bold>\<open>State and operations.\<close>  A struct is a record with the fields of the source, a method a
  function that takes the record and returns it updated; a call that can panic answers \<open>Ret\<close> or
  \<open>Panic\<close>, one that can fail a sum with the error on the left.  Goroutines are step relations whose
  rules are the actions between two points where another goroutine can come in; what a mutex protects
  is one action.  A function value or an interface the code is given is an argument, named by a
  locale where a component relies on its laws, and the locale is interpreted on the model of the
  component that provides it.

  \<^bold>\<open>What the lemmas show.\<close>  Of every component: what each operation does on each branch, the
  invariant its steps keep, and the property a caller relies on.  Across components: a request reaches
  a server its most specific rule allows; a chosen host is always one the provider announced and
  Envoy knows; a host whose breaker tripped is not asked during its cooldown, as long as lookups find
  it; what is saved as cached at a server are the hashes the balancer was asked with; the deletion of
  a request is submitted exactly once if it was counted and never otherwise, at most one metadata
  center answers it with success, and with one worker it is handled after the addition, so that the load the
  metadata center keeps is that of the requests in flight; the process comes up in every order of initialisation
  or panics in each, by its environment; a stream passes the
  filter whole, however the network cuts it; the balancer degrades to a random choice without the metadata center; every value the filter hands the
  balancer has the type it is read at; the predicted times are least squares fits of
  the samples of the model.  Concurrency is looked into where the code relies on more than one mutex:
  the callers of a manager share one cluster of a name and choose among announced hosts, and timer and
  callbacks delete a prompt at most twice.  Some theorems show what the code gets wrong: the trace id
  never reaches the metadata center, the answer of a gRPC backend never reaches the client, deletions can
  go to another metadata center than the additions, an announcement misses a balancer type first used
  later or comes before its cluster is stored, workers overtake each other, a host missing from one lookup
  loses its breaker, a request whose removal the queue refuses stays in the load for ever.

  \<^bold>\<open>Bounds and fuel.\<close>  Integers of Go are 64 bits wide and wrap; the theorems that need more
  room than that say so in a premise.  Every loop is a total function with a measure; the one fuel is
  that of \<open>duration_parts\<close>, the length of the text, of which each part takes at least one character.
  \<open>caller_runs\<close> counts the steps of a caller, of which six are enough for a call.
  A \<^verbatim>\<open>float64\<close> is an exact rational: rounding, overflow to infinity and NaN are outside the
  model, and the theorems on predictions and scores hold of the exact values.

  \<^bold>\<open>Not modelled.\<close>  \<^verbatim>\<open>cmd/libgolang/main.go\<close> and \<^verbatim>\<open>plugins/plugins.go\<close> import packages for
  their registrations and register two factories of another project; the accessors protobuf generates are record
  selections; of the cluster discovery server's socket (\<^verbatim>\<open>staticdemo/server.go\<close>) only whether it can
  be had is modelled.  A size of the queue that does not fit the memory, which also panics, is not told from one that does.  The JSON codec, the HTTP transport, DNS, the hashes of prompts, UUIDs,
  random numbers, the clock and the registry of metrics are arguments.  Logging to the console has no effect
  in the model.  Callbacks of one request are atomic, except for the race of the timer with them, which
  is the subject of \<open>PromptRace\<close>.  The sleeps between retries are recorded, not waited for.
\<close>

end
